(* ===== verification/Prelude.thy ===== *)
theory Prelude
  imports Main "HOL-Library.Word" "HOL-Library.Monad_Syntax"
begin

text \<open>
  What every component shares: the machine types, panics as values, checked
  indexing and slicing, big-endian encoding, and strings as UTF-8 byte lists.

  \<^item> Fixed-width integers are words. A \<open>usize\<close> is a \<open>nat\<close>: every \<open>usize\<close> of the
    program is a length of, or an index into, a buffer in memory, unless a
    component says otherwise.
  \<^item> An expression of the source that can panic (an index, a range, a division)
    returns an \<open>outcome\<close>; \<open>Panic\<close> is propagated by \<open>obind\<close>. A Rust \<open>Option\<close>
    is an \<open>option\<close>, so a function that can panic and returns an \<open>Option\<close> has
    type \<open>'a option outcome\<close>.
  \<^item> The model is that of a release build: \<open>as\<close> casts truncate, arithmetic on
    fixed-width words wraps, \<open>debug_assert!\<close> is not evaluated.
\<close>

unbundle bit_operations_syntax

section \<open>Machine types\<close>

type_synonym u8 = "8 word"
type_synonym u16 = "16 word"
type_synonym u32 = "32 word"
type_synonym u64 = "64 word"
type_synonym bytes = "u8 list"

text \<open>A Rust \<open>String\<close> or \<open>&str\<close>: its UTF-8 bytes.\<close>

type_synonym rstr = "u8 list"

named_theorems wire \<open>computation rules of the codecs\<close>
named_theorems panicfree \<open>checked operations that return under a side condition\<close>

text \<open>Casts that keep the value.\<close>

lemma unat_of_nat_small: "n < 2 ^ LENGTH('a) \<Longrightarrow> unat (of_nat n :: 'a :: len word) = n"
  by (simp add: unat_of_nat take_bit_nat_eq_self)

lemma unat_of_nat_u16: "n < 65536 \<Longrightarrow> unat (of_nat n :: u16) = n"
  by (rule unat_of_nat_small) simp

lemma unat_of_nat_u32: "n < 4294967296 \<Longrightarrow> unat (of_nat n :: u32) = n"
  by (rule unat_of_nat_small) simp

lemma unat_of_nat_u64: "n < 18446744073709551616 \<Longrightarrow> unat (of_nat n :: u64) = n"
  by (rule unat_of_nat_small) simp

lemma unat_ucast_up [simp]:
  fixes x :: "'a :: len word"
  assumes "LENGTH('a) \<le> LENGTH('b)"
  shows "unat (ucast x :: 'b :: len word) = unat x"
proof -
  have "unat x < 2 ^ LENGTH('b)"
    by (rule order_less_le_trans[OF unsigned_less power_increasing]) (simp_all add: assms)
  then show ?thesis
    by (simp add: unsigned_ucast_eq take_bit_nat_eq_self)
qed

lemma unat_less_u16: "unat (x :: u16) < 65536"
  using unsigned_less[of x, where 'a = nat] by simp

lemma unat_less_u32: "unat (x :: u32) < 4294967296"
  using unsigned_less[of x, where 'a = nat] by simp

lemma unat_less_u64: "unat (x :: u64) < 18446744073709551616"
  using unsigned_less[of x, where 'a = nat] by simp

text \<open>Signed readings of 64-bit words.\<close>

lemma sint_eqI: "w = word_of_int i \<Longrightarrow> - (2 ^ 63) \<le> i \<Longrightarrow> i < 2 ^ 63 \<Longrightarrow> sint (w :: u64) = i"
  by (simp add: int_word_sint mod_pos_pos_trivial)

lemma sint_eqI32: "w = word_of_int i \<Longrightarrow> - (2 ^ 31) \<le> i \<Longrightarrow> i < 2 ^ 31 \<Longrightarrow> sint (w :: u32) = i"
  by (simp add: int_word_sint mod_pos_pos_trivial)

lemma sint_diff:
  "- (2 ^ 63) \<le> sint a - sint b \<Longrightarrow> sint a - sint b < 2 ^ 63 \<Longrightarrow>
   sint (a - b :: u64) = sint a - sint b"
  by (rule sint_eqI) simp_all

lemma sint_range64: "- (2 ^ 63) \<le> sint (w :: u64)" "sint (w :: u64) < 2 ^ 63"
  using sint_ge[of w] sint_lt[of w] by simp_all

section \<open>Panics as values\<close>

datatype 'a outcome = Panic | Ret (the_ret: 'a)

primrec obind :: "'a outcome \<Rightarrow> ('a \<Rightarrow> 'b outcome) \<Rightarrow> 'b outcome" where
  "obind Panic f = Panic"
| "obind (Ret x) f = f x"

lemma obind_Ret_right [simp]: "obind m Ret = m"
  by (cases m) simp_all

lemma obind_assoc: "obind (obind m f) g = obind m (\<lambda>x. obind (f x) g)"
  by (cases m) simp_all

lemma obind_eq_Ret_iff: "obind m f = Ret y \<longleftrightarrow> (\<exists>x. m = Ret x \<and> f x = Ret y)"
  by (cases m) simp_all

lemma obind_not_Panic [intro]:
  "m \<noteq> Panic \<Longrightarrow> (\<And>x. m = Ret x \<Longrightarrow> f x \<noteq> Panic) \<Longrightarrow> obind m f \<noteq> Panic"
  by (cases m) simp_all

lemma not_Panic_iff: "m \<noteq> Panic \<longleftrightarrow> (\<exists>x. m = Ret x)"
  by (cases m) simp_all

text \<open>The \<open>?\<close> of a function that returns an \<open>Option\<close> and can panic.\<close>

primrec otry :: "'a option outcome \<Rightarrow> ('a \<Rightarrow> 'b option outcome) \<Rightarrow> 'b option outcome" where
  "otry Panic f = Panic"
| "otry (Ret x) f = (case x of None \<Rightarrow> Ret None | Some v \<Rightarrow> f v)"

text \<open>A \<open>for\<close> loop whose body can panic.\<close>

primrec ofold :: "('s \<Rightarrow> 'a \<Rightarrow> 's outcome) \<Rightarrow> 's \<Rightarrow> 'a list \<Rightarrow> 's outcome" where
  "ofold f s [] = Ret s"
| "ofold f s (x # xs) = obind (f s x) (\<lambda>s'. ofold f s' xs)"

lemma ofold_append: "ofold f s (xs @ ys) = obind (ofold f s xs) (\<lambda>s'. ofold f s' ys)"
  by (induction xs arbitrary: s) (simp_all add: obind_assoc)

text \<open>
  The loop rule: an invariant the body keeps, without panicking, holds at the end,
  and the loop does not panic.
\<close>

lemma ofold_invariant:
  assumes "I s"
    and "\<And>s x. I s \<Longrightarrow> x \<in> set xs \<Longrightarrow> \<exists>s'. f s x = Ret s' \<and> I s'"
  shows "\<exists>s'. ofold f s xs = Ret s' \<and> I s'"
  using assms
proof (induction xs arbitrary: s)
  case Nil
  then show ?case by simp
next
  case (Cons x xs)
  from Cons.prems obtain s1 where "f s x = Ret s1" "I s1" by force
  with Cons.IH[of s1] Cons.prems(2) show ?case by simp
qed

text \<open>What no iteration changes, the loop does not change.\<close>

lemma ofold_frame:
  assumes "ofold f s xs = Ret s'" "\<And>s x s'. f s x = Ret s' \<Longrightarrow> g s' = g s"
  shows "g s' = g s"
  using assms(1)
proof (induction xs arbitrary: s)
  case (Cons x xs)
  then show ?case by (cases "f s x") (auto dest: assms(2))
qed simp

text \<open>A loop that pushes one computed element per iteration is a \<open>map\<close>.\<close>

lemma ofold_push:
  "(\<And>x. x \<in> set xs \<Longrightarrow> g x = Ret (h x)) \<Longrightarrow>
   ofold (\<lambda>out x. obind (g x) (\<lambda>v. Ret (out @ [v]))) acc xs = Ret (acc @ map h xs)"
  by (induction xs arbitrary: acc) simp_all

lemma ofold_extend:
  "(\<And>acc x. x \<in> set xs \<Longrightarrow> f acc x = Ret (acc @ h x)) \<Longrightarrow>
   ofold f acc xs = Ret (acc @ concat (map h xs))"
  by (induction xs arbitrary: acc) simp_all

section \<open>Blocks\<close>

text \<open>Two nested loops over \<open>m\<close> blocks of \<open>n\<close> elements are one loop over \<open>m * n\<close>.\<close>

lemma upt_block: "[0..<m * n + n] = [0..<m * n] @ map (\<lambda>c. m * n + c) [0..<(n::nat)]"
proof -
  have "[0..<m * n + n] = [0..<m * n] @ [m * n..<m * n + n]"
    by (rule upt_add_eq_append) simp
  also have "[m * n..<m * n + n] = map (\<lambda>c. m * n + c) [0..<n]"
    using map_add_upt[of "m * n" n] by (simp add: add.commute)
  finally show ?thesis .
qed

lemma concat_blocks:
  "concat (map (\<lambda>f. concat (map (\<lambda>c. g (f * n + c)) [0..<n])) [0..<m]) = concat (map g [0..<m * n])"
  by (induction m) (simp_all add: upt_block add.commute[of n] comp_def)

lemma map_blocks:
  "concat (map (\<lambda>f. map (\<lambda>c. g (f * n + c)) [0..<n]) [0..<m]) = map g [0..<m * n]"
  by (induction m) (simp_all add: upt_block add.commute[of n] comp_def)

lemma length_concat_const:
  "(\<And>x. x \<in> set xs \<Longrightarrow> length (g x) = n) \<Longrightarrow> length (concat (map g xs)) = length xs * n"
  by (induction xs) simp_all

text \<open>The \<open>k\<close>-th of a row of blocks of \<open>b\<close> elements.\<close>

lemma concat_split_block:
  assumes "k < m" and "\<And>j. j < m \<Longrightarrow> length (g j) = b"
  shows "\<exists>pre post. concat (map g [0..<m]) = pre @ g k @ post \<and> length pre = k * b"
proof -
  have "[0..<m] = [0..<k] @ k # [Suc k..<m]"
    using assms(1) upt_add_eq_append[of 0 k "m - k"] upt_conv_Cons[of k m] by simp
  then have "concat (map g [0..<m]) = concat (map g [0..<k]) @ g k @ concat (map g [Suc k..<m])"
    by simp
  moreover have "length (concat (map g [0..<k])) = k * b"
    using assms by (subst length_concat_const[where n = b]) auto
  ultimately show ?thesis by blast
qed

lemma block_index_less: "f < m \<Longrightarrow> c < n \<Longrightarrow> f * n + c < m * (n::nat)"
  by (metis add.commute mult_Suc mult_le_mono1 nat_add_left_cancel_less
      order_less_le_trans Suc_leI)

section \<open>Checked indexing and slicing\<close>

text \<open>
  \<open>idx\<close> is \<open>xs[i]\<close>, \<open>rng\<close> is \<open>&xs[a..b]\<close>, \<open>set_idx\<close> is \<open>xs[i] = v\<close>, \<open>set_rng\<close>
  is \<open>xs[a..a+n].copy_from_slice(ys)\<close> with \<open>n = ys.len()\<close>; each panics where Rust
  does. \<open>get_idx\<close> and \<open>get_rng\<close> are \<open>xs.get(i)\<close> and \<open>xs.get(a..b)\<close>.
\<close>

definition slice :: "'a list \<Rightarrow> nat \<Rightarrow> nat \<Rightarrow> 'a list" where
  "slice xs a b = take (b - a) (drop a xs)"

definition idx :: "'a list \<Rightarrow> nat \<Rightarrow> 'a outcome" where
  "idx xs i = (if i < length xs then Ret (xs ! i) else Panic)"

definition rng :: "'a list \<Rightarrow> nat \<Rightarrow> nat \<Rightarrow> 'a list outcome" where
  "rng xs a b = (if a \<le> b \<and> b \<le> length xs then Ret (slice xs a b) else Panic)"

definition set_idx :: "'a list \<Rightarrow> nat \<Rightarrow> 'a \<Rightarrow> 'a list outcome" where
  "set_idx xs i v = (if i < length xs then Ret (xs[i := v]) else Panic)"

definition set_rng :: "'a list \<Rightarrow> nat \<Rightarrow> 'a list \<Rightarrow> 'a list outcome" where
  "set_rng xs a ys =
     (if a + length ys \<le> length xs
      then Ret (take a xs @ ys @ drop (a + length ys) xs) else Panic)"

definition get_idx :: "'a list \<Rightarrow> nat \<Rightarrow> 'a option" where
  "get_idx xs i = (if i < length xs then Some (xs ! i) else None)"

definition get_rng :: "'a list \<Rightarrow> nat \<Rightarrow> nat \<Rightarrow> 'a list option" where
  "get_rng xs a b = (if a \<le> b \<and> b \<le> length xs then Some (slice xs a b) else None)"

lemma idx_Ret [panicfree]: "i < length xs \<Longrightarrow> idx xs i = Ret (xs ! i)"
  by (simp add: idx_def)

lemma rng_Ret [panicfree]: "a \<le> b \<Longrightarrow> b \<le> length xs \<Longrightarrow> rng xs a b = Ret (slice xs a b)"
  by (simp add: rng_def)

lemma set_idx_Ret [panicfree]: "i < length xs \<Longrightarrow> set_idx xs i v = Ret (xs[i := v])"
  by (simp add: set_idx_def)

lemma set_rng_Ret [panicfree]:
  "a + length ys \<le> length xs \<Longrightarrow>
   set_rng xs a ys = Ret (take a xs @ ys @ drop (a + length ys) xs)"
  by (simp add: set_rng_def)

lemma length_slice [simp]: "b \<le> length xs \<Longrightarrow> length (slice xs a b) = b - a"
  by (simp add: slice_def)

lemma nth_slice: "a + i < b \<Longrightarrow> b \<le> length xs \<Longrightarrow> slice xs a b ! i = xs ! (a + i)"
  by (simp add: slice_def)

lemma slice_append_left [simp]: "b \<le> length xs \<Longrightarrow> slice (xs @ ys) a b = slice xs a b"
  by (simp add: slice_def)

lemma slice_append_exact: "a = length xs \<Longrightarrow> b = a + length ys \<Longrightarrow> slice (xs @ ys @ zs) a b = ys"
  by (simp add: slice_def)

lemma slice_all [simp]: "slice xs 0 (length xs) = xs"
  by (simp add: slice_def)

lemma length_set_rng: "set_rng xs a ys = Ret zs \<Longrightarrow> length zs = length xs"
  by (auto simp: set_rng_def split: if_splits)

section \<open>Big-endian bytes\<close>

text \<open>\<open>to_be_bytes\<close> and \<open>from_be_bytes\<close> of \<open>u16\<close> and \<open>u32\<close>.\<close>

definition be16 :: "u16 \<Rightarrow> bytes" where
  "be16 w = [ucast (drop_bit 8 w), ucast w]"

definition be32 :: "u32 \<Rightarrow> bytes" where
  "be32 w = [ucast (drop_bit 24 w), ucast (drop_bit 16 w), ucast (drop_bit 8 w), ucast w]"

definition from_be16 :: "u8 \<Rightarrow> u8 \<Rightarrow> u16" where
  "from_be16 a b = push_bit 8 (ucast a) OR ucast b"

definition from_be32 :: "u8 \<Rightarrow> u8 \<Rightarrow> u8 \<Rightarrow> u8 \<Rightarrow> u32" where
  "from_be32 a b c d =
     push_bit 24 (ucast a) OR push_bit 16 (ucast b) OR push_bit 8 (ucast c) OR ucast d"

lemma length_be16 [simp]: "length (be16 w) = 2"
  by (simp add: be16_def)

lemma length_be32 [simp]: "length (be32 w) = 4"
  by (simp add: be32_def)

lemma bit_u8_ge [simp]: "8 \<le> n \<Longrightarrow> \<not> bit (b :: u8) n"
  using bit_imp_le_length[of b n] by auto

lemma from_be16_bytes [simp]: "from_be16 (ucast (drop_bit 8 w)) (ucast w) = w"
  unfolding from_be16_def
  by (rule bit_word_eqI) (auto simp: bit_simps dest: bit_imp_le_length)

lemma be16_from_be16 [simp]: "be16 (from_be16 a b) = [a, b]"
  unfolding from_be16_def be16_def
  by (auto intro!: bit_word_eqI simp: bit_simps dest: bit_imp_le_length)

lemma from_be32_bytes [simp]:
  "from_be32 (ucast (drop_bit 24 w)) (ucast (drop_bit 16 w)) (ucast (drop_bit 8 w)) (ucast w) = w"
proof (rule bit_word_eqI)
  fix n
  assume "n < LENGTH(32)"
  then consider "n < 8" | "8 \<le> n" "n < 16" | "16 \<le> n" "n < 24" | "24 \<le> n" "n < 32"
    by fastforce
  then show "bit (from_be32 (ucast (drop_bit 24 w)) (ucast (drop_bit 16 w))
                   (ucast (drop_bit 8 w)) (ucast w)) n = bit w n"
    by cases (auto simp: from_be32_def bit_simps)
qed

lemma be32_from_be32 [simp]: "be32 (from_be32 a b c d) = [a, b, c, d]"
  unfolding from_be32_def be32_def
  by (auto intro!: bit_word_eqI simp: bit_simps dest: bit_imp_le_length)

text \<open>\<open>u16::from_be_bytes(xs[i..i + 2].try_into().ok()?)\<close>, and the same of \<open>u32\<close>.\<close>

definition rd16 :: "bytes \<Rightarrow> nat \<Rightarrow> u16 outcome" where
  "rd16 xs i = obind (rng xs i (i + 2)) (\<lambda>s. Ret (from_be16 (s ! 0) (s ! 1)))"

definition rd32 :: "bytes \<Rightarrow> nat \<Rightarrow> u32 outcome" where
  "rd32 xs i = obind (rng xs i (i + 4)) (\<lambda>s. Ret (from_be32 (s ! 0) (s ! 1) (s ! 2) (s ! 3)))"

lemma rd16_Ret [panicfree]:
  "i + 2 \<le> length xs \<Longrightarrow> rd16 xs i = Ret (from_be16 (xs ! i) (xs ! (i + 1)))"
  by (simp add: rd16_def panicfree nth_slice)

lemma rd32_Ret [panicfree]:
  "i + 4 \<le> length xs \<Longrightarrow>
   rd32 xs i = Ret (from_be32 (xs ! i) (xs ! (i + 1)) (xs ! (i + 2)) (xs ! (i + 3)))"
  by (simp add: rd32_def panicfree nth_slice)

text \<open>\<open>u16::from_be_bytes(xs.get(i..i + 2)?.try_into().ok()?)\<close>, and the same of \<open>u32\<close>.\<close>

definition get16 :: "bytes \<Rightarrow> nat \<Rightarrow> u16 option" where
  "get16 xs i = map_option (\<lambda>s. from_be16 (s ! 0) (s ! 1)) (get_rng xs i (i + 2))"

definition get32 :: "bytes \<Rightarrow> nat \<Rightarrow> u32 option" where
  "get32 xs i = map_option (\<lambda>s. from_be32 (s ! 0) (s ! 1) (s ! 2) (s ! 3)) (get_rng xs i (i + 4))"

lemma get_idx_written: "i = length pre \<Longrightarrow> get_idx (pre @ b # post) i = Some b"
  by (simp add: get_idx_def)

lemma get_rng_written: "a = length pre \<Longrightarrow> b = a + length ys \<Longrightarrow> get_rng (pre @ ys @ post) a b = Some ys"
  by (simp add: get_rng_def slice_append_exact)

lemma get16_written: "i = length pre \<Longrightarrow> get16 (pre @ be16 v @ post) i = Some v"
  using get_rng_written[of i pre "i + 2" "be16 v" post] by (simp add: get16_def) (simp add: be16_def)

lemma get32_written: "i = length pre \<Longrightarrow> get32 (pre @ be32 v @ post) i = Some v"
  using get_rng_written[of i pre "i + 4" "be32 v" post] by (simp add: get32_def) (simp add: be32_def)

text \<open>Reading back what was written at a known offset.\<close>

lemma rd16_written: "i = length pre \<Longrightarrow> rd16 (pre @ be16 v @ post) i = Ret v"
  by (simp add: rd16_Ret be16_def nth_append)

lemma rd32_written: "i = length pre \<Longrightarrow> rd32 (pre @ be32 v @ post) i = Ret v"
  by (simp add: rd32_Ret be32_def nth_append)

lemma rd16_concat_written:
  assumes "k < length vs" "i = length pre + 2 * k"
  shows "rd16 (pre @ concat (map be16 vs) @ post) i = Ret (vs ! k)"
proof -
  have "pre @ concat (map be16 vs) @ post =
      (pre @ concat (map be16 (take k vs))) @ be16 (vs ! k) @ concat (map be16 (drop (Suc k) vs)) @ post"
    using assms(1) by (subst id_take_nth_drop[of k vs]) simp_all
  moreover have "i = length (pre @ concat (map be16 (take k vs)))"
    using assms by (simp add: length_concat_const[where n = 2])
  ultimately show ?thesis
    using rd16_written by metis
qed

lemma rng_written: "a = length pre \<Longrightarrow> b = a + length ys \<Longrightarrow> rng (pre @ ys @ post) a b = Ret ys"
  by (simp add: rng_def slice_append_exact)

lemma set_rng_written:
  "a = length pre \<Longrightarrow> length old = length new \<Longrightarrow>
   set_rng (pre @ old @ post) a new = Ret (pre @ new @ post)"
  by (simp add: set_rng_def)

section \<open>State machines\<close>

text \<open>
  The contract of a component that handles events one after the other: an invariant that
  every event it admits keeps. Its runs then keep it.
\<close>

locale machine =
  fixes step :: "'s \<Rightarrow> 'e \<Rightarrow> 's"
    and admits :: "'e \<Rightarrow> bool"
    and inv :: "'s \<Rightarrow> bool"
  assumes step_inv: "inv s \<Longrightarrow> admits e \<Longrightarrow> inv (step s e)"
begin

lemma run_inv: "inv s \<Longrightarrow> list_all admits es \<Longrightarrow> inv (foldl step s es)"
  by (induction es arbitrary: s) (simp_all add: step_inv)

lemma prefix_inv: "inv s \<Longrightarrow> list_all admits es \<Longrightarrow> inv (foldl step s (take n es))"
  by (rule run_inv) (auto simp: list_all_iff dest: in_set_takeD)

end

text \<open>
  The same for a component whose steps may panic: from a state of the invariant no step it
  admits does. Its runs then return, and they are the runs of the machine of its results.
\<close>

locale fallible_machine =
  fixes step :: "'s \<Rightarrow> 'e \<Rightarrow> 's outcome"
    and admits :: "'e \<Rightarrow> bool"
    and inv :: "'s \<Rightarrow> bool"
  assumes step_total: "inv s \<Longrightarrow> admits e \<Longrightarrow> \<exists>s'. step s e = Ret s' \<and> inv s'"
begin

definition next_state :: "'s \<Rightarrow> 'e \<Rightarrow> 's" where
  "next_state s e = the_ret (step s e)"

lemma step_next: "inv s \<Longrightarrow> admits e \<Longrightarrow> step s e = Ret (next_state s e) \<and> inv (next_state s e)"
  using step_total[of s e] by (auto simp: next_state_def)

lemma run_next: "inv s \<Longrightarrow> list_all admits es \<Longrightarrow> ofold step s es = Ret (foldl next_state s es)"
  by (induction es arbitrary: s) (simp_all add: step_next)

end

sublocale fallible_machine \<subseteq> results: machine next_state admits inv
  by unfold_locales (simp add: step_next)

context fallible_machine
begin

lemma run_total: "inv s \<Longrightarrow> list_all admits es \<Longrightarrow> \<exists>s'. ofold step s es = Ret s' \<and> inv s'"
  by (simp add: run_next results.run_inv)

end

end
