(* ===== verification/Buf.thy ===== *)
theory Buf
  imports Prelude
begin

text \<open>
  \<open>src/src/protocol/buf.rs\<close>: the big-endian reader \<open>BeSlice\<close>, the writer
  \<open>BeWriter\<close>, NUL-terminated strings at packet offsets and padded ASCII fields;
  with the validity check of \<open>str::from_utf8\<close> they use.
\<close>

section \<open>UTF-8\<close>

text \<open>The validity check of \<open>std::str::from_utf8\<close>.\<close>

definition utf8_cont :: "u8 \<Rightarrow> bool" where
  "utf8_cont b \<longleftrightarrow> 0x80 \<le> b \<and> b \<le> 0xBF"

definition utf8_lead3 :: "u8 \<Rightarrow> u8 \<Rightarrow> bool" where
  "utf8_lead3 a b \<longleftrightarrow>
     a = 0xE0 \<and> 0xA0 \<le> b \<and> b \<le> 0xBF \<or>
     0xE1 \<le> a \<and> a \<le> 0xEC \<and> utf8_cont b \<or>
     a = 0xED \<and> 0x80 \<le> b \<and> b \<le> 0x9F \<or>
     0xEE \<le> a \<and> a \<le> 0xEF \<and> utf8_cont b"

definition utf8_lead4 :: "u8 \<Rightarrow> u8 \<Rightarrow> bool" where
  "utf8_lead4 a b \<longleftrightarrow>
     a = 0xF0 \<and> 0x90 \<le> b \<and> b \<le> 0xBF \<or>
     0xF1 \<le> a \<and> a \<le> 0xF3 \<and> utf8_cont b \<or>
     a = 0xF4 \<and> 0x80 \<le> b \<and> b \<le> 0x8F"

text \<open>What follows the first encoded character.\<close>

definition utf8_char :: "bytes \<Rightarrow> bytes option" where
  "utf8_char bs = (case bs of
     [] \<Rightarrow> None
   | a # xs \<Rightarrow>
       if a < 0x80 then Some xs
       else case xs of
         [] \<Rightarrow> None
       | b # ys \<Rightarrow>
           if 0xC2 \<le> a \<and> a \<le> 0xDF \<and> utf8_cont b then Some ys
           else case ys of
             [] \<Rightarrow> None
           | c # zs \<Rightarrow>
               if utf8_lead3 a b \<and> utf8_cont c then Some zs
               else case zs of
                 [] \<Rightarrow> None
               | d # ws \<Rightarrow>
                   if utf8_lead4 a b \<and> utf8_cont c \<and> utf8_cont d then Some ws else None)"

lemma utf8_char_shorter: "utf8_char bs = Some r \<Longrightarrow> length r < length bs"
  by (auto simp: utf8_char_def split: list.splits if_splits)

lemma utf8_char_append: "utf8_char bs = Some r \<Longrightarrow> utf8_char (bs @ ys) = Some (r @ ys)"
  by (auto simp: utf8_char_def split: list.splits if_splits)

function valid_utf8 :: "bytes \<Rightarrow> bool" where
  "valid_utf8 bs =
     (bs = [] \<or> (case utf8_char bs of None \<Rightarrow> False | Some r \<Rightarrow> valid_utf8 r))"
  by pat_completeness auto
termination
  by (relation "measure length") (auto dest: utf8_char_shorter)

declare valid_utf8.simps [simp del]

lemma valid_utf8_Nil [simp]: "valid_utf8 []"
  by (simp add: valid_utf8.simps)

lemma valid_utf8_Cons_ascii [simp]: "a < 0x80 \<Longrightarrow> valid_utf8 (a # xs) = valid_utf8 xs"
  by (subst valid_utf8.simps) (simp add: utf8_char_def)

definition from_utf8 :: "bytes \<Rightarrow> rstr option" where
  "from_utf8 bs = (if valid_utf8 bs then Some bs else None)"

lemma valid_utf8_ascii: "list_all (\<lambda>b. b < 0x80) bs \<Longrightarrow> valid_utf8 bs"
  by (induction bs) auto

lemma valid_utf8_append_iff:
  "valid_utf8 xs \<Longrightarrow> valid_utf8 (xs @ ys) \<longleftrightarrow> valid_utf8 ys"
proof (induction xs rule: valid_utf8.induct)
  case (1 xs)
  show ?case
  proof (cases "xs = []")
    case False
    with "1.prems" obtain r where r: "utf8_char xs = Some r" "valid_utf8 r"
      by (subst (asm) valid_utf8.simps) (auto split: option.splits)
    with False "1.IH" have "valid_utf8 (r @ ys) \<longleftrightarrow> valid_utf8 ys" by simp
    with False r show ?thesis
      by (subst valid_utf8.simps) (simp add: utf8_char_append)
  qed simp
qed

text \<open>A string literal of the source, ASCII.\<close>

definition lit :: "string \<Rightarrow> rstr" where
  "lit s = map of_char s"

section \<open>BeSlice\<close>

record be_slice =
  bs_inner :: bytes
  bs_pos :: nat

definition bs_new :: "bytes \<Rightarrow> be_slice" where
  "bs_new xs = \<lparr>bs_inner = xs, bs_pos = 0\<rparr>"

definition bs_remaining :: "be_slice \<Rightarrow> nat" where
  "bs_remaining r = length (bs_inner r) - bs_pos r"

definition bs_u8 :: "be_slice \<Rightarrow> (u8 \<times> be_slice) option" where
  "bs_u8 r = do {
     b \<leftarrow> get_idx (bs_inner r) (bs_pos r);
     Some (b, r\<lparr>bs_pos := bs_pos r + 1\<rparr>) }"

definition bs_u16 :: "be_slice \<Rightarrow> (u16 \<times> be_slice) option" where
  "bs_u16 r =
     (if bs_remaining r < 2 then None
      else let xs = drop (bs_pos r) (bs_inner r)
           in Some (from_be16 (xs ! 0) (xs ! 1), r\<lparr>bs_pos := bs_pos r + 2\<rparr>))"

definition bs_u32 :: "be_slice \<Rightarrow> (u32 \<times> be_slice) option" where
  "bs_u32 r =
     (if bs_remaining r < 4 then None
      else let xs = drop (bs_pos r) (bs_inner r)
           in Some (from_be32 (xs ! 0) (xs ! 1) (xs ! 2) (xs ! 3), r\<lparr>bs_pos := bs_pos r + 4\<rparr>))"

definition bs_bytes :: "nat \<Rightarrow> be_slice \<Rightarrow> (bytes \<times> be_slice) option" where
  "bs_bytes n r =
     (if bs_remaining r < n then None
      else Some (slice (bs_inner r) (bs_pos r) (bs_pos r + n), r\<lparr>bs_pos := bs_pos r + n\<rparr>))"

definition bs_rest :: "be_slice \<Rightarrow> bytes outcome" where
  "bs_rest r = rng (bs_inner r) (bs_pos r) (length (bs_inner r))"

text \<open>The cursor never passes the end, so \<open>rest\<close> does not panic.\<close>

definition bs_ok :: "be_slice \<Rightarrow> bool" where
  "bs_ok r \<longleftrightarrow> bs_pos r \<le> length (bs_inner r)"

lemma bs_ok_new [simp]: "bs_ok (bs_new xs)"
  by (simp add: bs_ok_def bs_new_def)

lemma bs_u8_Some:
  assumes "bs_u8 r = Some (v, r')"
  shows "bs_ok r'" "bs_inner r' = bs_inner r" "bs_pos r' = bs_pos r + 1"
    "bs_pos r + 1 \<le> length (bs_inner r)" "v = bs_inner r ! bs_pos r"
  using assms by (auto simp: bs_u8_def get_idx_def bs_ok_def split: if_splits)

lemma bs_u16_Some:
  assumes "bs_u16 r = Some (v, r')"
  shows "bs_ok r'" "bs_inner r' = bs_inner r" "bs_pos r' = bs_pos r + 2"
    "bs_pos r + 2 \<le> length (bs_inner r)"
    "v = from_be16 (bs_inner r ! bs_pos r) (bs_inner r ! (bs_pos r + 1))"
  using assms by (auto simp: bs_u16_def bs_remaining_def bs_ok_def Let_def split: if_splits)

lemma bs_u32_Some:
  assumes "bs_u32 r = Some (v, r')"
  shows "bs_ok r'" "bs_inner r' = bs_inner r" "bs_pos r' = bs_pos r + 4"
    "bs_pos r + 4 \<le> length (bs_inner r)"
  using assms by (auto simp: bs_u32_def bs_remaining_def bs_ok_def Let_def split: if_splits)

text \<open>The reads, with the cursor's offset computed.\<close>

lemma bs_u8_at [wire]:
  "n + 1 \<le> length xs \<Longrightarrow>
   bs_u8 \<lparr>bs_inner = xs, bs_pos = n\<rparr> = Some (xs ! n, \<lparr>bs_inner = xs, bs_pos = n + 1\<rparr>)"
  by (simp add: bs_u8_def get_idx_def)

lemma bs_u16_at [wire]:
  "n + 2 \<le> length xs \<Longrightarrow>
   bs_u16 \<lparr>bs_inner = xs, bs_pos = n\<rparr> =
     Some (from_be16 (xs ! n) (xs ! (n + 1)), \<lparr>bs_inner = xs, bs_pos = n + 2\<rparr>)"
  by (simp add: bs_u16_def bs_remaining_def Let_def)

lemma bs_u32_at [wire]:
  "n + 4 \<le> length xs \<Longrightarrow>
   bs_u32 \<lparr>bs_inner = xs, bs_pos = n\<rparr> =
     Some (from_be32 (xs ! n) (xs ! (n + 1)) (xs ! (n + 2)) (xs ! (n + 3)),
           \<lparr>bs_inner = xs, bs_pos = n + 4\<rparr>)"
  by (simp add: bs_u32_def bs_remaining_def Let_def)

lemma bs_rest_Ret: "bs_ok r \<Longrightarrow> bs_rest r = Ret (drop (bs_pos r) (bs_inner r))"
  by (simp add: bs_ok_def bs_rest_def rng_def slice_def)

section \<open>BeWriter\<close>

text \<open>The writer is the bytes written so far.\<close>

type_synonym be_writer = bytes

definition bw_u8 :: "u8 \<Rightarrow> be_writer \<Rightarrow> be_writer" where
  "bw_u8 v w = w @ [v]"

definition bw_u16 :: "u16 \<Rightarrow> be_writer \<Rightarrow> be_writer" where
  "bw_u16 v w = w @ be16 v"

definition bw_u32 :: "u32 \<Rightarrow> be_writer \<Rightarrow> be_writer" where
  "bw_u32 v w = w @ be32 v"

definition bw_bytes :: "bytes \<Rightarrow> be_writer \<Rightarrow> be_writer" where
  "bw_bytes b w = w @ b"

definition bw_cstr :: "rstr \<Rightarrow> be_writer \<Rightarrow> be_writer" where
  "bw_cstr s w = w @ s @ [0]"

definition bw_zeros :: "nat \<Rightarrow> be_writer \<Rightarrow> be_writer" where
  "bw_zeros n w = w @ replicate n 0"

definition bw_patch_u16 :: "nat \<Rightarrow> u16 \<Rightarrow> be_writer \<Rightarrow> be_writer outcome" where
  "bw_patch_u16 at v w = set_rng w at (be16 v)"

lemmas bw_defs [wire] =
  bw_u8_def bw_u16_def bw_u32_def bw_bytes_def bw_cstr_def bw_zeros_def bw_patch_u16_def

section \<open>Strings in packets\<close>

text \<open>\<open>iter().position(|&b| b == 0)\<close>\<close>

fun nul_position :: "bytes \<Rightarrow> nat option" where
  "nul_position [] = None"
| "nul_position (b # bs) = (if b = 0 then Some 0 else map_option Suc (nul_position bs))"

definition cstr_at :: "bytes \<Rightarrow> u16 \<Rightarrow> rstr option" where
  "cstr_at packet off =
     (if off = 0 then None
      else let start = unat off in
        if start \<ge> length packet then None
        else case nul_position (drop start packet) of
          None \<Rightarrow> None
        | Some i \<Rightarrow> from_utf8 (slice packet start (start + i)))"

definition write_ascii_padded :: "nat \<Rightarrow> rstr \<Rightarrow> bytes" where
  \<comment> \<open>the new contents of a field \<open>dst\<close> of \<open>n\<close> bytes\<close>
  "write_ascii_padded n s = take (min (length s) n) s @ replicate (n - min (length s) n) 0"

lemma length_write_ascii_padded [simp]: "length (write_ascii_padded n s) = n"
  by (simp add: write_ascii_padded_def)

lemma nul_position_append:
  "0 \<notin> set s \<Longrightarrow> nul_position (s @ 0 # ys) = Some (length s)"
  by (induction s) auto

lemma nul_position_Some:
  "nul_position bs = Some i \<Longrightarrow> i < length bs \<and> bs ! i = 0 \<and> 0 \<notin> set (take i bs)"
  by (induction bs arbitrary: i) (auto split: if_splits)

text \<open>
  The reading rule for strings: a NUL-free, valid string written with its NUL at a
  non-zero packet offset that fits in 16 bits is read back from that offset.
\<close>

lemma cstr_at_written:
  assumes "valid_utf8 s" "0 \<notin> set s" "0 < length pre" "length pre < 2 ^ 16"
  shows "cstr_at (pre @ s @ 0 # post) (of_nat (length pre)) = Some s"
proof -
  have u: "unat (of_nat (length pre) :: u16) = length pre"
    using assms(4) by (simp add: unat_of_nat take_bit_nat_eq_self)
  have "(of_nat (length pre) :: u16) \<noteq> 0"
    using u assms(3) by (metis unat_0 less_numeral_extra(3))
  then show ?thesis
    using assms(1,2) u
    by (simp add: cstr_at_def Let_def nul_position_append from_utf8_def slice_def)
qed

lemma cstr_at_offset:
  assumes "packet = pre @ s @ 0 # post" "length pre = off" "valid_utf8 s" "0 \<notin> set s"
    and "0 < off" "off < 2 ^ 16"
  shows "cstr_at packet (of_nat off) = Some s"
  using cstr_at_written[OF assms(3,4)] assms(1,2,5,6) by blast

text \<open>Whatever \<open>cstr_at\<close> returns is a NUL-free, valid stretch of the packet.\<close>

lemma cstr_at_Some:
  assumes "cstr_at packet off = Some s"
  shows "off \<noteq> 0" "valid_utf8 s" "0 \<notin> set s"
    "unat off + length s < length packet"
    "s = slice packet (unat off) (unat off + length s)"
  using assms nul_position_Some[of "drop (unat off) packet"]
  by (auto simp: cstr_at_def Let_def from_utf8_def slice_def min_def
      split: if_splits option.splits)

text \<open>The string a 16-bit offset field at \<open>at\<close> of the content points to.\<close>

definition str_field :: "bytes \<Rightarrow> bytes \<Rightarrow> nat \<Rightarrow> rstr option outcome" where
  "str_field packet content at = obind (rd16 content at) (\<lambda>off. Ret (cstr_at packet off))"

lemma str_field_eq: "rd16 content at = Ret off \<Longrightarrow> str_field packet content at = Ret (cstr_at packet off)"
  by (simp add: str_field_def)

end
