(* ===== verification/Req_Resp.thy ===== *)
theory Req_Resp
  imports Buf
begin

text \<open>
  \<open>src/src/protocol/req_resp.rs\<close> and the constants of \<open>src/src/protocol/mod.rs\<close>:
  the 10-byte request/response header shared by ARC, CMC and flows-control, its
  encoder and decoder, and the pagination index.
\<close>

definition HEADER_RR :: nat where "HEADER_RR = 10"
definition HEADER_MCAST :: nat where "HEADER_MCAST = 32"
definition OPCODE2_OK :: u16 where "OPCODE2_OK = 1"
definition OPCODE2_MORE :: u16 where "OPCODE2_MORE = 0x8112"
definition OPCODE2_UNSUPPORTED :: u16 where "OPCODE2_UNSUPPORTED = 0x0030"
definition OPCODE2_FAIL :: u16 where "OPCODE2_FAIL = 0xFFFF"

lemmas opcode2_defs = OPCODE2_OK_def OPCODE2_MORE_def OPCODE2_UNSUPPORTED_def OPCODE2_FAIL_def

record header =
  h_start_code :: u16
  h_total_length :: u16
  h_seqnum :: u16
  h_opcode1 :: u16
  h_opcode2 :: u16

definition rr_header :: "bytes \<Rightarrow> header option" where
  \<comment> \<open>the five reads of \<open>decode\<close>\<close>
  "rr_header packet = do {
     (start_code, r) \<leftarrow> bs_u16 (bs_new packet);
     (total_length, r) \<leftarrow> bs_u16 r;
     (seqnum, r) \<leftarrow> bs_u16 r;
     (opcode1, r) \<leftarrow> bs_u16 r;
     (opcode2, r) \<leftarrow> bs_u16 r;
     Some \<lparr>h_start_code = start_code, h_total_length = total_length,
           h_seqnum = seqnum, h_opcode1 = opcode1, h_opcode2 = opcode2\<rparr> }"

definition rr_decode :: "bytes \<Rightarrow> (header \<times> bytes) option outcome" where
  "rr_decode packet =
     (if length packet < HEADER_RR then Ret None
      else case rr_header packet of
        None \<Rightarrow> Ret None
      | Some h \<Rightarrow>
          let content_end = min (unat (h_total_length h)) (length packet)
          in if content_end < HEADER_RR then Ret None
             else obind (rng packet HEADER_RR content_end) (\<lambda>c. Ret (Some (h, c))))"

definition rr_encode :: "u16 \<Rightarrow> u16 \<Rightarrow> u16 \<Rightarrow> u16 \<Rightarrow> bytes \<Rightarrow> bytes" where
  "rr_encode start_code seqnum opcode1 opcode2 content =
     (let total = HEADER_RR + length content;
          w = bw_u16 start_code [];
          w = bw_u16 (of_nat total) w;
          w = bw_u16 seqnum w;
          w = bw_u16 opcode1 w;
          w = bw_u16 opcode2 w
      in bw_bytes content w)"

definition rr_encode_ok :: "header \<Rightarrow> bytes \<Rightarrow> bytes" where
  "rr_encode_ok req content =
     rr_encode (h_start_code req) (h_seqnum req) (h_opcode1 req) OPCODE2_OK content"

definition rr_encode_code :: "header \<Rightarrow> u16 \<Rightarrow> bytes \<Rightarrow> bytes" where
  "rr_encode_code req opcode2 content =
     rr_encode (h_start_code req) (h_seqnum req) (h_opcode1 req) opcode2 content"

definition pagination_start :: "bytes \<Rightarrow> nat option outcome" where
  "pagination_start content =
     (if length content < 4 then Ret None
      else obind (idx content 2) (\<lambda>a. obind (idx content 3) (\<lambda>b.
        let i = from_be16 a b
        in if i = 0 then Ret None else Ret (Some (unat (i - 1))))))"

definition empty_page :: bytes where
  "empty_page = [0, 0]"

section \<open>Lemmas\<close>

lemma length_rr_encode [simp]: "length (rr_encode sc sq o1 o2 c) = 10 + length c"
  by (simp add: rr_encode_def wire HEADER_RR_def Let_def)

lemma rr_encode_layout:
  "rr_encode sc sq o1 o2 c =
     be16 sc @ be16 (of_nat (10 + length c)) @ be16 sq @ be16 o1 @ be16 o2 @ c"
  by (simp add: rr_encode_def wire HEADER_RR_def Let_def)

text \<open>The fields of a header read off the packet's first ten bytes.\<close>

lemma rr_header_eq:
  assumes "10 \<le> length p"
  shows "rr_header p = Some
    \<lparr>h_start_code = from_be16 (p ! 0) (p ! 1), h_total_length = from_be16 (p ! 2) (p ! 3),
     h_seqnum = from_be16 (p ! 4) (p ! 5), h_opcode1 = from_be16 (p ! 6) (p ! 7),
     h_opcode2 = from_be16 (p ! 8) (p ! 9)\<rparr>"
  using assms
  by (simp add: rr_header_def bs_new_def wire del: add_2_eq_Suc')

text \<open>\<open>decode\<close> never panics, and the content it returns is inside the packet.\<close>

lemma rr_decode_eq:
  "rr_decode p = Ret
    (if 10 \<le> length p \<and> 10 \<le> unat (from_be16 (p ! 2) (p ! 3))
     then Some (the (rr_header p), slice p 10 (min (unat (from_be16 (p ! 2) (p ! 3))) (length p)))
     else None)"
  by (auto simp: rr_decode_def HEADER_RR_def rr_header_eq Let_def rng_def)

lemma rr_decode_no_panic: "rr_decode p \<noteq> Panic"
  by (simp add: rr_decode_eq)

lemma rr_decode_Some:
  assumes "rr_decode p = Ret (Some (h, c))"
  shows "10 \<le> length p" "rr_header p = Some h" "length c \<le> length p - 10"
    "c = slice p 10 (10 + length c)"
  using assms by (auto simp: rr_decode_eq rr_header_eq slice_def split: if_splits)

text \<open>Encoding then decoding, for a packet whose length fits the 16-bit field.\<close>

lemma rr_decode_encode:
  assumes "10 + length c < 2 ^ 16"
  shows "rr_decode (rr_encode sc sq o1 o2 c) = Ret (Some
    (\<lparr>h_start_code = sc, h_total_length = of_nat (10 + length c), h_seqnum = sq,
      h_opcode1 = o1, h_opcode2 = o2\<rparr>, c))"
proof -
  have "unat (of_nat (10 + length c) :: u16) = 10 + length c"
    using assms by (simp only: unat_of_nat take_bit_nat_eq_self) simp
  then show ?thesis
    by (simp add: rr_decode_eq rr_header_eq rr_encode_layout be16_def slice_def)
qed

lemma pagination_start_eq:
  "pagination_start c = Ret
     (if 4 \<le> length c \<and> from_be16 (c ! 2) (c ! 3) \<noteq> 0
      then Some (unat (from_be16 (c ! 2) (c ! 3)) - 1) else None)"
  by (auto simp: pagination_start_def panicfree Let_def unat_minus_one)

lemma pagination_start_no_panic: "pagination_start c \<noteq> Panic"
  by (simp add: pagination_start_eq)

end
