(* ===== verification/Cmc.thy ===== *)
theory Cmc
  imports Req_Resp
begin

text \<open>
  \<open>src/src/protocol/cmc.rs\<close>: the CMC device advertisement.
\<close>

definition OP_ADVERTISEMENT :: u16 where "OP_ADVERTISEMENT = 0x1001"

definition encode_advertisement :: "header \<Rightarrow> u16 \<Rightarrow> bytes \<Rightarrow> bytes \<Rightarrow> u16 \<Rightarrow> bytes" where
  "encode_advertisement req process_id device_id ipv4 info_port =
     (let c = bw_u16 process_id [];
          c = bw_bytes device_id c;
          c = bw_u16 1 c;
          c = bw_u16 0 c;
          c = bw_bytes ipv4 c;
          c = bw_u16 info_port c;
          c = bw_u16 0 c
      in rr_encode_ok req c)"

lemma encode_advertisement_layout:
  "encode_advertisement req pid did ip port =
     rr_encode_ok req (be16 pid @ did @ [0, 1, 0, 0] @ ip @ be16 port @ [0, 0])"
  by (simp add: encode_advertisement_def wire Let_def) (simp add: be16_def)

end
