(* ===== verification/F64.thy ===== *)
theory F64
  imports Complex_Main
begin

text \<open>
  The \<open>f64\<close> arithmetic the clock uses. A finite double is its rational value; every
  operation is the exact one followed by \<open>rn\<close>, the rounding of IEEE 754 to the nearest
  double with 53 significant bits, ties to even, down to the subnormal step \<open>2 ^ -1074\<close>.
  The clock forms no infinity and no NaN (its operands are 64-bit integers and a frequency
  it clamps, its divisors positive), and it never looks at the sign of a zero, so neither
  is represented.

  The main facts: \<open>rn\<close> is monotone and odd, so a bound on the exact result that is itself
  a rounded value bounds the rounded one.
\<close>

section \<open>Powers of two and the binary exponent\<close>

function ilog2 :: "int \<Rightarrow> nat" where
  "ilog2 n = (if n < 2 then 0 else Suc (ilog2 (n div 2)))"
  by pat_completeness auto

termination by (relation "measure nat") auto

declare ilog2.simps [simp del]

definition pow2 :: "int \<Rightarrow> rat" where
  "pow2 e = (if 0 \<le> e then 2 ^ nat e else 1 / 2 ^ nat (- e))"

definition flog2 :: "rat \<Rightarrow> int" where
  \<comment> \<open>the greatest \<open>k\<close> with \<open>2 ^ k \<le> \<bar>x\<bar>\<close>, for \<open>x \<noteq> 0\<close>\<close>
  "flog2 x = (let (n, d) = quotient_of \<bar>x\<bar>;
                  k = int (ilog2 n) - int (ilog2 d)
              in if pow2 k \<le> \<bar>x\<bar> then k else k - 1)"

lemma ilog2_bounds: "0 < n \<Longrightarrow> 2 ^ ilog2 n \<le> n \<and> n < 2 ^ Suc (ilog2 n)"
proof (induction n rule: ilog2.induct)
  case (1 n)
  show ?case
  proof (cases "n < 2")
    case True
    with 1 show ?thesis by (simp add: ilog2.simps[of n])
  next
    case False
    with 1 have "2 ^ ilog2 (n div 2) \<le> n div 2" "n div 2 < 2 ^ Suc (ilog2 (n div 2))" by auto
    with False show ?thesis by (auto simp: ilog2.simps[of n])
  qed
qed

lemma pow2_powi: "pow2 e = 2 powi e"
  by (simp add: pow2_def power_int_def field_simps)

lemma pow2_pos [simp]: "0 < pow2 e" "0 \<le> pow2 e" "pow2 e \<noteq> 0"
  by (simp_all add: pow2_def)

lemma pow2_add: "pow2 (a + b) = pow2 a * pow2 b"
  by (simp add: pow2_powi power_int_add)

lemma pow2_mono: "a \<le> b \<Longrightarrow> pow2 a \<le> pow2 b"
  by (simp add: pow2_powi power_int_increasing)

lemma pow2_less_iff: "pow2 a < pow2 b \<longleftrightarrow> a < b"
proof
  show "pow2 a < pow2 b \<Longrightarrow> a < b" using pow2_mono[of b a] by linarith
  show "a < b \<Longrightarrow> pow2 a < pow2 b"
    unfolding pow2_powi by (rule power_int_strict_increasing) simp_all
qed

lemma pow2_int: "0 \<le> e \<Longrightarrow> pow2 e = of_int (2 ^ nat e)"
  by (simp add: pow2_def)

lemma pow2_Suc: "pow2 (e + 1) = 2 * pow2 e"
  by (simp add: pow2_add) (simp add: pow2_def)

lemma flog2_bounds:
  assumes "x \<noteq> 0"
  shows "pow2 (flog2 x) \<le> \<bar>x\<bar>" "\<bar>x\<bar> < pow2 (flog2 x + 1)"
proof -
  obtain n d where q: "quotient_of \<bar>x\<bar> = (n, d)" by (cases "quotient_of \<bar>x\<bar>")
  have d: "0 < d" using quotient_of_denom_pos[OF q] .
  have x: "\<bar>x\<bar> = of_int n / of_int d" using quotient_of_div[OF q] .
  have "0 < \<bar>x\<bar>" using assms by simp
  then have n: "0 < n" using d unfolding x by (simp add: zero_less_divide_iff)
  define a b where "a = ilog2 n" and "b = ilog2 d"
  have na: "2 ^ a \<le> n" "n < 2 ^ Suc a"
    using ilog2_bounds[OF n] unfolding a_def by simp_all
  have db: "2 ^ b \<le> d" "d < 2 ^ Suc b"
    using ilog2_bounds[OF d] unfolding b_def by simp_all
  define k where "k = int a - int b"
  have pa: "pow2 (int a) = of_int (2 ^ a)" "pow2 (int b) = of_int (2 ^ b)"
    by (simp_all add: pow2_int)
  have up: "\<bar>x\<bar> < pow2 (k + 1)"
  proof -
    have "(of_int n :: rat) < of_int (2 ^ Suc a)" using na(2) of_int_less_iff by blast
    moreover have "(of_int (2 ^ b) :: rat) \<le> of_int d" using db(1) of_int_le_iff by blast
    ultimately have "of_int n / of_int d < (of_int (2 ^ Suc a) / of_int (2 ^ b) :: rat)"
      using n d by (intro frac_less) simp_all
    also have "\<dots> = pow2 (int a + 1) / pow2 (int b)"
      by (simp add: pow2_Suc pa)
    also have "\<dots> = pow2 (k + 1)"
      using pow2_add[of "k + 1" "int b"] by (simp add: k_def field_simps add_ac)
    finally show ?thesis by (simp add: x)
  qed
  have lo: "pow2 (k - 1) \<le> \<bar>x\<bar>"
  proof -
    have "(of_int (2 ^ a) :: rat) \<le> of_int n" using na(1) of_int_le_iff by blast
    moreover have "(of_int d :: rat) \<le> of_int (2 ^ Suc b)" using db(2) of_int_le_iff less_imp_le by blast
    ultimately have "of_int (2 ^ a) / of_int (2 ^ Suc b) \<le> (of_int n / of_int d :: rat)"
      using n d by (intro frac_le) simp_all
    moreover have "of_int (2 ^ a) / of_int (2 ^ Suc b) = pow2 (int a) / pow2 (int b + 1)"
      by (simp add: pow2_Suc pa)
    moreover have "\<dots> = pow2 (k - 1)"
      using pow2_add[of "k - 1" "int b + 1"] by (simp add: k_def field_simps)
    ultimately show ?thesis by (simp add: x)
  qed
  have "flog2 x = (if pow2 k \<le> \<bar>x\<bar> then k else k - 1)"
    by (simp add: flog2_def q k_def a_def b_def)
  then show "pow2 (flog2 x) \<le> \<bar>x\<bar>" "\<bar>x\<bar> < pow2 (flog2 x + 1)"
    using up lo by (auto split: if_splits)
qed

section \<open>Rounding to the nearest integer, ties to even\<close>

definition round_even :: "rat \<Rightarrow> int" where
  "round_even y =
     (let f = \<lfloor>y\<rfloor>; r = y - of_int f
      in if r < 1 / 2 then f else if 1 / 2 < r then f + 1 else if even f then f else f + 1)"

lemma round_even_of_int [simp]: "round_even (of_int n) = n"
  by (simp add: round_even_def Let_def)

lemma round_even_floor: "\<lfloor>y\<rfloor> \<le> round_even y" "round_even y \<le> \<lfloor>y\<rfloor> + 1"
  by (simp_all add: round_even_def Let_def)

lemma round_even_mono:
  assumes "x \<le> y"
  shows "round_even x \<le> round_even y"
proof (cases "\<lfloor>x\<rfloor> = \<lfloor>y\<rfloor>")
  case True
  then have "x - of_int \<lfloor>x\<rfloor> \<le> y - of_int \<lfloor>y\<rfloor>" using assms by simp
  with True show ?thesis by (auto simp: round_even_def Let_def)
next
  case False
  then have "\<lfloor>x\<rfloor> + 1 \<le> \<lfloor>y\<rfloor>" using floor_mono[OF assms] by linarith
  then show ?thesis using round_even_floor[of x] round_even_floor[of y] by linarith
qed

lemma round_even_minus: "round_even (- y) = - round_even y"
proof (cases "y = of_int \<lfloor>y\<rfloor>")
  case True
  then have "round_even (- y) = round_even (of_int (- \<lfloor>y\<rfloor>))" by simp
  also have "\<dots> = - round_even (of_int \<lfloor>y\<rfloor>)" by (simp only: round_even_of_int)
  finally show ?thesis using True by simp
next
  case False
  then have "\<lfloor>- y\<rfloor> = - \<lfloor>y\<rfloor> - 1"
    using floor_correct[of y] by (intro floor_unique) (auto simp: less_le)
  then show ?thesis
    by (auto simp: round_even_def Let_def)
qed

lemma round_even_error: "\<bar>of_int (round_even y) - y\<bar> \<le> 1 / 2"
  unfolding round_even_def Let_def
  using of_int_floor_le[of y] floor_less_iff[of y "\<lfloor>y\<rfloor> + 1"]
  by (auto simp: abs_le_iff)

section \<open>Rounding to a double\<close>

definition f64_exp :: "rat \<Rightarrow> int" where
  \<comment> \<open>the exponent of the last bit of the doubles around \<open>x\<close>\<close>
  "f64_exp x = max (flog2 x - 52) (- 1074)"

definition rn :: "rat \<Rightarrow> rat" where
  "rn x = of_int (round_even (x / pow2 (f64_exp x))) * pow2 (f64_exp x)"

lemma rn_0 [simp]: "rn 0 = 0"
  by (simp add: rn_def round_even_def)

lemma flog2_minus [simp]: "flog2 (- x) = flog2 x"
  by (simp add: flog2_def)

lemma rn_minus: "rn (- x) = - rn x"
  using round_even_minus[of "x / pow2 (f64_exp x)"] by (simp add: rn_def f64_exp_def)

lemma flog2_mono:
  assumes "x \<noteq> 0" "\<bar>x\<bar> \<le> \<bar>y\<bar>"
  shows "flog2 x \<le> flog2 y"
proof -
  have "pow2 (flog2 x) < pow2 (flog2 y + 1)"
    using flog2_bounds(1)[of x] flog2_bounds(2)[of y] assms by fastforce
  then show ?thesis by (simp add: pow2_less_iff)
qed

lemma rn_le_grid: "x \<le> of_int m * pow2 (f64_exp x) \<Longrightarrow> rn x \<le> of_int m * pow2 (f64_exp x)"
  using round_even_mono[of "x / pow2 (f64_exp x)" "of_int m"]
  by (simp add: rn_def divide_le_eq)

lemma rn_ge_grid: "of_int m * pow2 (f64_exp x) \<le> x \<Longrightarrow> of_int m * pow2 (f64_exp x) \<le> rn x"
  using round_even_mono[of "of_int m" "x / pow2 (f64_exp x)"]
  by (simp add: rn_def le_divide_eq)

lemma pow2_on_grid:
  assumes "e \<le> k" shows "\<exists>m. pow2 k = of_int m * pow2 e"
proof -
  have "pow2 k = pow2 (k - e) * pow2 e" using pow2_add[of "k - e" e] by simp
  then show ?thesis using assms pow2_int[of "k - e"] by auto
qed

lemma rn_pos_mono:
  assumes "0 < x" "x \<le> y"
  shows "rn x \<le> rn y"
proof (cases "f64_exp x = f64_exp y")
  case True
  have "x / pow2 (f64_exp x) \<le> y / pow2 (f64_exp x)" using assms by (simp add: divide_right_mono)
  then have "round_even (x / pow2 (f64_exp x)) \<le> round_even (y / pow2 (f64_exp x))"
    by (rule round_even_mono)
  then show ?thesis by (simp add: rn_def flip: True)
next
  case False
  have "flog2 x \<le> flog2 y" using flog2_mono[of x y] assms by simp
  with False have l: "flog2 x < flog2 y" "f64_exp x \<le> flog2 y" "f64_exp y \<le> flog2 y"
    by (auto simp: f64_exp_def max_def split: if_splits)
  have "\<bar>x\<bar> < pow2 (flog2 x + 1)" using flog2_bounds(2)[of x] assms by simp
  also have "\<dots> \<le> pow2 (flog2 y)" using l by (intro pow2_mono) simp
  finally have x: "x \<le> pow2 (flog2 y)" by simp
  have y: "pow2 (flog2 y) \<le> y" using flog2_bounds(1)[of y] assms by simp
  obtain m n where mn: "pow2 (flog2 y) = of_int m * pow2 (f64_exp x)"
      "pow2 (flog2 y) = of_int n * pow2 (f64_exp y)"
    using pow2_on_grid[OF l(2)] pow2_on_grid[OF l(3)] by blast
  show ?thesis using rn_le_grid[of x m] rn_ge_grid[of n y] x y mn by simp
qed

lemma rn_nonneg: "0 \<le> x \<Longrightarrow> 0 \<le> rn x"
  using rn_ge_grid[of 0 x] by simp

lemma rn_mono:
  assumes "x \<le> y"
  shows "rn x \<le> rn y"
proof -
  consider "0 < x" | "y < 0" | "x \<le> 0" "0 \<le> y" by linarith
  then show ?thesis
  proof cases
    case 1 then show ?thesis using assms by (rule rn_pos_mono)
  next
    case 2 then show ?thesis using rn_pos_mono[of "- y" "- x"] assms by (simp add: rn_minus)
  next
    case 3
    then show ?thesis using rn_nonneg[of y] rn_nonneg[of "- x"] by (simp add: rn_minus)
  qed
qed

text \<open>A bound that is a double bounds the rounded value as well.\<close>

lemma rn_abs_le: "rn b = b \<Longrightarrow> \<bar>x\<bar> \<le> b \<Longrightarrow> \<bar>rn x\<bar> \<le> b"
  using rn_mono[of x b] rn_mono[of "- b" x] by (simp add: rn_minus abs_le_iff)

text \<open>The integers of up to 53 bits are doubles, as are their multiples by a power of two.\<close>

lemma rn_exact:
  assumes "\<bar>m\<bar> < 2 ^ 53" "- 1074 \<le> e"
  shows "rn (of_int m * pow2 e) = of_int m * pow2 e"
proof (cases "m = 0")
  case False
  define z where "z = of_int m * pow2 e"
  have z: "z \<noteq> 0" using False by (simp add: z_def)
  have "\<bar>z\<bar> < pow2 53 * pow2 e"
  proof -
    have "(of_int \<bar>m\<bar> :: rat) < of_int (2 ^ 53)" using assms(1) of_int_less_iff by blast
    then have "of_int \<bar>m\<bar> * pow2 e < 2 ^ 53 * pow2 e" by (intro mult_strict_right_mono) simp_all
    then show ?thesis by (simp add: z_def abs_mult) (simp add: pow2_def[of 53])
  qed
  then have "pow2 (flog2 z) < pow2 (53 + e)"
    using flog2_bounds(1)[OF z] by (simp add: pow2_add)
  then have "f64_exp z \<le> e" using assms(2) by (simp add: pow2_less_iff f64_exp_def)
  from pow2_on_grid[OF this] obtain k where "pow2 e = of_int k * pow2 (f64_exp z)" ..
  then have "z = of_int (m * k) * pow2 (f64_exp z)" unfolding z_def by simp
  then have "z / pow2 (f64_exp z) = of_int (m * k)" by (simp add: nonzero_divide_eq_eq)
  then show ?thesis
    unfolding z_def[symmetric] rn_def
    by (metis nonzero_divide_eq_eq pow2_pos(3) round_even_of_int)
qed simp

lemma rn_of_int: "\<bar>m\<bar> < 2 ^ 53 \<Longrightarrow> rn (of_int m) = of_int m"
  using rn_exact[of m 0] by (simp add: pow2_def)

lemma rn_error: "\<bar>rn x - x\<bar> \<le> pow2 (f64_exp x) / 2"
proof -
  let ?p = "pow2 (f64_exp x)"
  have "rn x - x = (of_int (round_even (x / ?p)) - x / ?p) * ?p" by (simp add: rn_def algebra_simps)
  then have "\<bar>rn x - x\<bar> = \<bar>of_int (round_even (x / ?p)) - x / ?p\<bar> * ?p" by (simp add: abs_mult)
  also have "\<dots> \<le> 1 / 2 * ?p" using round_even_error by (intro mult_right_mono) simp_all
  finally show ?thesis by simp
qed

lemma rn_error_below:
  assumes "\<bar>x\<bar> < pow2 k" "- 1021 \<le> k"
  shows "\<bar>rn x - x\<bar> \<le> pow2 (k - 54)"
proof (cases "x = 0")
  case False
  have "pow2 (flog2 x) < pow2 k" using flog2_bounds(1)[OF False] assms(1) by linarith
  then have "f64_exp x \<le> k - 54 + 1" using assms(2) by (simp add: pow2_less_iff f64_exp_def)
  then have "pow2 (f64_exp x) \<le> 2 * pow2 (k - 54)" using pow2_mono pow2_Suc by metis
  then show ?thesis using rn_error[of x] by simp
qed simp

text \<open>A rounded value is computed from its binade.\<close>

lemma flog2_eqI:
  assumes "pow2 k \<le> \<bar>x\<bar>" "\<bar>x\<bar> < pow2 (k + 1)"
  shows "flog2 x = k"
proof -
  have x: "x \<noteq> 0" using assms(1) pow2_pos(1)[of k] by force
  have "pow2 (flog2 x) < pow2 (k + 1)" "pow2 k < pow2 (flog2 x + 1)"
    using flog2_bounds[OF x] assms by linarith+
  then show ?thesis by (simp add: pow2_less_iff)
qed

lemma rn_eval:
  assumes "pow2 k \<le> \<bar>x\<bar>" "\<bar>x\<bar> < pow2 (k + 1)" "- 1022 \<le> k"
  shows "rn x = of_int (round_even (x / pow2 (k - 52))) * pow2 (k - 52)"
  using flog2_eqI[OF assms(1,2)] assms(3) by (simp add: rn_def f64_exp_def)

end
