(* ===== verification/Overlay.thy ===== *)
theory Overlay
  imports Prelude F64
begin

text \<open>
  The overlay clock of \<open>src/clock/overlay.rs\<close>: a local monotonic clock steered to the
  transmitter's time by pairs (\<open>t1\<close> the master's time, \<open>t2\<close> the local time of arrival).

  The record has the atomics of the struct; \<open>observe\<close> and \<open>mark_unlocked_if_stale\<close> are its
  transitions, here taken one at a time (the interleaving of their single stores with
  readers is the matter of theory \<open>Seqlock\<close>). Times are 64-bit words, read as \<open>u64\<close> or
  as \<open>i64\<close> (\<open>sint\<close>) where the code casts; the frequency is a double (theory \<open>F64\<close>).
\<close>

section \<open>Casts and the operations of \<open>i64\<close>\<close>

definition f64_of_i64 :: "u64 \<Rightarrow> rat" where
  "f64_of_i64 w = rn (of_int (sint w))"

definition trunc :: "rat \<Rightarrow> int" where
  "trunc x = (if 0 \<le> x then \<lfloor>x\<rfloor> else - \<lfloor>- x\<rfloor>)"

definition sat :: "nat \<Rightarrow> int \<Rightarrow> int" where
  "sat n i = max (- (2 ^ (n - 1))) (min (2 ^ (n - 1) - 1) i)"

definition i64_of_f64 :: "rat \<Rightarrow> u64" where
  \<comment> \<open>\<open>as i64\<close> truncates towards zero and saturates\<close>
  "i64_of_f64 x = word_of_int (sat 64 (trunc x))"

definition i64_abs :: "u64 \<Rightarrow> u64" where
  "i64_abs w = (if sint w < 0 then - w else w)"

definition i64_clamp :: "u64 \<Rightarrow> int \<Rightarrow> u64" where
  \<comment> \<open>\<open>w.clamp(-m, m)\<close>\<close>
  "i64_clamp w m = (if sint w < - m then word_of_int (- m) else if m < sint w then word_of_int m else w)"

section \<open>Constants and state\<close>

definition ALPHA :: rat where "ALPHA = 1 / 8"
definition MAX_PPM :: rat where "MAX_PPM = rn (500 / 1000000)"
definition OUTLIER_NS :: int where "OUTLIER_NS = 200000000"
definition SLEW_ACQUIRE_NS :: int where "SLEW_ACQUIRE_NS = 1000000"
definition SLEW_LOCK_NS :: int where "SLEW_LOCK_NS = 50000"
definition LOCK_ERR_NS :: int where "LOCK_ERR_NS = 100000"
definition UNLOCK_ERR_NS :: int where "UNLOCK_ERR_NS = 1000000"
definition MEDIA_DECIMATE_NS :: u64 where "MEDIA_DECIMATE_NS = 125000000"

lemmas clock_consts = OUTLIER_NS_def SLEW_ACQUIRE_NS_def SLEW_LOCK_NS_def LOCK_ERR_NS_def
  UNLOCK_ERR_NS_def

datatype clock_status = Unlocked | MediaDriven | PtpLocked

datatype source = Ptp | Media

definition SRC_NONE :: u8 where "SRC_NONE = 0"
definition SRC_MEDIA :: u8 where "SRC_MEDIA = 1"
definition SRC_PTP :: u8 where "SRC_PTP = 2"

lemmas src_defs = SRC_NONE_def SRC_MEDIA_def SRC_PTP_def

record overlay_clock =
  seq :: u64
  last_sync :: u64
  shift :: u64
  freq_scale :: rat
  last_master :: u64
  lock_streak :: u32
  acquiring :: bool
  clock_source :: u8
  last_media_t2 :: u64
  initialized :: bool

definition clock_new :: overlay_clock where
  "clock_new =
     \<lparr> seq = 0, last_sync = 0, shift = 0, freq_scale = 0, last_master = 0, lock_streak = 0,
       acquiring = True, clock_source = SRC_NONE, last_media_t2 = 0, initialized = False \<rparr>"

section \<open>Operations\<close>

definition overlay_at :: "u64 \<Rightarrow> u64 \<Rightarrow> u64 \<Rightarrow> rat \<Rightarrow> u64" where
  "overlay_at lcl sync shft freq =
     (let elapsed = lcl - sync;
          corr = i64_of_f64 (rn (f64_of_i64 elapsed * freq))
      in lcl + shft + corr)"

text \<open>\<open>now_ns\<close>, with the value of the local clock an argument and the snapshot consistent.\<close>

definition now_ns :: "overlay_clock \<Rightarrow> u64 \<Rightarrow> u64" where
  "now_ns c lcl =
     (if \<not> initialized c then lcl
      else overlay_at lcl (last_sync c) (shift c) (freq_scale c))"

definition freq_scale_ppb :: "overlay_clock \<Rightarrow> u32" where
  "freq_scale_ppb c = word_of_int (sat 32 (trunc (rn (freq_scale c * 1000000000))))"

definition status :: "overlay_clock \<Rightarrow> clock_status" where
  "status c =
     (if clock_source c = SRC_PTP \<and> 4 \<le> lock_streak c then PtpLocked
      else if clock_source c = SRC_PTP \<or> clock_source c = SRC_MEDIA then MediaDriven
      else Unlocked)"

definition set_source :: "source \<Rightarrow> overlay_clock \<Rightarrow> overlay_clock" where
  "set_source s c = c\<lparr>clock_source := (case s of Ptp \<Rightarrow> SRC_PTP | Media \<Rightarrow> SRC_MEDIA)\<rparr>"

definition publish :: "u64 \<Rightarrow> u64 \<Rightarrow> rat \<Rightarrow> overlay_clock \<Rightarrow> overlay_clock" where
  "publish sync shft freq c =
     c\<lparr>seq := seq c + 1 + 1, last_sync := sync, shift := shft, freq_scale := freq\<rparr>"

text \<open>The new frequency: the clamped rate of the last interval, smoothed.\<close>

definition raw_rate :: "u64 \<Rightarrow> u64 \<Rightarrow> rat" where
  "raw_rate master_dt local_dt =
     (let raw = rn (rn (f64_of_i64 master_dt / f64_of_i64 local_dt) - 1)
      in max (- MAX_PPM) (min MAX_PPM raw))"

definition smooth :: "rat \<Rightarrow> rat \<Rightarrow> rat" where
  "smooth freq raw = rn (rn (rn (1 - ALPHA) * freq) + rn (ALPHA * raw))"

text \<open>The part of \<open>observe\<close> before the first synchronisation, and the part after it.\<close>

definition first_sync :: "u64 \<Rightarrow> u64 \<Rightarrow> source \<Rightarrow> overlay_clock \<Rightarrow> overlay_clock" where
  "first_sync t1 t2 s c =
     set_source s ((publish t2 (t1 - t2) 0 c)
       \<lparr>last_master := t1, initialized := True, acquiring := True\<rparr>)"

definition prediction :: "overlay_clock \<Rightarrow> u64 \<Rightarrow> u64" where
  "prediction c t2 = overlay_at t2 (last_sync c) (shift c) (freq_scale c)"

definition rate_ok :: "overlay_clock \<Rightarrow> u64 \<Rightarrow> u64 \<Rightarrow> bool" where
  "rate_ok c t1 t2 =
     (let local_dt = t2 - last_sync c; master_dt = t1 - last_master c
      in if sint local_dt \<le> 0 \<or> sint master_dt \<le> 0 then False
         else if \<not> (200000000 \<le> sint local_dt \<and> sint local_dt \<le> 4000000000) then False
         else \<not> 50000000 < sint (i64_abs (master_dt - local_dt)))"

definition track_lock :: "u64 \<Rightarrow> overlay_clock \<Rightarrow> overlay_clock" where
  "track_lock error c =
     (if sint (i64_abs error) < LOCK_ERR_NS then
        (let n = lock_streak c + 1
         in c\<lparr>lock_streak := n, acquiring := (if 4 \<le> n then False else acquiring c)\<rparr>)
      else if UNLOCK_ERR_NS < sint (i64_abs error) then c\<lparr>lock_streak := 0, acquiring := True\<rparr>
      else c)"

definition steer :: "u64 \<Rightarrow> u64 \<Rightarrow> source \<Rightarrow> overlay_clock \<Rightarrow> overlay_clock" where
  "steer t1 t2 s c =
     (if \<not> rate_ok c t1 t2 then c
      else
        (let freq = smooth (freq_scale c) (raw_rate (t1 - last_master c) (t2 - last_sync c));
             pred = prediction c t2;
             error = t1 - pred
         in if OUTLIER_NS < sint (i64_abs error) then c
            else
              (let max_step = (if acquiring c then SLEW_ACQUIRE_NS else SLEW_LOCK_NS);
                   applied = i64_clamp error max_step;
                   new_at_t2 = pred + applied;
                   new_shift = new_at_t2 - t2
               in set_source s (track_lock error ((publish t2 new_shift freq c)\<lparr>last_master := t1\<rparr>)))))"

definition observe :: "u64 \<Rightarrow> u64 \<Rightarrow> source \<Rightarrow> overlay_clock \<Rightarrow> overlay_clock" where
  "observe t1 t2 s c =
     (if s = Media \<and> t2 - last_media_t2 c < MEDIA_DECIMATE_NS \<and> last_media_t2 c \<noteq> 0 then c
      else
        (let c1 = (if s = Media then c\<lparr>last_media_t2 := t2\<rparr> else c)
         in if s = Media \<and> status c1 = PtpLocked then c1
            else if \<not> initialized c1 then first_sync t1 t2 s c1
            else steer t1 t2 s c1))"

definition mark_unlocked_if_stale :: "u64 \<Rightarrow> u64 \<Rightarrow> overlay_clock \<Rightarrow> overlay_clock" where
  "mark_unlocked_if_stale lcl idle_ns c =
     (if status c = PtpLocked then c
      else if last_media_t2 c \<noteq> 0 \<and> idle_ns < lcl - last_media_t2 c
      then c\<lparr>clock_source := SRC_NONE, lock_streak := 0\<rparr>
      else c)"

datatype clock_event =
    Observe u64 u64 source
  | MarkStale u64 u64

fun clock_step :: "overlay_clock \<Rightarrow> clock_event \<Rightarrow> overlay_clock" where
  "clock_step c (Observe t1 t2 s) = observe t1 t2 s c"
| "clock_step c (MarkStale lcl idle) = mark_unlocked_if_stale lcl idle c"

definition clock_run :: "overlay_clock \<Rightarrow> clock_event list \<Rightarrow> overlay_clock" where
  "clock_run = foldl clock_step"

section \<open>Arithmetic\<close>

lemma trunc_bounds: "\<bar>x\<bar> \<le> of_int n \<Longrightarrow> \<bar>trunc x\<bar> \<le> n"
  by (auto simp: trunc_def abs_le_iff le_floor_iff floor_le_iff floor_less_iff)
     (linarith+)?

lemma trunc_mono:
  assumes "x \<le> y"
  shows "trunc x \<le> trunc y"
proof -
  have "\<lfloor>x\<rfloor> \<le> \<lfloor>y\<rfloor>" "\<lfloor>- y\<rfloor> \<le> \<lfloor>- x\<rfloor>" using assms by (simp_all add: floor_mono)
  moreover have "x < 0 \<Longrightarrow> 0 \<le> y \<Longrightarrow> - \<lfloor>- x\<rfloor> \<le> \<lfloor>y\<rfloor>"
    using zero_le_floor[of y] zero_le_floor[of "- x"] by linarith
  ultimately show ?thesis using assms by (auto simp: trunc_def)
qed

lemma sint_i64_of_f64: "\<bar>x\<bar> \<le> of_int n \<Longrightarrow> n < 2 ^ 63 \<Longrightarrow> sint (i64_of_f64 x) = trunc x"
  using trunc_bounds[of x n] unfolding i64_of_f64_def
  by (intro sint_eqI) (auto simp: sat_def)

lemma f64_of_i64_exact: "\<bar>sint w\<bar> < 2 ^ 53 \<Longrightarrow> f64_of_i64 w = of_int (sint w)"
  unfolding f64_of_i64_def by (rule rn_of_int)

lemma sint_i64_abs: "- (2 ^ 63) < sint w \<Longrightarrow> sint (i64_abs w) = \<bar>sint w\<bar>"
  unfolding i64_abs_def using sint_range64(2)[of w]
  by (auto intro!: sint_eqI simp: wi_hom_neg[symmetric])

lemma sint_i64_clamp:
  "0 \<le> m \<Longrightarrow> m < 2 ^ 63 \<Longrightarrow> sint (i64_clamp w m) = max (- m) (min m (sint w))"
  using sint_range64[of w] by (auto simp: i64_clamp_def intro!: sint_eqI)

section \<open>The frequency\<close>

lemma MAX_PPM_value: "MAX_PPM = 1152921504606847 / 2305843009213693952"
  by code_simp

lemma MAX_PPM_pos [simp]: "0 < MAX_PPM" "0 \<le> MAX_PPM"
  by (simp_all add: MAX_PPM_value)

lemma smooth_max: "smooth MAX_PPM MAX_PPM = MAX_PPM"
  by code_simp

lemma smooth_0: "smooth 0 0 = 0"
  by (simp add: smooth_def)

lemma smooth_mono: "f \<le> f' \<Longrightarrow> r \<le> r' \<Longrightarrow> smooth f r \<le> smooth f' r'"
  unfolding smooth_def by (intro rn_mono add_mono mult_left_mono rn_nonneg) (simp_all add: ALPHA_def)

lemma smooth_minus: "smooth (- f) (- r) = - smooth f r"
proof -
  have "smooth (- f) (- r) = rn (- (rn (rn (1 - ALPHA) * f) + rn (ALPHA * r)))"
    by (simp add: smooth_def rn_minus)
  then show ?thesis by (simp only: smooth_def rn_minus)
qed

text \<open>
  The bound that keeps the frequency inside the clamp: the smoothing is monotone and maps
  the clamp to itself, rounding included.
\<close>

lemma smooth_bounded:
  assumes "\<bar>f\<bar> \<le> MAX_PPM" "\<bar>r\<bar> \<le> MAX_PPM"
  shows "\<bar>smooth f r\<bar> \<le> MAX_PPM"
  using smooth_mono[of f MAX_PPM r MAX_PPM] smooth_mono[of "- MAX_PPM" f "- MAX_PPM" r] assms
  by (simp add: smooth_max smooth_minus abs_le_iff)

lemma raw_rate_bounded: "\<bar>raw_rate m l\<bar> \<le> MAX_PPM"
proof -
  have "- MAX_PPM \<le> MAX_PPM" by (simp add: MAX_PPM_value)
  then show ?thesis by (auto simp: raw_rate_def Let_def abs_le_iff)
qed

text \<open>The frequency correction over at most 4 s is at most 2 ms.\<close>

lemma corr_max: "rn (4000000000 * MAX_PPM) = 2000000"
  by code_simp

definition correction :: "u64 \<Rightarrow> rat \<Rightarrow> u64" where
  "correction elapsed freq = i64_of_f64 (rn (f64_of_i64 elapsed * freq))"

lemma overlay_at_eq: "overlay_at lcl sync shft freq = lcl + shft + correction (lcl - sync) freq"
  by (simp add: overlay_at_def correction_def)

lemma correction_bounded:
  assumes "0 \<le> sint e" "sint e \<le> 4000000000" "\<bar>f\<bar> \<le> MAX_PPM"
  shows "\<bar>sint (correction e f)\<bar> \<le> 2000000"
proof -
  have "\<bar>of_int (sint e) * f\<bar> = of_int \<bar>sint e\<bar> * \<bar>f\<bar>" by (simp only: abs_mult of_int_abs)
  also have "\<dots> \<le> of_int 4000000000 * MAX_PPM"
  proof (intro mult_mono)
    have "\<bar>sint e\<bar> \<le> 4000000000" using assms by simp
    then show "(of_int \<bar>sint e\<bar> :: rat) \<le> of_int 4000000000" by (simp only: of_int_le_iff)
  qed (use assms in simp_all)
  finally have b: "\<bar>of_int (sint e) * f\<bar> \<le> 4000000000 * MAX_PPM" by simp
  have "rn (of_int (sint e) * f) \<le> 2000000" "- 2000000 \<le> rn (of_int (sint e) * f)"
    using b rn_mono[of "of_int (sint e) * f" "4000000000 * MAX_PPM"]
      rn_mono[of "- (4000000000 * MAX_PPM)" "of_int (sint e) * f"]
    by (simp_all add: corr_max rn_minus abs_le_iff)
  then have r: "\<bar>rn (of_int (sint e) * f)\<bar> \<le> of_int 2000000" by simp
  have "f64_of_i64 e = of_int (sint e)" using assms by (intro f64_of_i64_exact) simp
  then have "sint (correction e f) = trunc (rn (of_int (sint e) * f))"
    unfolding correction_def using r by (simp add: sint_i64_of_f64[of _ 2000000])
  then show ?thesis using trunc_bounds[OF r] by simp
qed

section \<open>The invariant of the clock\<close>

text \<open>
  The frequency stays inside the clamp, and at the last accepted observation the overlay
  was at most \<open>OUTLIER_NS\<close> away from the master's time.
\<close>

definition residual :: "overlay_clock \<Rightarrow> u64" where
  "residual c = last_master c - (last_sync c + shift c)"

definition clock_inv :: "overlay_clock \<Rightarrow> bool" where
  "clock_inv c \<longleftrightarrow>
     \<bar>freq_scale c\<bar> \<le> MAX_PPM \<and> (initialized c \<longrightarrow> \<bar>sint (residual c)\<bar> \<le> OUTLIER_NS)"

lemma clock_inv_new: "clock_inv clock_new"
  by (simp add: clock_inv_def clock_new_def)

lemma rate_okD:
  assumes "rate_ok c t1 t2"
  shows "200000000 \<le> sint (t2 - last_sync c)" "sint (t2 - last_sync c) \<le> 4000000000"
    "\<bar>sint (t1 - last_master c) - sint (t2 - last_sync c)\<bar> \<le> 50000000"
proof -
  let ?l = "t2 - last_sync c" and ?m = "t1 - last_master c"
  from assms show l: "200000000 \<le> sint ?l" "sint ?l \<le> 4000000000"
    by (simp_all add: rate_ok_def Let_def split: if_splits)
  have a: "0 < sint ?m" "sint (i64_abs (?m - ?l)) \<le> 50000000"
    using assms by (simp_all add: rate_ok_def Let_def split: if_splits)
  have "sint (?m - ?l) = sint ?m - sint ?l"
    using a(1) l sint_range64(2)[of ?m] by (intro sint_eqI) simp_all
  with a sint_i64_abs[of "?m - ?l"] l sint_range64(2)[of ?m]
  show "\<bar>sint ?m - sint ?l\<bar> \<le> 50000000" by simp
qed

lemma error_eq:
  assumes "clock_inv c" "initialized c" "rate_ok c t1 t2"
  defines "error \<equiv> t1 - prediction c t2"
  shows "sint error = (sint (t1 - last_master c) - sint (t2 - last_sync c))
           + sint (residual c) - sint (correction (t2 - last_sync c) (freq_scale c))"
    and "\<bar>sint error\<bar> \<le> 252000000"
proof -
  let ?l = "t2 - last_sync c" and ?m = "t1 - last_master c"
  let ?k = "correction ?l (freq_scale c)"
  note r = rate_okD[OF assms(3)]
  have res: "\<bar>sint (residual c)\<bar> \<le> 200000000"
    using assms(1,2) by (simp add: clock_inv_def OUTLIER_NS_def)
  have k: "\<bar>sint ?k\<bar> \<le> 2000000"
    using r assms(1) by (intro correction_bounded) (simp_all add: clock_inv_def)
  let ?e = "(sint ?m - sint ?l) + sint (residual c) - sint ?k"
  have b: "\<bar>?e\<bar> \<le> 252000000" using r(3) res k by linarith
  have "error = word_of_int ?e"
    by (simp add: error_def prediction_def overlay_at_eq residual_def)
  then show e: "sint error = ?e" using b by (intro sint_eqI) simp_all
  show "\<bar>sint error\<bar> \<le> 252000000" using e b by simp
qed

lemma set_source_simps [simp]:
  "seq (set_source s c) = seq c" "last_sync (set_source s c) = last_sync c"
  "shift (set_source s c) = shift c" "freq_scale (set_source s c) = freq_scale c"
  "last_master (set_source s c) = last_master c" "initialized (set_source s c) = initialized c"
  "lock_streak (set_source s c) = lock_streak c" "acquiring (set_source s c) = acquiring c"
  "last_media_t2 (set_source s c) = last_media_t2 c"
  by (simp_all add: set_source_def)

lemma track_lock_simps [simp]:
  "seq (track_lock e c) = seq c" "last_sync (track_lock e c) = last_sync c"
  "shift (track_lock e c) = shift c" "freq_scale (track_lock e c) = freq_scale c"
  "last_master (track_lock e c) = last_master c" "initialized (track_lock e c) = initialized c"
  "last_media_t2 (track_lock e c) = last_media_t2 c" "clock_source (track_lock e c) = clock_source c"
  by (simp_all add: track_lock_def Let_def)

lemma publish_simps [simp]:
  "last_sync (publish y z f c) = y" "shift (publish y z f c) = z" "freq_scale (publish y z f c) = f"
  "last_master (publish y z f c) = last_master c" "initialized (publish y z f c) = initialized c"
  "lock_streak (publish y z f c) = lock_streak c" "acquiring (publish y z f c) = acquiring c"
  "last_media_t2 (publish y z f c) = last_media_t2 c" "clock_source (publish y z f c) = clock_source c"
  by (simp_all add: publish_def)

text \<open>The accepted observation, in terms of its error.\<close>

definition max_step :: "overlay_clock \<Rightarrow> int" where
  "max_step c = (if acquiring c then SLEW_ACQUIRE_NS else SLEW_LOCK_NS)"

definition accepts :: "overlay_clock \<Rightarrow> u64 \<Rightarrow> u64 \<Rightarrow> bool" where
  "accepts c t1 t2 \<longleftrightarrow>
     rate_ok c t1 t2 \<and> \<not> OUTLIER_NS < sint (i64_abs (t1 - prediction c t2))"

lemma steer_rejected: "\<not> accepts c t1 t2 \<Longrightarrow> steer t1 t2 s c = c"
  by (auto simp: steer_def accepts_def Let_def)

lemma steer_accepted:
  assumes "accepts c t1 t2"
  shows "last_sync (steer t1 t2 s c) = t2" "last_master (steer t1 t2 s c) = t1"
    "initialized (steer t1 t2 s c) = initialized c"
    "shift (steer t1 t2 s c) =
       prediction c t2 + i64_clamp (t1 - prediction c t2) (max_step c) - t2"
    "freq_scale (steer t1 t2 s c) =
       smooth (freq_scale c) (raw_rate (t1 - last_master c) (t2 - last_sync c))"
  using assms by (simp_all add: accepts_def steer_def max_step_def Let_def)

lemma max_step_bounds: "0 < max_step c" "max_step c \<le> 1000000"
  by (simp_all add: max_step_def SLEW_ACQUIRE_NS_def SLEW_LOCK_NS_def)

lemma accepted_error:
  assumes "clock_inv c" "initialized c" "accepts c t1 t2"
  shows "\<bar>sint (t1 - prediction c t2)\<bar> \<le> OUTLIER_NS"
proof -
  have "\<bar>sint (t1 - prediction c t2)\<bar> \<le> 252000000"
    using assms by (intro error_eq) (auto simp: accepts_def)
  then have "sint (i64_abs (t1 - prediction c t2)) = \<bar>sint (t1 - prediction c t2)\<bar>"
    by (intro sint_i64_abs) simp
  then show ?thesis using assms(3) by (simp add: accepts_def)
qed

lemma residual_accepted:
  assumes "clock_inv c" "initialized c" "accepts c t1 t2"
  shows "sint (residual (steer t1 t2 s c)) =
           sint (t1 - prediction c t2)
           - max (- max_step c) (min (max_step c) (sint (t1 - prediction c t2)))"
proof -
  let ?e = "t1 - prediction c t2"
  have c: "sint (i64_clamp ?e (max_step c)) = max (- max_step c) (min (max_step c) (sint ?e))"
    using max_step_bounds[of c] by (intro sint_i64_clamp) simp_all
  have "residual (steer t1 t2 s c) = ?e - i64_clamp ?e (max_step c)"
    by (simp add: residual_def steer_accepted[OF assms(3)])
  moreover have "\<bar>sint ?e - sint (i64_clamp ?e (max_step c))\<bar> \<le> 201000000"
    using c accepted_error[OF assms] max_step_bounds[of c] by (auto simp: OUTLIER_NS_def)
  ultimately show ?thesis
    unfolding c[symmetric] by (simp add: sint_diff)
qed

lemma clock_inv_steer:
  assumes "clock_inv c" "initialized c"
  shows "clock_inv (steer t1 t2 s c)"
proof (cases "accepts c t1 t2")
  case True
  have "\<bar>sint (residual (steer t1 t2 s c))\<bar> \<le> OUTLIER_NS"
    using residual_accepted[OF assms True, of s] accepted_error[OF assms True] max_step_bounds[of c]
    by (auto simp: OUTLIER_NS_def)
  then show ?thesis
    using assms by (simp add: clock_inv_def steer_accepted[OF True] smooth_bounded raw_rate_bounded)
qed (simp add: steer_rejected assms)

lemma first_sync_simps [simp]:
  "last_sync (first_sync t1 t2 s c) = t2" "shift (first_sync t1 t2 s c) = t1 - t2"
  "freq_scale (first_sync t1 t2 s c) = 0" "last_master (first_sync t1 t2 s c) = t1"
  "initialized (first_sync t1 t2 s c)" "acquiring (first_sync t1 t2 s c)"
  by (simp_all add: first_sync_def)

lemma clock_inv_media [simp]: "clock_inv (c\<lparr>last_media_t2 := t\<rparr>) = clock_inv c"
  by (simp add: clock_inv_def residual_def)

lemma clock_inv_observe: "clock_inv c \<Longrightarrow> clock_inv (observe t1 t2 s c)"
  by (auto simp: observe_def Let_def clock_inv_steer)
     (simp_all add: clock_inv_def residual_def OUTLIER_NS_def)

lemma clock_inv_stale: "clock_inv c \<Longrightarrow> clock_inv (mark_unlocked_if_stale lcl idle c)"
  by (simp add: mark_unlocked_if_stale_def clock_inv_def residual_def)

interpretation clock: machine clock_step "\<lambda>_. True" clock_inv
proof
  fix c e
  show "clock_inv c \<Longrightarrow> clock_inv (clock_step c e)"
    by (cases e) (simp_all add: clock_inv_observe clock_inv_stale)
qed

lemma clock_inv_run: "clock_inv (clock_run clock_new es)"
  using clock.run_inv[OF clock_inv_new] by (simp add: clock_run_def list_all_iff)

section \<open>What the clock guarantees\<close>

text \<open>
  C30: whatever observations arrive, from PTP or from media, in any order and with any
  times, the frequency of the overlay stays within 500 ppm, and once synchronised the
  overlay was within 200 ms of the master's time at the last accepted observation.
\<close>

theorem clock_frequency_and_error_bounded:
  "\<bar>freq_scale (clock_run clock_new es)\<bar> \<le> MAX_PPM \<and>
   (initialized (clock_run clock_new es) \<longrightarrow> \<bar>sint (residual (clock_run clock_new es))\<bar> \<le> OUTLIER_NS)"
  using clock_inv_run[of es] by (simp add: clock_inv_def)

theorem clock_frequency_and_error_bounded_witness:
  "\<bar>sint (residual (clock_run clock_new
      [Observe 5000000000 1000000000 Ptp, Observe 5251300000 1250000000 Ptp]))\<bar> \<le> OUTLIER_NS"
proof -
  let ?es = "[Observe 5000000000 1000000000 Ptp, Observe 5251300000 1250000000 Ptp]"
  have "initialized (clock_run clock_new ?es)" by code_simp
  then show ?thesis using clock_frequency_and_error_bounded[of ?es] by blast
qed

lemma correction_0 [simp]: "correction 0 f = 0"
  by (simp add: correction_def f64_of_i64_def i64_of_f64_def trunc_def sat_def)

lemma observe_ptp: "initialized c \<Longrightarrow> observe t1 t2 Ptp c = steer t1 t2 Ptp c"
  by (simp add: observe_def)

text \<open>
  C11: of a PTP observation whose rate is plausible, the error (the master's time minus
  the overlay's) never exceeds 252 ms, so the signed arithmetic does not overflow. More
  than 200 ms changes nothing. Otherwise the overlay's time at the observation moves by
  the error, limited to the step of 1 ms while acquiring and 50 microseconds once locked.
\<close>

theorem plausible_observation_slews:
  assumes "c = clock_run clock_new es" "initialized c" "rate_ok c t1 t2"
  shows "\<bar>sint (t1 - now_ns c t2)\<bar> \<le> 252000000 \<and>
         (if OUTLIER_NS < \<bar>sint (t1 - now_ns c t2)\<bar> then observe t1 t2 Ptp c = c
          else sint (now_ns (observe t1 t2 Ptp c) t2 - now_ns c t2) =
                 max (- max_step c) (min (max_step c) (sint (t1 - now_ns c t2))))"
proof -
  have inv: "clock_inv c" using clock_inv_run assms(1) by simp
  have old: "now_ns c t2 = prediction c t2" using assms(2) by (simp add: now_ns_def prediction_def)
  note e = error_eq(2)[OF inv assms(2,3), folded old]
  then have "sint (i64_abs (t1 - now_ns c t2)) = \<bar>sint (t1 - now_ns c t2)\<bar>"
    by (intro sint_i64_abs) simp
  then have acc: "accepts c t1 t2 \<longleftrightarrow> \<not> OUTLIER_NS < \<bar>sint (t1 - now_ns c t2)\<bar>"
    using assms(3) by (simp add: accepts_def old)
  have "sint (now_ns (steer t1 t2 Ptp c) t2 - now_ns c t2) =
      max (- max_step c) (min (max_step c) (sint (t1 - now_ns c t2)))" if a: "accepts c t1 t2"
  proof -
    have "now_ns (steer t1 t2 Ptp c) t2 =
        prediction c t2 + i64_clamp (t1 - prediction c t2) (max_step c)"
      using assms(2) by (simp add: now_ns_def overlay_at_eq steer_accepted[OF a])
    then show ?thesis using max_step_bounds[of c] by (simp add: old sint_i64_clamp)
  qed
  with e acc show ?thesis
    by (simp add: observe_ptp[OF assms(2)] steer_rejected)
qed

theorem plausible_observation_slews_witness:
  "sint (now_ns (clock_run clock_new [Observe 5000000000 1000000000 Ptp, Observe 5251300000 1250000000 Ptp])
           1250000000 - 5250000000) = 1000000"
proof -
  let ?c = "clock_run clock_new [Observe 5000000000 1000000000 Ptp]"
  have h: "initialized ?c" "rate_ok ?c 5251300000 1250000000" by code_simp+
  have "max_step ?c = 1000000" "now_ns ?c 1250000000 = 5250000000" by code_simp+
  with plausible_observation_slews[OF refl h] show ?thesis
    by (simp add: OUTLIER_NS_def clock_run_def)
qed

text \<open>
  The first observation, from either source, sets the overlay exactly: at the local
  time of the observation it reads the master's time, and with frequency zero it keeps
  that offset until the next accepted one.
\<close>

theorem first_observation_exact:
  assumes "\<not> initialized c" "s = Media \<longrightarrow> last_media_t2 c = 0 \<and> status c \<noteq> PtpLocked"
  shows "now_ns (observe t1 t2 s c) t2 = t1 \<and> now_ns (observe t1 t2 s c) (t2 + d) = t1 + d \<and>
         initialized (observe t1 t2 s c)"
proof -
  have "observe t1 t2 s c = first_sync t1 t2 s (if s = Media then c\<lparr>last_media_t2 := t2\<rparr> else c)"
    using assms by (auto simp: observe_def Let_def status_def split: if_splits)
  moreover have "correction e 0 = 0" for e
    by (simp add: correction_def i64_of_f64_def trunc_def sat_def)
  ultimately show ?thesis by (simp add: now_ns_def overlay_at_eq)
qed

theorem first_observation_exact_witness:
  "now_ns (observe 7000 1000 Media clock_new) 1500 = 7500"
  using first_observation_exact[of clock_new Media 7000 1000 500]
  by (simp add: clock_new_def status_def src_defs)

section \<open>Between observations\<close>

lemma correction_trunc:
  assumes "\<bar>sint e\<bar> \<le> 2 ^ 50" "\<bar>f\<bar> \<le> MAX_PPM"
  shows "sint (correction e f) = trunc (rn (of_int (sint e) * f))"
    and "\<bar>of_int (sint e) * f\<bar> < pow2 40"
    and "\<bar>sint (correction e f)\<bar> \<le> 2 ^ 41"
proof -
  let ?x = "of_int (sint e) * f"
  have "of_int \<bar>sint e\<bar> \<le> (of_int (2 ^ 50) :: rat)" using assms(1) by (simp only: of_int_le_iff)
  then have "\<bar>?x\<bar> \<le> 2 ^ 50 * MAX_PPM"
    unfolding abs_mult using assms(2) by (intro mult_mono) (simp_all del: of_int_sint)
  then show x: "\<bar>?x\<bar> < pow2 40" by (simp add: MAX_PPM_value pow2_def)
  then have "\<bar>rn ?x - ?x\<bar> \<le> pow2 (40 - 54)" by (intro rn_error_below) simp_all
  moreover have "\<bar>rn ?x\<bar> \<le> \<bar>rn ?x - ?x\<bar> + \<bar>?x\<bar>" using abs_triangle_ineq[of "rn ?x - ?x" ?x] by simp
  ultimately have r: "\<bar>rn ?x\<bar> \<le> of_int (2 ^ 41)" using x by (simp add: pow2_def del: of_int_sint)
  have "f64_of_i64 e = of_int (sint e)" using assms by (intro f64_of_i64_exact) simp
  then show k: "sint (correction e f) = trunc (rn ?x)"
    unfolding correction_def using sint_i64_of_f64[OF r] by simp
  show "\<bar>sint (correction e f)\<bar> \<le> 2 ^ 41" unfolding k using trunc_bounds[OF r] .
qed

lemma trunc_nonpos_diff:
  assumes "x \<le> 0" "y \<le> x" "x - y < of_int d"
  shows "trunc x - trunc y \<le> d"
proof -
  have "\<lfloor>- y\<rfloor> < \<lfloor>- x\<rfloor> + 1 + d"
    unfolding floor_less_iff using assms(3) floor_correct[of "- x"] by simp
  moreover have "trunc z = - \<lfloor>- z\<rfloor>" if "z \<le> 0" for z
    using that by (auto simp: trunc_def)
  ultimately show ?thesis using assms by simp
qed

lemma correction_mono:
  assumes "0 \<le> sint e1" "sint e1 \<le> sint e2" "sint e2 \<le> 2 ^ 50" "\<bar>f\<bar> \<le> MAX_PPM"
  shows "sint (correction e1 f) - sint (correction e2 f) \<le> sint e2 - sint e1"
proof -
  let ?x = "\<lambda>e. of_int (sint e) * f"
  have k: "sint (correction e f) = trunc (rn (?x e))" "\<bar>?x e\<bar> < pow2 40" if "e = e1 \<or> e = e2" for e
    using that assms by (auto intro!: correction_trunc simp del: of_int_sint)
  consider "sint e1 = sint e2" | "0 \<le> f" | "sint e1 < sint e2" "f < 0" using assms(2) by linarith
  then show ?thesis
  proof cases
    case 1 then show ?thesis by (simp add: k(1) del: of_int_sint)
  next
    case 2
    then have "?x e1 \<le> ?x e2" using assms(2) by (intro mult_right_mono) (simp_all only: of_int_le_iff)
    then have "trunc (rn (?x e1)) \<le> trunc (rn (?x e2))" by (intro trunc_mono rn_mono)
    then show ?thesis using assms(2) by (simp add: k del: of_int_sint)
  next
    case 3
    define d where "d = sint e2 - sint e1"
    have d: "1 \<le> d" using 3 by (simp add: d_def)
    then have d': "(1::rat) \<le> of_int d" by (simp only: of_int_1_le_iff)
    have p: "pow2 (40 - 54) = 1 / 16384" by (simp add: pow2_def)
    have diff: "?x e1 - ?x e2 = of_int d * - f" by (simp add: d_def algebra_simps del: of_int_sint)
    have "of_int d * - f \<le> of_int d * (1 / 1000)"
      using d' assms(4) by (intro mult_left_mono) (simp_all add: MAX_PPM_value)
    moreover have "\<bar>rn (?x e) - ?x e\<bar> \<le> pow2 (40 - 54)" if "e = e1 \<or> e = e2" for e
      using k(2)[OF that] by (intro rn_error_below) simp_all
    then have "\<bar>rn (?x e1) - ?x e1\<bar> \<le> pow2 (40 - 54)" "\<bar>rn (?x e2) - ?x e2\<bar> \<le> pow2 (40 - 54)"
      by blast+
    ultimately have "rn (?x e1) - rn (?x e2) < of_int d"
      using diff d' p unfolding abs_le_iff by linarith
    moreover have "?x e2 \<le> ?x e1" using diff d' 3 mult_nonneg_nonneg[of "of_int d" "- f"] by linarith
    moreover have "?x e1 \<le> 0"
      using assms(1) 3 by (intro mult_nonneg_nonpos) (simp_all del: of_int_sint)
    then have "rn (?x e1) \<le> 0" using rn_mono[of "?x e1" 0] by simp
    ultimately have "trunc (rn (?x e1)) - trunc (rn (?x e2)) \<le> d"
      by (intro trunc_nonpos_diff rn_mono) simp_all
    then show ?thesis by (simp add: k d_def del: of_int_sint)
  qed
qed

text \<open>
  C12: between two accepted observations the overlay never runs backwards: for two local
  times after the last accepted observation, the later within 13 days of it, the overlay's
  time at the later is at least that at the earlier, whatever the observations before were
  and however the double arithmetic rounded.
\<close>

theorem clock_monotone_between_observations:
  assumes "c = clock_run clock_new es" "initialized c"
    and "0 \<le> sint (l1 - last_sync c)" "sint (l1 - last_sync c) \<le> sint (l2 - last_sync c)"
    and "sint (l2 - last_sync c) \<le> 2 ^ 50"
  shows "0 \<le> sint (now_ns c l2 - now_ns c l1)"
proof -
  let ?e1 = "l1 - last_sync c" and ?e2 = "l2 - last_sync c"
  let ?k = "\<lambda>e. correction e (freq_scale c)"
  have f: "\<bar>freq_scale c\<bar> \<le> MAX_PPM" using clock_inv_run[of es] assms(1) by (simp add: clock_inv_def)
  have m: "sint (?k ?e1) - sint (?k ?e2) \<le> sint ?e2 - sint ?e1"
    using assms f by (intro correction_mono) simp_all
  have b: "\<bar>sint (?k ?e1)\<bar> \<le> 2 ^ 41" "\<bar>sint (?k ?e2)\<bar> \<le> 2 ^ 41"
    using assms f by (intro correction_trunc; simp)+
  have "now_ns c l2 - now_ns c l1 = word_of_int ((sint ?e2 - sint ?e1) + (sint (?k ?e2) - sint (?k ?e1)))"
    using assms(2) by (simp add: now_ns_def overlay_at_eq)
  then have "sint (now_ns c l2 - now_ns c l1) = (sint ?e2 - sint ?e1) + (sint (?k ?e2) - sint (?k ?e1))"
    using b assms(3-5) m by (intro sint_eqI) simp_all
  then show ?thesis using m by simp
qed

theorem clock_monotone_between_observations_witness:
  "0 \<le> sint (now_ns (clock_run clock_new [Observe 5000000000 1000000000 Ptp, Observe 5249900000 1250000000 Ptp]) 1250000100
            - now_ns (clock_run clock_new [Observe 5000000000 1000000000 Ptp, Observe 5249900000 1250000000 Ptp]) 1250000050)"
proof -
  let ?c = "clock_run clock_new [Observe 5000000000 1000000000 Ptp, Observe 5249900000 1250000000 Ptp]"
  have "initialized ?c" "last_sync ?c = 1250000000" by code_simp+
  then show ?thesis by (intro clock_monotone_between_observations[OF refl]) simp_all
qed

section \<open>Where the clock stops following\<close>

text \<open>Nothing of the overlay's reading changes: \<open>c\<close> reads the time as \<open>c0\<close> does.\<close>

definition same_reading :: "overlay_clock \<Rightarrow> overlay_clock \<Rightarrow> bool" where
  "same_reading c0 c \<longleftrightarrow>
     initialized c = initialized c0 \<and> last_sync c = last_sync c0 \<and> shift c = shift c0 \<and>
     freq_scale c = freq_scale c0"

lemma same_reading_now: "same_reading c0 c \<Longrightarrow> now_ns c l = now_ns c0 l"
  by (simp add: same_reading_def now_ns_def)

lemma steer_implausible: "\<not> rate_ok c t1 t2 \<Longrightarrow> steer t1 t2 s c = c"
  by (simp add: steer_def)

lemma stale_reading [simp]: "same_reading c0 (mark_unlocked_if_stale l i c) = same_reading c0 c"
  by (simp add: same_reading_def mark_unlocked_if_stale_def)

definition after_gap :: "overlay_clock \<Rightarrow> clock_event \<Rightarrow> bool" where
  "after_gap c0 e =
     (case e of Observe t1 t2 s \<Rightarrow> 4000000000 < sint (t2 - last_sync c0) | MarkStale l i \<Rightarrow> True)"

lemma observe_after_gap:
  assumes "initialized c" "4000000000 < sint (t2 - last_sync c)"
  shows "same_reading c (observe t1 t2 s c)"
proof -
  have "\<not> rate_ok (c\<lparr>last_media_t2 := m\<rparr>) t1 t2" for m using assms(2) by (simp add: rate_ok_def Let_def)
  moreover have "\<not> rate_ok c t1 t2" using assms(2) by (simp add: rate_ok_def Let_def)
  ultimately show ?thesis
    using assms(1) by (simp add: observe_def Let_def steer_implausible same_reading_def)
qed

lemma same_reading_refl [simp]: "same_reading c c"
  by (simp add: same_reading_def)

lemma same_reading_trans: "same_reading a b \<Longrightarrow> same_reading b c \<Longrightarrow> same_reading a c"
  by (simp add: same_reading_def)

interpretation gap: machine clock_step "after_gap c0" "\<lambda>c. initialized c0 \<and> same_reading c0 c" for c0
proof
  fix c e
  assume h: "initialized c0 \<and> same_reading c0 c" and a: "after_gap c0 e"
  show "initialized c0 \<and> same_reading c0 (clock_step c e)"
  proof (cases e)
    case (Observe t1 t2 s)
    have "initialized c" "4000000000 < sint (t2 - last_sync c)"
      using h a by (simp_all add: same_reading_def after_gap_def Observe)
    then show ?thesis
      using h observe_after_gap[of c t2 t1 s] by (auto simp: Observe intro: same_reading_trans)
  qed (use h in simp)
qed

text \<open>
  C35: after a gap of more than 4 s since the last accepted observation the clock never
  synchronises again: only an accepted observation moves \<open>last_sync\<close>, and one whose
  local interval exceeds 4 s is rejected, so every later one is rejected as well (until
  the 64-bit difference wraps). From then on the overlay free-runs on its last frequency.
\<close>

theorem clock_never_recovers_from_gap:
  assumes "initialized c" "list_all (after_gap c) es"
  shows "now_ns (clock_run c es) l = now_ns c l \<and> last_sync (clock_run c es) = last_sync c"
proof -
  have "same_reading c (foldl clock_step c es)"
    using gap.run_inv[of c c es] assms by (simp add: same_reading_def)
  then show ?thesis by (simp add: clock_run_def same_reading_now) (simp add: same_reading_def)
qed

theorem clock_never_recovers_from_gap_witness:
  "\<exists>c. c = clock_run clock_new [Observe 5000000000 1000000000 Ptp] \<and>
       now_ns (clock_run c [Observe 10000000000 5500000000 Ptp, Observe 10250000000 5750000000 Ptp,
                            Observe 10500000000 6000000000 Ptp]) 6000000000 = 10000000000"
proof -
  let ?c = "clock_run clock_new [Observe 5000000000 1000000000 Ptp]"
  have h: "initialized ?c" "list_all (after_gap ?c)
      [Observe 10000000000 5500000000 Ptp, Observe 10250000000 5750000000 Ptp,
       Observe 10500000000 6000000000 Ptp]" "now_ns ?c 6000000000 = 10000000000"
    by code_simp+
  show ?thesis using clock_never_recovers_from_gap[OF h(1,2), of 6000000000] h(3) by simp
qed

definition not_ptp :: "clock_event \<Rightarrow> bool" where
  "not_ptp e = (case e of Observe t1 t2 s \<Rightarrow> s = Media | MarkStale l i \<Rightarrow> True)"

lemma status_media [simp]: "status (c\<lparr>last_media_t2 := t\<rparr>) = status c"
  by (simp add: status_def)

interpretation ptp_lock: machine clock_step not_ptp "\<lambda>c. same_reading c0 c \<and> status c = PtpLocked" for c0
proof
  fix c e
  assume h: "same_reading c0 c \<and> status c = PtpLocked" and e: "not_ptp e"
  show "same_reading c0 (clock_step c e) \<and> status (clock_step c e) = PtpLocked"
  proof (cases e)
    case (Observe t1 t2 s)
    then show ?thesis using h e by (simp add: not_ptp_def observe_def Let_def same_reading_def)
  qed (use h in \<open>simp add: mark_unlocked_if_stale_def\<close>)
qed

text \<open>
  While the clock is locked to PTP, media observations and the staleness check change
  neither its reading nor its status, in any number: PTP has priority, and a clock whose
  PTP master disappears stays in the status \<open>PtpLocked\<close>.
\<close>

theorem ptp_lock_ignores_media:
  assumes "status c = PtpLocked" "list_all not_ptp es"
  shows "now_ns (clock_run c es) l = now_ns c l \<and> status (clock_run c es) = PtpLocked"
  using ptp_lock.run_inv[of c c es] assms
  by (simp add: clock_run_def same_reading_now)

definition locked_clock :: overlay_clock where
  "locked_clock = clock_run clock_new
     [Observe 5000000000 1000000000 Ptp, Observe 5250000000 1250000000 Ptp,
      Observe 5500000000 1500000000 Ptp, Observe 5750000000 1750000000 Ptp,
      Observe 6000000000 2000000000 Ptp]"

theorem ptp_lock_ignores_media_witness:
  "status (clock_run locked_clock [Observe 9000000000 2500000000 Media, MarkStale 90000000000 1000000000])
     = PtpLocked"
proof -
  have "status locked_clock = PtpLocked" by code_simp
  moreover have "list_all not_ptp [Observe 9000000000 2500000000 Media, MarkStale 90000000000 1000000000]"
    by (simp add: not_ptp_def)
  ultimately show ?thesis using ptp_lock_ignores_media by blast
qed

end
