(* ===== verification/Clock_Lock.thy ===== *)
theory Clock_Lock
  imports Overlay
begin

text \<open>
  The overlay clock on a master that runs at the local rate: what it reads and when it locks.
\<close>

section \<open>A regular master\<close>

text \<open>Local times of observations, each 0.2 to 4 seconds after the one before.\<close>

fun regular :: "u64 \<Rightarrow> u64 list \<Rightarrow> bool" where
  "regular t [] = True"
| "regular t (u # us) \<longleftrightarrow> 200000000 \<le> sint (u - t) \<and> sint (u - t) \<le> 4000000000 \<and> regular u us"

text \<open>The clock after PTP observations at these times of a master that is \<open>d\<close> ahead.\<close>

definition follow :: "u64 \<Rightarrow> u64 list \<Rightarrow> overlay_clock \<Rightarrow> overlay_clock" where
  "follow d ts c = foldl (\<lambda>c t. observe (t + d) t Ptp c) c ts"

text \<open>The clock has seen the master last at \<open>t\<close> and has agreed with it \<open>k\<close> times since the first.\<close>

definition in_step :: "u64 \<Rightarrow> u64 \<Rightarrow> nat \<Rightarrow> overlay_clock \<Rightarrow> bool" where
  "in_step d t k c \<longleftrightarrow> initialized c \<and> last_sync c = t \<and> last_master c = t + d \<and> shift c = d \<and> freq_scale c = 0 \<and>
     clock_source c = SRC_PTP \<and> lock_streak c = of_nat k \<and> acquiring c = (k < 4)"

lemma raw_rate_same:
  assumes "0 < sint x" "sint x \<le> 4000000000"
  shows "raw_rate x x = 0"
proof -
  have "f64_of_i64 x = of_int (sint x)" using assms by (intro f64_of_i64_exact) simp
  moreover have "of_int (sint x) / of_int (sint x) = (1 :: rat)"
  proof (rule divide_self)
    show "(of_int (sint x) :: rat) \<noteq> 0" using assms by (simp only: of_int_eq_0_iff)
  qed
  ultimately have "f64_of_i64 x / f64_of_i64 x = of_int 1" by simp
  then show ?thesis using rn_of_int[of 1] by (simp add: raw_rate_def)
qed

lemma overlay_at_0: "overlay_at lcl t d 0 = lcl + d"
  by (simp add: overlay_at_def Let_def i64_of_f64_def trunc_def sat_def)

lemma in_step_reads: "in_step d t k c \<Longrightarrow> now_ns c lcl = lcl + d"
  by (simp add: in_step_def now_ns_def overlay_at_0)

lemma in_step_first: "in_step d t 0 (observe (t + d) t Ptp clock_new)"
  by (simp add: in_step_def observe_def clock_new_def first_sync_def publish_def set_source_def)

lemma in_step_next:
  assumes "in_step d t k c" "200000000 \<le> sint (u - t)" "sint (u - t) \<le> 4000000000" "Suc k < 2 ^ 32"
  shows "in_step d u (Suc k) (observe (u + d) u Ptp c)"
proof -
  have c: "initialized c" "last_sync c = t" "last_master c = t + d" "shift c = d" "freq_scale c = 0"
    "lock_streak c = of_nat k" "acquiring c = (k < 4)" using assms(1) by (simp_all add: in_step_def)
  have dt: "u + d - (t + d) = u - t" by simp
  have ok: "rate_ok c (u + d) u"
    using assms(2,3) c by (simp add: rate_ok_def Let_def dt i64_abs_def)
  have pred: "prediction c u = u + d" by (simp add: prediction_def c overlay_at_0)
  have rate: "smooth (freq_scale c) (raw_rate (u + d - last_master c) (u - last_sync c)) = 0"
    using raw_rate_same[of "u - t"] assms(2,3) by (simp add: c dt smooth_0)
  have "of_nat k + 1 = (of_nat (Suc k) :: u32)" by simp
  then have n: "(4 \<le> (of_nat k + 1 :: u32)) = (3 \<le> k)"
    using unat_of_nat_u32[of "Suc k"] assms(4) by (simp only: word_le_nat_alt) simp
  have "steer (u + d) u Ptp c = set_source Ptp (track_lock 0 ((publish u d 0 c)\<lparr>last_master := u + d\<rparr>))"
    using ok pred rate
    by (simp add: steer_def Let_def OUTLIER_NS_def i64_abs_def i64_clamp_def SLEW_ACQUIRE_NS_def SLEW_LOCK_NS_def)
  then show ?thesis
    using c n
    by (simp add: in_step_def observe_ptp track_lock_def LOCK_ERR_NS_def i64_abs_def set_source_def publish_def Let_def)
qed

lemma in_step_follow:
  "in_step d t k c \<Longrightarrow> regular t ts \<Longrightarrow> k + length ts < 2 ^ 32 \<Longrightarrow>
   \<exists>u. in_step d u (k + length ts) (follow d ts c)"
proof (induction ts arbitrary: t k c)
  case (Cons u us)
  have "in_step d u (Suc k) (observe (u + d) u Ptp c)"
    using Cons.prems by (intro in_step_next[of d t]) simp_all
  with Cons.IH[of u "Suc k"] Cons.prems show ?case by (simp add: follow_def)
qed (auto simp: follow_def)

text \<open>
  C32: a master at the local rate is followed exactly and locked to. After PTP observations of
  a master a constant \<open>d\<close> ahead, each 0.2 to 4 seconds after the one before, the clock reads
  exactly \<open>d\<close> ahead at every local time; it is driven until the fourth observation after the
  first, locked from then on, and then steers with its small step.
\<close>

theorem regular_ptp_locks:
  fixes d :: u64
  assumes "regular t ts" "length ts < 2 ^ 32"
  defines "c \<equiv> follow d (t # ts) clock_new"
  shows "now_ns c lcl = lcl + d \<and> freq_scale c = 0 \<and>
    status c = (if length ts < 4 then MediaDriven else PtpLocked) \<and>
    max_step c = (if length ts < 4 then SLEW_ACQUIRE_NS else SLEW_LOCK_NS)"
proof -
  obtain u where u: "in_step d u (length ts) c"
    using in_step_follow[OF in_step_first assms(1), of d] assms(2) by (auto simp: c_def follow_def)
  have "(4 \<le> (of_nat (length ts) :: u32)) = (4 \<le> length ts)"
    using unat_of_nat_u32[of "length ts"] assms(2) by (simp add: word_le_nat_alt)
  then show ?thesis
    using u in_step_reads[OF u, of lcl] by (auto simp: in_step_def status_def max_step_def src_defs)
qed

theorem regular_ptp_locks_witness:
  "status (follow 7 [0, 1000000000, 2000000000, 3000000000, 4000000000] clock_new) = PtpLocked"
  using regular_ptp_locks[of 0 "[1000000000, 2000000000, 3000000000, 4000000000]" 7] by simp

end
