(* ===== verification/Flows_Control.thy ===== *)
theory Flows_Control
  imports Req_Resp
begin

text \<open>
  \<open>src/src/protocol/flows_control.rs\<close>: the packets the device sends to a transmitter's
  flows-control port, and the handle in its reply.
\<close>

definition START_CODE :: u16 where "START_CODE = 0x1102"
definition OP_REQUEST :: u16 where "OP_REQUEST = 0x0100"
definition OP_STOP :: u16 where "OP_STOP = 0x0101"
definition OP_UPDATE :: u16 where "OP_UPDATE = 0x0102"
definition ERR_EXPIRED :: u16 where "ERR_EXPIRED = 0x0103"
definition ERR_TOO_MANY :: u16 where "ERR_TOO_MANY = 0x0315"
definition ERR_RATE :: u16 where "ERR_RATE = 0x0301"

text \<open>\<open>while !(off + w.len()).is_multiple_of(m) { w.u8(0) }\<close>; \<open>m\<close> is 8 or 4 in the source.\<close>

function pad_while :: "nat \<Rightarrow> nat \<Rightarrow> be_writer \<Rightarrow> be_writer" where
  "pad_while m off w =
     (if m = 0 \<or> (off + length w) mod m = 0 then w else pad_while m off (bw_u8 0 w))"
  by pat_completeness auto
termination
  by (relation "measure (\<lambda>(m, off, w). (m - (off + length w) mod m) mod m)")
    (auto simp: bw_u8_def mod_Suc intro!: diff_less_mono2)

declare pad_while.simps [simp del]

definition encode_request_flow ::
  "u16 \<Rightarrow> u32 \<Rightarrow> u32 \<Rightarrow> u16 \<Rightarrow> u16 list \<Rightarrow> rstr \<Rightarrow> rstr \<Rightarrow> u16 \<Rightarrow> bytes \<Rightarrow> bytes outcome" where
  "encode_request_flow seqnum sample_rate bits fpp tx_channel_ids rx_hostname rx_flow_name rx_port rx_ip =
     (let n = length tx_channel_ids;
          strings_off = 48 + 2 * n;
          extra_off = 0x1C + 2 * n;
          body = bw_u16 (of_nat strings_off) [];
          body = bw_u32 sample_rate body;
          body = bw_u32 bits body;
          body = bw_u16 1 body;
          body = bw_u16 (of_nat n) body;
          sock_slot = length body;
          body = bw_u16 0 body;
          body = foldl (\<lambda>w i. bw_u16 i w) body tx_channel_ids;
          body = bw_u16 (of_nat extra_off) body;
          body = bw_u16 0x0A00 body;
          body = bw_u16 0x0002 body;
          body = bw_u16 fpp body;
          name_slot = length body;
          body = bw_u16 0 body;
          body = bw_zeros 12 body;
          body = bw_cstr rx_hostname body;
          flow_name_off = HEADER_RR + length body;
          body = bw_cstr rx_flow_name body;
          body = pad_while 8 HEADER_RR body;
          sock_off = HEADER_RR + length body;
          body = bw_u16 0x0802 body;
          body = bw_u16 rx_port body;
          raw = bw_bytes rx_ip body
      in obind (set_rng raw sock_slot (be16 (of_nat sock_off))) (\<lambda>raw.
         obind (set_rng raw name_slot (be16 (of_nat flow_name_off))) (\<lambda>raw.
         Ret (rr_encode START_CODE seqnum OP_REQUEST 0 raw))))"

definition encode_stop :: "u16 \<Rightarrow> bytes \<Rightarrow> bytes" where
  "encode_stop seqnum handle = rr_encode START_CODE seqnum OP_STOP 0 handle"

definition encode_update :: "u16 \<Rightarrow> bytes \<Rightarrow> u16 list \<Rightarrow> bytes" where
  "encode_update seqnum handle tx_channel_ids =
     (let c = bw_bytes handle [];
          c = bw_u16 (of_nat (length tx_channel_ids)) c;
          c = foldl (\<lambda>w i. bw_u16 i w) c tx_channel_ids
      in rr_encode START_CODE seqnum OP_UPDATE 0 c)"

definition parse_handle :: "bytes \<Rightarrow> bytes option outcome" where
  "parse_handle content =
     (if length content < 6 then Ret None
      else obind (rng content 0 6) (\<lambda>h. Ret (Some h)))"

section \<open>Padding\<close>

lemma pad_while_ex:
  assumes "0 < m"
  shows "\<exists>k < m. pad_while m off w = w @ replicate k 0 \<and> (off + length w + k) mod m = 0"
  using assms
proof (induction m off w rule: pad_while.induct)
  case (1 m off w)
  show ?case
  proof (cases "(off + length w) mod m = 0")
    case True
    with 1 show ?thesis by (auto simp: pad_while.simps[of m off w])
  next
    case False
    with 1 obtain k where k: "k < m" "pad_while m off (bw_u8 0 w) = bw_u8 0 w @ replicate k 0"
      "(off + length (bw_u8 0 w) + k) mod m = 0" by auto
    have "Suc k \<noteq> m"
    proof
      assume "Suc k = m"
      then have "off + length (bw_u8 0 w) + k = (off + length w) + m"
        by (simp add: bw_u8_def)
      with k(3) False show False by simp
    qed
    with k False "1.prems" show ?thesis
      by (intro exI[of _ "Suc k"]) (auto simp: pad_while.simps[of m off w] bw_u8_def)
  qed
qed

lemma foldl_be16: "foldl (\<lambda>w i. w @ be16 i) w xs = w @ concat (map be16 xs)"
  by (induction xs arbitrary: w) simp_all

lemma length_concat_be16 [simp]: "length (concat (map be16 xs)) = 2 * length xs"
  by (induction xs) simp_all

lemma parse_handle_eq: "parse_handle c = Ret (if 6 \<le> length c then Some (take 6 c) else None)"
  by (simp add: parse_handle_def panicfree slice_def)

section \<open>The request packet\<close>

text \<open>
  The layout of a request: a 38-byte fixed part with \<open>2 * n\<close> bytes of channel ids, the
  two strings, the padding and the socket descriptor.
\<close>

lemma encode_request_flow_layout:
  assumes "length ids = n"
  shows "\<exists>k < 8. (10 + (38 + 2 * n + length host + 1 + length fname + 1) + k) mod 8 = 0 \<and>
    encode_request_flow seqnum rate bits fpp ids host fname port ip = Ret
      (rr_encode START_CODE seqnum OP_REQUEST 0
        (be16 (of_nat (48 + 2 * n)) @ be32 rate @ be32 bits @ be16 1 @ be16 (of_nat n) @
         be16 (of_nat (48 + 2 * n + length host + 1 + length fname + 1 + k)) @
         concat (map be16 ids) @ be16 (of_nat (0x1C + 2 * n)) @ be16 0x0A00 @ be16 2 @ be16 fpp @
         be16 (of_nat (48 + 2 * n + length host + 1)) @ replicate 12 0 @
         host @ 0 # fname @ 0 # replicate k 0 @ be16 0x0802 @ be16 port @ ip))"
proof -
  define A where "A = be16 (of_nat (48 + 2 * n)) @ be32 rate @ be32 bits @ be16 1 @ be16 (of_nat n)"
  define B where "B = concat (map be16 ids) @ be16 (of_nat (0x1C + 2 * n)) @ be16 0x0A00 @ be16 2 @ be16 fpp"
  define S where "S = A @ be16 0 @ B @ be16 0 @ replicate 12 0 @ host @ 0 # fname @ [0]"
  have lA: "length A = 14" and lB: "length B = 2 * n + 8"
    using assms by (simp_all add: A_def B_def)
  obtain k where k: "k < 8" "pad_while 8 10 S = S @ replicate k 0" "(10 + length S + k) mod 8 = 0"
    using pad_while_ex[of 8 10 S] by auto
  have lS: "length S = 38 + 2 * n + length host + 1 + length fname + 1"
    by (simp add: S_def lA lB)
  have slots: "set_rng (A @ be16 0 @ X) 14 (be16 v) = Ret (A @ be16 v @ X)"
    "set_rng (A @ be16 u @ B @ be16 0 @ X) (n * 2 + 24) (be16 v) = Ret (A @ be16 u @ B @ be16 v @ X)"
    for X u v
    by (auto simp: set_rng_def lA lB)
  have "encode_request_flow seqnum rate bits fpp ids host fname port ip = Ret
      (rr_encode START_CODE seqnum OP_REQUEST 0
        (A @ be16 (of_nat (10 + length S + k)) @ B @ be16 (of_nat (48 + 2 * n + length host + 1)) @
         replicate 12 0 @ host @ 0 # fname @ 0 # replicate k 0 @ be16 0x0802 @ be16 port @ ip))"
  proof -
    have pad: "pad_while 8 10 (A @ be16 0 @ B @ be16 0 @ replicate 12 0 @ host @ 0 # fname @ [0]) =
        A @ be16 0 @ B @ be16 0 @ replicate 12 0 @ host @ 0 # fname @ 0 # replicate k 0"
      using k(2) by (simp add: S_def)
    have "encode_request_flow seqnum rate bits fpp ids host fname port ip =
      (let raw = pad_while 8 10 (A @ be16 0 @ B @ be16 0 @ replicate 12 0 @ host @ 0 # fname @ [0]);
           off = 10 + length raw
       in obind (set_rng (raw @ be16 0x0802 @ be16 port @ ip) 14 (be16 (of_nat off)))
         (\<lambda>raw. obind (set_rng raw (24 + 2 * n) (be16 (of_nat (48 + 2 * n + length host + 1))))
         (\<lambda>raw. Ret (rr_encode START_CODE seqnum OP_REQUEST 0 raw))))"
      by (simp add: encode_request_flow_def Let_def bw_u16_def bw_u32_def bw_zeros_def bw_cstr_def
          bw_bytes_def foldl_be16 HEADER_RR_def assms A_def B_def algebra_simps)
    then show ?thesis
      by (simp add: pad Let_def slots S_def lA lB algebra_simps)
  qed
  then show ?thesis
    using k by (intro exI[of _ k]) (simp add: lS A_def B_def)
qed

text \<open>
  The content of a request for \<open>n\<close> channels: the fixed fields before the channels, those after
  them, and the strings and the socket, which \<open>sk\<close> says where to find.
\<close>

definition flow_front :: "nat \<Rightarrow> u32 \<Rightarrow> u32 \<Rightarrow> nat \<Rightarrow> bytes" where
  "flow_front n rate bits sk =
     be16 (of_nat (48 + 2 * n)) @ be32 rate @ be32 bits @ be16 1 @ be16 (of_nat n) @ be16 (of_nat sk)"

definition flow_middle :: "nat \<Rightarrow> u16 \<Rightarrow> nat \<Rightarrow> bytes" where
  "flow_middle n fpp name = be16 (of_nat (0x1C + 2 * n)) @ be16 0x0A00 @ be16 2 @ be16 fpp @ be16 (of_nat name) @ replicate 12 0"

definition flow_end :: "rstr \<Rightarrow> rstr \<Rightarrow> nat \<Rightarrow> u16 \<Rightarrow> bytes \<Rightarrow> bytes" where
  "flow_end host fname k port ip = host @ 0 # fname @ 0 # replicate k 0 @ be16 0x0802 @ be16 port @ ip"

lemma flow_lengths [simp]:
  "length (flow_front n rate bits sk) = 16" "length (flow_middle n fpp name) = 22"
  "length (flow_end host fname k port ip) = length host + length fname + k + 6 + length ip"
  by (simp_all add: flow_front_def flow_middle_def flow_end_def)

lemma flow_fields:
  fixes ids :: "u16 list"
  assumes "c = flow_front (length ids) rate bits sk @ concat (map be16 ids) @ flow_middle (length ids) fpp name @ T"
  defines "n \<equiv> length ids"
  shows "rd32 c 2 = Ret rate" "rd32 c 6 = Ret bits" "rd16 c 12 = Ret (of_nat n)" "rd16 c 0 = Ret (of_nat (48 + 2 * n))"
    "rd16 c 14 = Ret (of_nat sk)" "\<forall>i < n. rd16 c (16 + 2 * i) = Ret (ids ! i)"
    "rd16 c (16 + 2 * n) = Ret (of_nat (0x1C + 2 * n))" "rd16 c (22 + 2 * n) = Ret fpp" "rd16 c (24 + 2 * n) = Ret (of_nat name)"
proof -
  show "rd32 c 2 = Ret rate" "rd32 c 6 = Ret bits" "rd16 c 12 = Ret (of_nat n)" "rd16 c 0 = Ret (of_nat (48 + 2 * n))"
    "rd16 c 14 = Ret (of_nat sk)"
    by (simp_all add: assms flow_front_def rd16_Ret rd32_Ret be16_def be32_def)
  show "\<forall>i < n. rd16 c (16 + 2 * i) = Ret (ids ! i)"
    unfolding assms(1) by (intro allI impI rd16_concat_written) (simp_all add: n_def)
  show "rd16 c (16 + 2 * n) = Ret (of_nat (0x1C + 2 * n))" "rd16 c (22 + 2 * n) = Ret fpp" "rd16 c (24 + 2 * n) = Ret (of_nat name)"
    by (simp_all add: assms flow_middle_def rd16_Ret be16_def nth_append)
qed

lemma flow_packet_reads:
  fixes host fname :: rstr and port :: u16 and ip P :: bytes and k n :: nat
  assumes "valid_utf8 host" "0 \<notin> set host" "valid_utf8 fname" "0 \<notin> set fname" "length ip = 4"
    and "length P = 10 + 16 + 2 * n + 22" "48 + 2 * n + length host + 1 < 2 ^ 16"
  defines "pkt \<equiv> P @ flow_end host fname k port ip" and "sk \<equiv> 48 + 2 * n + length host + 1 + length fname + 1 + k"
  shows "cstr_at pkt (of_nat (48 + 2 * n)) = Some host" "cstr_at pkt (of_nat (48 + 2 * n + length host + 1)) = Some fname"
    "rng pkt sk (sk + 8) = Ret ([0x08, 0x02] @ be16 port @ ip)"
proof -
  show "cstr_at pkt (of_nat (48 + 2 * n)) = Some host"
    by (rule cstr_at_offset[where pre = P and post = "fname @ 0 # replicate k 0 @ be16 0x0802 @ be16 port @ ip"])
      (use assms in \<open>simp_all add: pkt_def flow_end_def\<close>)
  show "cstr_at pkt (of_nat (48 + 2 * n + length host + 1)) = Some fname"
    by (rule cstr_at_offset[where pre = "P @ host @ [0]" and post = "replicate k 0 @ be16 0x0802 @ be16 port @ ip"])
      (use assms in \<open>simp_all add: pkt_def flow_end_def\<close>)
  have "pkt = (P @ host @ 0 # fname @ 0 # replicate k 0) @ (be16 0x0802 @ be16 port @ ip) @ []"
    by (simp add: pkt_def flow_end_def)
  moreover have "be16 0x0802 = [0x08, 0x02]" by (simp add: be16_def)
  ultimately show "rng pkt sk (sk + 8) = Ret ([0x08, 0x02] @ be16 port @ ip)"
    by (simp only:) (rule rng_written, simp_all add: assms(5,6) sk_def)
qed

text \<open>
  C29: a flow request never panics and is what the transmitter expects: the header names
  the request and the packet's true length, the rate, the width, the channel ids and the
  frames per packet stand at their offsets, the packet-relative string offsets find the
  device's hostname and the flow name, and the socket offset is 8-aligned and finds the
  \<open>0x0802\<close> descriptor with the device's port and address.
\<close>

theorem request_flow_decodes:
  assumes "valid_utf8 host" "0 \<notin> set host" "valid_utf8 fname" "0 \<notin> set fname" "length ip = 4"
    and "2 * length ids + length host + length fname + 68 < 2 ^ 16"
  shows "\<exists>pkt h c sock. encode_request_flow seqnum rate bits fpp ids host fname port ip = Ret pkt \<and>
    rr_decode pkt = Ret (Some (h, c)) \<and> unat (h_total_length h) = length pkt \<and>
    h_start_code h = START_CODE \<and> h_opcode1 h = OP_REQUEST \<and> h_seqnum h = seqnum \<and>
    rd32 c 2 = Ret rate \<and> rd32 c 6 = Ret bits \<and> rd16 c 12 = Ret (of_nat (length ids)) \<and>
    (\<forall>i < length ids. rd16 c (16 + 2 * i) = Ret (ids ! i)) \<and>
    obind (rd16 c (16 + 2 * length ids)) (\<lambda>off. rd16 pkt (unat off)) = Ret 0x0A00 \<and>
    rd16 c (22 + 2 * length ids) = Ret fpp \<and>
    str_field pkt c 0 = Ret (Some host) \<and>
    str_field pkt c (24 + 2 * length ids) = Ret (Some fname) \<and>
    rd16 c 14 = Ret sock \<and> unat sock mod 8 = 0 \<and>
    rng pkt (unat sock) (unat sock + 8) = Ret ([0x08, 0x02] @ be16 port @ ip)"
proof -
  define n where "n = length ids"
  define name where "name = 48 + 2 * n + length host + 1"
  obtain k where k: "k < 8" "(10 + (38 + 2 * n + length host + 1 + length fname + 1) + k) mod 8 = 0"
    and enc: "encode_request_flow seqnum rate bits fpp ids host fname port ip = Ret (rr_encode START_CODE seqnum OP_REQUEST 0
      (flow_front n rate bits (name + length fname + 1 + k) @ concat (map be16 ids) @ flow_middle n fpp name @
       flow_end host fname k port ip))"
    using encode_request_flow_layout[OF n_def[symmetric], of host fname seqnum rate bits fpp port ip]
    by (auto simp: flow_front_def flow_middle_def flow_end_def name_def)
  define sk where "sk = name + length fname + 1 + k"
  define c where "c = flow_front n rate bits sk @ concat (map be16 ids) @ flow_middle n fpp name @ flow_end host fname k port ip"
  define pkt where "pkt = rr_encode START_CODE seqnum OP_REQUEST 0 c"
  define H where "H = be16 START_CODE @ be16 (of_nat (10 + length c)) @ be16 seqnum @ be16 OP_REQUEST @ be16 0"
  have lc: "length c = 48 + 2 * n + length host + length fname + k" by (simp add: c_def n_def assms(5))
  have pkt: "pkt = (H @ flow_front n rate bits sk @ concat (map be16 ids) @ flow_middle n fpp name) @ flow_end host fname k port ip"
    by (simp add: pkt_def rr_encode_layout H_def c_def)
  have lH: "length H = 10" by (simp add: H_def)
  have small: "10 + length c < 2 ^ 16" "sk < 2 ^ 16" using assms(6) k(1) by (simp_all add: lc n_def sk_def name_def)
  define h where "h = \<lparr>h_start_code = START_CODE, h_total_length = of_nat (10 + length c), h_seqnum = seqnum,
    h_opcode1 = OP_REQUEST, h_opcode2 = 0\<rparr>"
  have dec: "rr_decode pkt = Ret (Some (h, c))" unfolding pkt_def h_def by (rule rr_decode_encode[OF small(1)])
  have u: "unat (h_total_length h) = length pkt" "unat (of_nat sk :: u16) = sk" "unat (of_nat (0x1C + 2 * n) :: u16) = 0x1C + 2 * n"
    using small assms(6) unfolding h_def header.simps by (subst unat_of_nat_u16; simp add: pkt_def n_def)+
  note fields = flow_fields[of c ids rate bits sk fpp name, folded n_def, OF c_def]
  note texts = flow_packet_reads[OF assms(1-5), of "H @ flow_front n rate bits sk @ concat (map be16 ids) @ flow_middle n fpp name" n k port,
      folded pkt name_def sk_def]
  have strs: "str_field pkt c 0 = Ret (Some host)" "str_field pkt c (24 + 2 * n) = Ret (Some fname)"
    using fields texts(1,2) assms(6) by (simp_all add: str_field_def n_def name_def lH)
  have extra: "obind (rd16 c (16 + 2 * n)) (\<lambda>off. rd16 pkt (unat off)) = Ret 0x0A00"
    unfolding fields(7) obind.simps u(3)
    by (simp add: pkt lH flow_middle_def rd16_Ret be16_def nth_append n_def from_be16_def)
  have sock: "unat (of_nat sk :: u16) mod 8 = 0" "rng pkt (unat (of_nat sk :: u16)) (unat (of_nat sk :: u16) + 8) = Ret ([0x08, 0x02] @ be16 port @ ip)"
    using k(2) texts(3) assms(6) unfolding u(2) by (simp_all add: sk_def name_def n_def lH add.commute add.left_commute)
  have "h_start_code h = START_CODE" "h_opcode1 h = OP_REQUEST" "h_seqnum h = seqnum" by (simp_all add: h_def)
  then show ?thesis
    using enc[folded sk_def, folded c_def, folded pkt_def] dec u(1) fields strs extra sock unfolding n_def[symmetric]
    by (intro exI[of _ pkt] exI[of _ h] exI[of _ c] exI[of _ "of_nat sk"] conjI) assumption+
qed

text \<open>The capture of the source's own test, byte for byte.\<close>

lemma request_flow_golden:
  "encode_request_flow 0 48000 24 16 [1, 0, 0, 0] (lit ''A32-000001'') (lit ''1'') 0x3801 [10, 254, 78, 11] =
   Ret [0x11, 0x02, 0x00, 0x50, 0x00, 0x00, 0x01, 0x00, 0x00, 0x00, 0x00, 0x38, 0x00, 0x00, 0xbb, 0x80,
        0x00, 0x00, 0x00, 0x18, 0x00, 0x01, 0x00, 0x04, 0x00, 0x48, 0x00, 0x01, 0x00, 0x00, 0x00, 0x00,
        0x00, 0x00, 0x00, 0x24, 0x0a, 0x00, 0x00, 0x02, 0x00, 0x10, 0x00, 0x43, 0x00, 0x00, 0x00, 0x00,
        0x00, 0x00, 0x00, 0x00, 0x00, 0x00, 0x00, 0x00, 0x41, 0x33, 0x32, 0x2d, 0x30, 0x30, 0x30, 0x30,
        0x30, 0x31, 0x00, 0x31, 0x00, 0x00, 0x00, 0x00, 0x08, 0x02, 0x38, 0x01, 0x0a, 0xfe, 0x4e, 0x0b]"
  by code_simp

theorem request_flow_decodes_witness:
  "\<exists>pkt h c. encode_request_flow 0 48000 24 16 [1, 0, 0, 0] (lit ''A32-000001'') (lit ''1'') 0x3801
      [10, 254, 78, 11] = Ret pkt \<and> rr_decode pkt = Ret (Some (h, c)) \<and>
    str_field pkt c 0 = Ret (Some (lit ''A32-000001''))"
proof -
  have "valid_utf8 (lit ''A32-000001'')" "0 \<notin> set (lit ''A32-000001'')"
    "valid_utf8 (lit ''1'')" "0 \<notin> set (lit ''1'')" "length [10, 254, 78, 11 :: u8] = 4"
    "2 * length [1, 0, 0, 0 :: u16] + length (lit ''A32-000001'') + length (lit ''1'') + 68 < 2 ^ 16"
    by (simp_all add: lit_def)
  from request_flow_decodes[OF this, of 0 48000 24 16 "0x3801"] show ?thesis
    by blast
qed

end
