(* ===== verification/Arc.thy ===== *)
theory Arc
  imports Req_Resp Flows_Control
begin

text \<open>
  \<open>src/src/protocol/arc.rs\<close>: the ARC codecs. Encoders build a content with the writer
  and wrap it with the 10-byte header; parsers read untrusted requests. Every patch of a
  reserved slot and every index is checked, so a panic would show.
\<close>

definition OP_COUNTS :: u16 where "OP_COUNTS = 0x1000"
definition OP_SET_NAME :: u16 where "OP_SET_NAME = 0x1001"
definition OP_GET_NAME :: u16 where "OP_GET_NAME = 0x1002"
definition OP_NAMES :: u16 where "OP_NAMES = 0x1003"
definition OP_1100 :: u16 where "OP_1100 = 0x1100"
definition OP_1102 :: u16 where "OP_1102 = 0x1102"
definition OP_TX_CH :: u16 where "OP_TX_CH = 0x2000"
definition OP_TX_FRIENDLY :: u16 where "OP_TX_FRIENDLY = 0x2010"
definition OP_RENAME_TX :: u16 where "OP_RENAME_TX = 0x2013"
definition OP_TX_FLOWS :: u16 where "OP_TX_FLOWS = 0x2200"
definition OP_CREATE_MCAST :: u16 where "OP_CREATE_MCAST = 0x2201"
definition OP_DELETE_MCAST :: u16 where "OP_DELETE_MCAST = 0x2202"
definition OP_2320 :: u16 where "OP_2320 = 0x2320"
definition OP_RX_CH :: u16 where "OP_RX_CH = 0x3000"
definition OP_RENAME_RX :: u16 where "OP_RENAME_RX = 0x3001"
definition OP_SUBSCRIBE :: u16 where "OP_SUBSCRIBE = 0x3010"
definition OP_UNSUB_ONE :: u16 where "OP_UNSUB_ONE = 0x3014"
definition OP_RX_FLOWS :: u16 where "OP_RX_FLOWS = 0x3200"
definition OP_PORT_RANGES :: u16 where "OP_PORT_RANGES = 0x3300"

definition STATUS_NONE :: u32 where "STATUS_NONE = 0"
definition STATUS_UNRESOLVED :: u32 where "STATUS_UNRESOLVED = 1"
definition STATUS_ESTABLISHING :: u32 where "STATUS_ESTABLISHING = 8"
definition STATUS_RX_UNICAST :: u32 where "STATUS_RX_UNICAST = 0x01010009"

definition PCM_TYPE :: u16 where "PCM_TYPE = 0x000E"

section \<open>Fixed replies\<close>

definition encode_counts :: "header \<Rightarrow> u16 \<Rightarrow> u16 \<Rightarrow> bytes" where
  "encode_counts req tx rx =
     (let c = bw_u8 0 [];
          c = bw_u8 0 c;
          c = bw_u16 tx c;
          c = bw_u16 rx c;
          c = bw_u16 4 c;
          c = bw_u16 8 c;
          c = bw_u16 8 c;
          c = bw_u16 32 c;
          c = bw_u16 32 c;
          c = bw_u16 (of_nat (min (unat tx + unat rx) 65535)) c;
          c = bw_u16 1 c;
          c = bw_u16 1 c;
          c = bw_zeros 14 c
      in rr_encode_ok req c)"

definition encode_device_name :: "header \<Rightarrow> rstr \<Rightarrow> bytes" where
  "encode_device_name req name = rr_encode_ok req (bw_cstr name [])"

record device_names =
  dn_board :: rstr
  dn_revision :: rstr
  dn_friendly :: rstr
  dn_factory :: rstr

definition put_str :: "rstr \<Rightarrow> be_writer \<Rightarrow> u16 \<times> be_writer" where
  \<comment> \<open>the closure \<open>put\<close> of \<open>encode_names\<close>\<close>
  "put_str s c = (of_nat (HEADER_RR + length c), bw_cstr s c)"

definition encode_names :: "header \<Rightarrow> device_names \<Rightarrow> bytes outcome" where
  "encode_names req n =
     (let c = bw_zeros 38 [];
          (board, c) = put_str (dn_board n) c;
          (rev, c) = put_str (dn_revision n) c;
          (friendly, c) = put_str (dn_friendly n) c;
          (factory, c) = put_str (dn_factory n) c
      in obind (bw_patch_u16 6 board c) (\<lambda>c.
         obind (bw_patch_u16 8 rev c) (\<lambda>c.
         obind (bw_patch_u16 12 friendly c) (\<lambda>c.
         obind (bw_patch_u16 14 factory c) (\<lambda>c.
         obind (bw_patch_u16 16 friendly c) (\<lambda>c.
         obind (bw_patch_u16 30 0x2729 c) (\<lambda>c.
         obind (bw_patch_u16 34 0x1102 c) (\<lambda>c.
         Ret (rr_encode_ok req c)))))))))"

definition encode_zeros :: "header \<Rightarrow> nat \<Rightarrow> bytes" where
  "encode_zeros req n = rr_encode_ok req (replicate n 0)"

definition encode_empty_page :: "header \<Rightarrow> bytes" where
  "encode_empty_page req = rr_encode_ok req empty_page"

definition encode_unsupported :: "header \<Rightarrow> bytes" where
  "encode_unsupported req = rr_encode_code req OPCODE2_UNSUPPORTED []"

definition encode_fail :: "header \<Rightarrow> bytes" where
  "encode_fail req = rr_encode_code req OPCODE2_FAIL []"

definition encode_port_ranges :: "header \<Rightarrow> bytes" where
  "encode_port_ranges req =
     rr_encode_ok req (bw_u16 0x39FF (bw_u16 0x3980 (bw_u16 0x397F (bw_u16 0x3800 []))))"

section \<open>The receive channel page\<close>

record rx_channel =
  rc_id :: u16
  rc_friendly :: rstr
  rc_tx_channel :: "rstr option"
  rc_tx_host :: "rstr option"
  rc_status :: u32

definition ITEM :: nat where "ITEM = 20"

definition rx_channel_strings :: "rx_channel \<Rightarrow> be_writer \<Rightarrow> u16 \<times> u16 \<times> u16 \<times> be_writer" where
  \<comment> \<open>the strings of one channel: the offsets of the friendly, the TX channel and the TX host name\<close>
  "rx_channel_strings ch c =
     (let friendly_off = of_nat (HEADER_RR + length c);
          c = bw_cstr (rc_friendly ch) c
      in case (rc_tx_channel ch, rc_tx_host ch) of
           (Some n, Some h) \<Rightarrow>
             let no = of_nat (HEADER_RR + length c);
                 c = bw_cstr n c;
                 ho = of_nat (HEADER_RR + length c);
                 c = bw_cstr h c
             in (friendly_off, no, ho, c)
         | _ \<Rightarrow> (friendly_off, 0, 0, c))"

definition rx_channel_item :: "rx_channel \<Rightarrow> u16 \<Rightarrow> u16 \<Rightarrow> u16 \<Rightarrow> u16 \<Rightarrow> bytes" where
  "rx_channel_item ch pcm_off friendly_off tx_name_off tx_host_off =
     bw_u32 0 (bw_u32 (rc_status ch) (bw_u16 friendly_off (bw_u16 tx_host_off
       (bw_u16 tx_name_off (bw_u16 pcm_off (bw_u16 0x0006 (bw_u16 (rc_id ch) [])))))))"

text \<open>The loop over the page's slice: the writer, the count written, \<open>have_more\<close>.\<close>

fun rx_channels_loop ::
  "nat \<Rightarrow> u16 \<Rightarrow> nat \<Rightarrow> rx_channel list \<Rightarrow> be_writer \<Rightarrow> u8 \<Rightarrow> (be_writer \<times> u8 \<times> bool) outcome" where
  "rx_channels_loop space pcm_off i [] c count = Ret (c, count, False)"
| "rx_channels_loop space pcm_off i (ch # chs) c count =
     (if i \<ge> space then Ret (c, count, True)
      else if length c \<ge> 800 then Ret (c, count, True)
      else let (friendly_off, tx_name_off, tx_host_off, c) = rx_channel_strings ch c;
               item = rx_channel_item ch pcm_off friendly_off tx_name_off tx_host_off
           in obind (set_rng c (2 + i * ITEM) item) (\<lambda>c.
              rx_channels_loop space pcm_off (i + 1) chs c (count + 1)))"

definition page_slice :: "nat \<Rightarrow> 'a list \<Rightarrow> 'a list" where
  "page_slice start xs = (if start \<ge> length xs then [] else drop start xs)"

definition encode_rx_channels ::
  "header \<Rightarrow> nat \<Rightarrow> u32 \<Rightarrow> u16 \<Rightarrow> rx_channel list \<Rightarrow> bytes outcome" where
  "encode_rx_channels req start sample_rate bits channels =
     (let slice = page_slice start channels;
          space = min (length slice) 16;
          c = bw_u8 0 (bw_u8 (of_nat space) [])
      in if space = 0 then Ret (rr_encode_ok req c)
         else let c = bw_zeros (space * ITEM) c;
                  pcm_off = of_nat (HEADER_RR + length c);
                  c = bw_u32 sample_rate c;
                  c = bw_u8 1 c;
                  c = bw_u8 1 c;
                  c = bw_u16 bits c;
                  c = bw_u16 0x0400 c;
                  c = bw_u16 bits c;
                  c = bw_u16 bits c;
                  c = bw_u16 PCM_TYPE c
              in obind (rx_channels_loop space pcm_off 0 slice c 0) (\<lambda>(c, count, have_more).
                 obind (set_idx c 1 count) (\<lambda>raw.
                 Ret (rr_encode_code req (if have_more then OPCODE2_MORE else OPCODE2_OK) raw))))"

section \<open>Requests\<close>

record subscribe_req =
  sr_local_id :: u16
  sr_tx_channel :: "rstr option"
  sr_tx_host :: "rstr option"

text \<open>
  The loop of \<open>parse_subscribe\<close>: \<open>k\<close> records still counted, the next at \<open>off\<close>.
\<close>

fun parse_subscribe_loop ::
  "bytes \<Rightarrow> bytes \<Rightarrow> nat \<Rightarrow> nat \<Rightarrow> subscribe_req list \<Rightarrow> subscribe_req list outcome" where
  "parse_subscribe_loop packet content 0 off out = Ret out"
| "parse_subscribe_loop packet content (Suc k) off out =
     (if off + 6 > length content then Ret out
      else obind (idx content off) (\<lambda>a0. obind (idx content (off + 1)) (\<lambda>a1.
           obind (idx content (off + 2)) (\<lambda>b0. obind (idx content (off + 3)) (\<lambda>b1.
           obind (idx content (off + 4)) (\<lambda>c0. obind (idx content (off + 5)) (\<lambda>c1.
           let local_id = from_be16 a0 a1;
               name_off = from_be16 b0 b1;
               host_off = from_be16 c0 c1
           in if local_id = 0 then parse_subscribe_loop packet content k (off + 6) out
              else parse_subscribe_loop packet content k (off + 6)
                (out @ [\<lparr>sr_local_id = local_id, sr_tx_channel = cstr_at packet name_off,
                         sr_tx_host = cstr_at packet host_off\<rparr>]))))))))"

definition parse_subscribe :: "bytes \<Rightarrow> bytes \<Rightarrow> subscribe_req list outcome" where
  "parse_subscribe packet content =
     (if length content < 2 then Ret []
      else obind (idx content 1) (\<lambda>count.
        parse_subscribe_loop packet content (unat count) 2 []))"

record rename_req =
  rn_local_id :: u16
  rn_new_name :: rstr

fun parse_rename_loop ::
  "bytes \<Rightarrow> bytes \<Rightarrow> nat \<Rightarrow> nat \<Rightarrow> rename_req list \<Rightarrow> rename_req list outcome" where
  "parse_rename_loop packet content 0 off out = Ret out"
| "parse_rename_loop packet content (Suc k) off out =
     (if off + 4 > length content then Ret out
      else obind (idx content off) (\<lambda>a0. obind (idx content (off + 1)) (\<lambda>a1.
           obind (idx content (off + 2)) (\<lambda>b0. obind (idx content (off + 3)) (\<lambda>b1.
           let i = from_be16 a0 a1;
               name_off = from_be16 b0 b1
           in if i = 0 then parse_rename_loop packet content k (off + 4) out
              else case cstr_at packet name_off of
                None \<Rightarrow> parse_rename_loop packet content k (off + 4) out
              | Some n \<Rightarrow> parse_rename_loop packet content k (off + 4)
                  (out @ [\<lparr>rn_local_id = i, rn_new_name = n\<rparr>]))))))"

definition parse_rename_rx :: "bytes \<Rightarrow> bytes \<Rightarrow> rename_req list outcome" where
  "parse_rename_rx packet content =
     (if length content < 2 then Ret []
      else obind (idx content 1) (\<lambda>count.
        parse_rename_loop packet content (unat count) 2 []))"

definition parse_unsub_one :: "bytes \<Rightarrow> u16 option outcome" where
  "parse_unsub_one content =
     (if length content < 6 then Ret None
      else obind (idx content 4) (\<lambda>a. obind (idx content 5) (\<lambda>b.
        let i = from_be16 a b in Ret (if i = 0 then None else Some i))))"

section \<open>The receive flow page\<close>

record rx_flow_view =
  fv_flow_id :: u16
  fv_sample_rate :: u32
  fv_bits :: u16
  fv_channels :: "u16 list"
  fv_port :: u16
  fv_ip :: bytes
  fv_latency_ns :: u32

definition channel_mask :: "u16 list \<Rightarrow> u16" where
  "channel_mask ids =
     foldl (\<lambda>mask i. if i > 0 \<and> unat (i - 1) < 16 then mask OR push_bit (unat (i - 1)) 1 else mask) 0 ids"

definition rx_flow_descriptor :: "rx_flow_view \<Rightarrow> be_writer \<Rightarrow> u16 \<times> u16 \<times> u16 \<times> be_writer" where
  \<comment> \<open>one descriptor appended: the offsets of its socket, its mask and its second part\<close>
  "rx_flow_descriptor f c =
     (let nchan = of_nat (length (fv_channels f)) :: u16;
          c = bw_u16 (fv_flow_id f) c;
          c = bw_u16 1 c;
          c = bw_u32 (fv_sample_rate f) c;
          c = bw_u16 0 c;
          c = bw_u16 (fv_bits f) c;
          c = bw_u16 1 c;
          c = bw_u16 nchan c;
          c = bw_u16 1 c;
          c = bw_u16 0 c;
          c = foldl (\<lambda>w _. bw_u16 0 w) c [0..<unat nchan];
          c = bw_u16 0 c;
          c = pad_while 4 0 c;
          sock_off = of_nat (HEADER_RR + length c);
          c = bw_u16 0x0802 c;
          c = bw_u16 (fv_port f) c;
          c = bw_bytes (fv_ip f) c;
          mask = channel_mask (fv_channels f);
          mask_off = of_nat (HEADER_RR + length c);
          c = bw_u16 mask c;
          d2_off = of_nat (HEADER_RR + length c);
          c = bw_u16 9 c;
          c = bw_u16 1 c;
          c = bw_u16 0x0800 c;
          c = bw_u16 0 c;
          c = bw_u32 (fv_latency_ns f) c;
          c = bw_u32 0 c
      in (sock_off, mask_off, d2_off, c))"

text \<open>
  The header starts at \<open>desc_off - HEADER_RR\<close>; the positions in it are computed with the
  subtraction last, which is what the wrapping arithmetic of \<open>usize\<close> comes to.
\<close>

fun rx_flows_loop ::
  "nat \<Rightarrow> nat \<Rightarrow> rx_flow_view list \<Rightarrow> be_writer \<Rightarrow> u8 \<Rightarrow> (be_writer \<times> u8 \<times> bool) outcome" where
  "rx_flows_loop space i [] c count = Ret (c, count, False)"
| "rx_flows_loop space i (f # fs) c count =
     (if i \<ge> space then Ret (c, count, True)
      else let c = pad_while 4 0 c;
               desc_off = of_nat (HEADER_RR + length c) :: u16;
               nchan = of_nat (length (fv_channels f)) :: u16;
               (sock_off, mask_off, d2_off, raw) = rx_flow_descriptor f c
           in obind (set_rng raw (2 + i * 2) (be16 desc_off)) (\<lambda>raw.
              let sock_field = unat desc_off + 16 - HEADER_RR;
                  bit_field = unat desc_off + 18 - HEADER_RR
              in obind (set_rng raw sock_field (be16 sock_off)) (\<lambda>raw.
                 obind (ofold (\<lambda>raw k. set_rng raw (bit_field + 2 * k) (be16 mask_off)) raw [0..<unat nchan]) (\<lambda>raw.
                 obind (set_rng raw (bit_field + 2 * unat nchan) (be16 d2_off)) (\<lambda>raw.
                 rx_flows_loop space (i + 1) fs raw (count + 1))))))"

definition encode_rx_flows :: "header \<Rightarrow> nat \<Rightarrow> rx_flow_view list \<Rightarrow> bytes outcome" where
  "encode_rx_flows req start flows =
     (let slice = page_slice start flows;
          space = min (length slice) 16;
          c = bw_u8 0 (bw_u8 (of_nat space) [])
      in if space = 0 then Ret (rr_encode_ok req c)
         else let c = bw_zeros (space * 2) c
              in obind (rx_flows_loop space 0 slice c 0) (\<lambda>(c, count, have_more).
                 obind (set_idx c 1 count) (\<lambda>raw.
                 Ret (rr_encode_code req (if have_more then OPCODE2_MORE else OPCODE2_OK) raw))))"

section \<open>Parsers\<close>

definition subscribe_record :: "bytes \<Rightarrow> bytes \<Rightarrow> nat \<Rightarrow> subscribe_req" where
  "subscribe_record packet content i =
     (let off = 2 + 6 * i
      in \<lparr>sr_local_id = from_be16 (content ! off) (content ! (off + 1)),
          sr_tx_channel = cstr_at packet (from_be16 (content ! (off + 2)) (content ! (off + 3))),
          sr_tx_host = cstr_at packet (from_be16 (content ! (off + 4)) (content ! (off + 5)))\<rparr>)"

lemma parse_subscribe_loop_eq:
  "parse_subscribe_loop packet content k (2 + 6 * j) out =
     Ret (out @ filter (\<lambda>r. sr_local_id r \<noteq> 0)
       (map (subscribe_record packet content) [j..<j + min k ((length content - (2 + 6 * j)) div 6)]))"
proof (induction k arbitrary: j out)
  case (Suc k)
  show ?case
  proof (cases "2 + 6 * j + 6 > length content")
    case True
    then show ?thesis by simp
  next
    case False
    define n where "n = (length content - (2 + 6 * Suc j)) div 6"
    have n: "(length content - (2 + 6 * j)) div 6 = Suc n"
      using False by (simp add: n_def)
    have "[j..<j + min (Suc k) (Suc n)] = j # [Suc j..<Suc j + min k n]"
      by (simp only: min_Suc_Suc add_Suc_right add_Suc) (rule upt_conv_Cons, simp)
    moreover have "2 + 6 * j + 6 = 2 + 6 * Suc j" by simp
    ultimately show ?thesis
      using False Suc.IH[of "Suc j"] n
      by (simp add: panicfree Let_def subscribe_record_def n_def del: mult_Suc_right)
  qed
qed simp

definition rename_record :: "bytes \<Rightarrow> bytes \<Rightarrow> nat \<Rightarrow> rename_req option" where
  "rename_record packet content i =
     (let off = 2 + 4 * i;
          local_id = from_be16 (content ! off) (content ! (off + 1))
      in if local_id = 0 then None
         else map_option (\<lambda>n. \<lparr>rn_local_id = local_id, rn_new_name = n\<rparr>)
           (cstr_at packet (from_be16 (content ! (off + 2)) (content ! (off + 3)))))"

lemma parse_rename_loop_eq:
  "parse_rename_loop packet content k (2 + 4 * j) out =
     Ret (out @ List.map_filter (rename_record packet content)
       [j..<j + min k ((length content - (2 + 4 * j)) div 4)])"
proof (induction k arbitrary: j out)
  case (Suc k)
  show ?case
  proof (cases "2 + 4 * j + 4 > length content")
    case True
    then show ?thesis by simp
  next
    case False
    define n where "n = (length content - (2 + 4 * Suc j)) div 4"
    have n: "(length content - (2 + 4 * j)) div 4 = Suc n"
      using False by (simp add: n_def)
    have "[j..<j + min (Suc k) (Suc n)] = j # [Suc j..<Suc j + min k n]"
      by (simp only: min_Suc_Suc add_Suc_right add_Suc) (rule upt_conv_Cons, simp)
    moreover have "2 + 4 * j + 4 = 2 + 4 * Suc j" by simp
    ultimately show ?thesis
      using False Suc.IH[of "Suc j"] n
      by (simp add: panicfree Let_def rename_record_def n_def List.map_filter_simps
          del: mult_Suc_right split: option.split)
  qed
qed (simp add: List.map_filter_simps)

lemma parse_subscribe_eq:
  "parse_subscribe packet content =
     Ret (filter (\<lambda>r. sr_local_id r \<noteq> 0)
       (map (subscribe_record packet content)
         [0..<min (unat (content ! 1)) ((length content - 2) div 6)]))"
proof (cases "length content < 2")
  case False
  then show ?thesis
    using parse_subscribe_loop_eq[of packet content "unat (content ! 1)" 0 "[]"]
    by (simp add: parse_subscribe_def panicfree)
qed (simp add: parse_subscribe_def)

text \<open>
  Parsing a subscribe request never panics, whatever the packet. It yields the records
  the count byte announces, as far as the content holds them whole, without those of
  channel 0; the names are what stands at the packet-relative offsets.
\<close>

theorem parse_subscribe_spec:
  "parse_subscribe packet content =
     Ret (filter (\<lambda>r. sr_local_id r \<noteq> 0)
       (map (subscribe_record packet content)
         [0..<min (unat (content ! 1)) ((length content - 2) div 6)]))"
  by (rule parse_subscribe_eq)

lemma parse_rename_rx_spec:
  "parse_rename_rx packet content =
     Ret (List.map_filter (rename_record packet content)
       [0..<min (unat (content ! 1)) ((length content - 2) div 4)])"
proof (cases "length content < 2")
  case False
  then show ?thesis
    using parse_rename_loop_eq[of packet content "unat (content ! 1)" 0 "[]"]
    by (simp add: parse_rename_rx_def panicfree)
qed (simp add: parse_rename_rx_def List.map_filter_simps)

lemma parse_unsub_one_eq:
  "parse_unsub_one c = Ret
     (if 6 \<le> length c \<and> from_be16 (c ! 4) (c ! 5) \<noteq> 0 then Some (from_be16 (c ! 4) (c ! 5)) else None)"
  by (auto simp: parse_unsub_one_def panicfree Let_def)

section \<open>The names reply\<close>

lemma encode_names_layout:
  "encode_names req n = (let
       b = of_nat 48;
       r = of_nat (48 + length (dn_board n) + 1);
       f = of_nat (48 + length (dn_board n) + 1 + length (dn_revision n) + 1);
       a = of_nat (48 + length (dn_board n) + 1 + length (dn_revision n) + 1 + length (dn_friendly n) + 1)
     in Ret (rr_encode_ok req (
       replicate 6 0 @ be16 b @ be16 r @ [0, 0] @ be16 f @ be16 a @ be16 f @ replicate 12 0 @
       be16 0x2729 @ [0, 0] @ be16 0x1102 @ [0, 0] @
       dn_board n @ 0 # dn_revision n @ 0 # dn_friendly n @ 0 # dn_factory n @ [0])))"
proof -
  have z: "replicate 38 0 = [0,0,0,0,0,0, 0,0,0,0, 0,0, 0,0,0,0,0,0, 0,0,0,0,0,0,0,0,0,0,0,0, 0,0,0,0,0,0,0,0 :: u8]"
    by (simp add: eval_nat_numeral)
  show ?thesis
    by (simp add: encode_names_def put_str_def wire set_rng_def HEADER_RR_def z Let_def)
      (simp add: be16_def eval_nat_numeral algebra_simps)
qed

section \<open>The receive channel page: what it holds\<close>

text \<open>
  The strings and the item of one channel whose strings start at content offset \<open>pos\<close>,
  and how many channels of a slice fit a page.
\<close>

definition ch_tx :: "rx_channel \<Rightarrow> (rstr \<times> rstr) option" where
  "ch_tx ch = (case (rc_tx_channel ch, rc_tx_host ch) of (Some n, Some h) \<Rightarrow> Some (n, h) | _ \<Rightarrow> None)"

definition ch_strings :: "rx_channel \<Rightarrow> bytes" where
  "ch_strings ch = rc_friendly ch @ [0] @
     (case ch_tx ch of Some (n, h) \<Rightarrow> n @ [0] @ h @ [0] | None \<Rightarrow> [])"

definition ch_item :: "u16 \<Rightarrow> nat \<Rightarrow> rx_channel \<Rightarrow> bytes" where
  "ch_item pcm_off pos ch = (let l = length (rc_friendly ch) in rx_channel_item ch pcm_off
     (of_nat (10 + pos))
     (case ch_tx ch of Some (n, h) \<Rightarrow> of_nat (10 + pos + l + 1) | None \<Rightarrow> 0)
     (case ch_tx ch of Some (n, h) \<Rightarrow> of_nat (10 + pos + l + 1 + length n + 1) | None \<Rightarrow> 0))"

fun page_fit :: "nat \<Rightarrow> nat \<Rightarrow> rx_channel list \<Rightarrow> nat" where
  "page_fit (Suc k) pos (ch # chs) =
     (if pos \<ge> 800 then 0 else Suc (page_fit k (pos + length (ch_strings ch)) chs))"
| "page_fit _ pos _ = 0"

fun page_items :: "u16 \<Rightarrow> nat \<Rightarrow> rx_channel list \<Rightarrow> bytes list" where
  "page_items pcm_off pos [] = []"
| "page_items pcm_off pos (ch # chs) =
     ch_item pcm_off pos ch # page_items pcm_off (pos + length (ch_strings ch)) chs"

lemma length_rx_channel_item [simp]: "length (rx_channel_item ch p f n h) = 20"
  by (simp add: rx_channel_item_def wire)

lemma length_ch_item [simp]: "length (ch_item p pos ch) = 20"
  by (simp add: ch_item_def Let_def)

lemma length_page_items [simp]: "length (page_items p pos chs) = length chs"
  by (induction chs arbitrary: pos) simp_all

lemma length_concat_page_items [simp]: "length (concat (page_items p pos chs)) = 20 * length chs"
  by (induction chs arbitrary: pos) simp_all

lemma page_fit_le: "page_fit k pos chs \<le> k" "page_fit k pos chs \<le> length chs"
  by (induction k pos chs rule: page_fit.induct) auto

lemma rx_channel_strings_eq:
  "rx_channel_strings ch c = (of_nat (10 + length c),
     (case ch_tx ch of Some (n, h) \<Rightarrow> of_nat (10 + length c + length (rc_friendly ch) + 1) | None \<Rightarrow> 0),
     (case ch_tx ch of Some (n, h) \<Rightarrow> of_nat (10 + length c + length (rc_friendly ch) + 1 + length n + 1) | None \<Rightarrow> 0),
     c @ ch_strings ch)"
  by (auto simp: rx_channel_strings_def ch_tx_def ch_strings_def bw_cstr_def HEADER_RR_def Let_def
      algebra_simps split: option.split)

lemma replicate_split: "k \<noteq> 0 \<Longrightarrow> replicate (k * n) x = replicate n x @ replicate ((k - 1) * n) x"
  by (cases k) (simp_all add: replicate_add)

lemma rx_channels_loop_eq:
  assumes "length P = 2" "length I = 20 * i" "i \<le> space"
  shows "rx_channels_loop space pcm_off i chs (P @ I @ replicate ((space - i) * 20) 0 @ Q) cnt =
    (let pos = 2 + 20 * space + length Q;
         m = page_fit (space - i) pos chs
     in Ret (P @ I @ concat (page_items pcm_off pos (take m chs)) @
             replicate ((space - i - m) * 20) 0 @ Q @ concat (map ch_strings (take m chs)),
             cnt + of_nat m, m < length chs))"
  using assms
proof (induction chs arbitrary: i I Q cnt)
  case Nil
  then show ?case by (cases "space - i") simp_all
next
  case (Cons ch chs)
  define c where "c = P @ I @ replicate ((space - i) * 20) 0 @ Q"
  define pos where "pos = 2 + 20 * space + length Q"
  have lc: "length c = pos"
    using Cons.prems by (simp add: c_def pos_def algebra_simps)
  show ?case
  proof (cases "i < space \<and> pos < 800")
    case False
    then have "page_fit (space - i) pos (ch # chs) = 0"
      by (cases "space - i") auto
    moreover have "rx_channels_loop space pcm_off i (ch # chs) c cnt = Ret (c, cnt, True)"
      using False lc by auto
    ultimately show ?thesis
      by (simp add: c_def pos_def Let_def)
  next
    case True
    define item where "item = ch_item pcm_off pos ch"
    have fit: "page_fit (space - i) pos (ch # chs) =
        Suc (page_fit (space - Suc i) (pos + length (ch_strings ch)) chs)"
      using True by (cases "space - i") (auto simp: diff_Suc)
    have "rx_channels_loop space pcm_off i (ch # chs) c cnt =
        obind (set_rng (c @ ch_strings ch) (2 + i * 20) item)
          (\<lambda>c. rx_channels_loop space pcm_off (Suc i) chs c (cnt + 1))"
      using True unfolding lc[symmetric]
      by (simp add: rx_channel_strings_eq item_def ch_item_def ITEM_def Let_def flip: lc)
    also have "set_rng (c @ ch_strings ch) (2 + i * 20) item =
        Ret (P @ (I @ item) @ replicate ((space - Suc i) * 20) 0 @ (Q @ ch_strings ch))"
      using True Cons.prems
        set_rng_written[of "2 + i * 20" "P @ I" "replicate 20 0" item
          "replicate ((space - Suc i) * 20) 0 @ Q @ ch_strings ch"]
      by (simp add: c_def item_def replicate_split[of "space - i"])
    finally have step: "rx_channels_loop space pcm_off i (ch # chs) c cnt =
        rx_channels_loop space pcm_off (Suc i) chs
          (P @ (I @ item) @ replicate ((space - Suc i) * 20) 0 @ (Q @ ch_strings ch)) (cnt + 1)"
      by simp
    show ?thesis
      unfolding c_def[symmetric] pos_def[symmetric] Let_def step fit
      using True Cons.prems
      by (subst Cons.IH) (simp_all add: Let_def item_def pos_def add.assoc)
  qed
qed

lemma page_fit_pos:
  "j < page_fit k pos chs \<Longrightarrow> pos + length (concat (map ch_strings (take j chs))) < 800"
proof (induction k pos chs arbitrary: j rule: page_fit.induct)
  case (1 k pos ch chs)
  show ?case
  proof (cases j)
    case (Suc i)
    with "1.prems" have "\<not> 800 \<le> pos" "i < page_fit k (pos + length (ch_strings ch)) chs"
      by (auto split: if_splits)
    from "1.IH"[OF this] Suc show ?thesis by (simp add: add.assoc)
  qed (use "1.prems" in \<open>simp split: if_splits\<close>)
qed auto

lemma page_items_nth:
  "j < length chs \<Longrightarrow> page_items p pos chs ! j =
     ch_item p (pos + length (concat (map ch_strings (take j chs)))) (chs ! j)"
proof (induction chs arbitrary: pos j)
  case (Cons ch chs)
  then show ?case by (cases j) (simp_all add: add.assoc)
qed simp

lemma concat_page_items_split:
  assumes "j < length chs"
  shows "\<exists>A B. concat (page_items p pos chs) = A @ page_items p pos chs ! j @ B \<and> length A = 20 * j"
proof -
  have "concat (page_items p pos chs) = concat (take j (page_items p pos chs)) @
      page_items p pos chs ! j @ concat (drop (Suc j) (page_items p pos chs))"
    using assms by (subst id_take_nth_drop[of j]) simp_all
  moreover have "length (concat (take j (page_items p pos chs))) = 20 * j"
    using assms
  proof (induction chs arbitrary: pos j)
    case (Cons ch chs)
    then show ?case by (cases j) simp_all
  qed simp
  ultimately show ?thesis by blast
qed

text \<open>The content of a non-empty page.\<close>

definition page_pcm :: "u32 \<Rightarrow> u16 \<Rightarrow> bytes" where
  "page_pcm rate bits = be32 rate @ [1, 1] @ be16 bits @ be16 0x0400 @ be16 bits @ be16 bits @ be16 PCM_TYPE"

definition page_content :: "u32 \<Rightarrow> u16 \<Rightarrow> rx_channel list \<Rightarrow> nat \<Rightarrow> bytes" where
  "page_content rate bits pg m =
     (let space = min (length pg) 16 in
      [of_nat space, of_nat m] @
      concat (page_items (of_nat (12 + 20 * space)) (2 + 20 * space + 16) (take m pg)) @
      replicate ((space - m) * 20) 0 @ page_pcm rate bits @ concat (map ch_strings (take m pg)))"

definition page_count :: "rx_channel list \<Rightarrow> nat" where
  "page_count pg =
     page_fit (min (length pg) 16) (2 + 20 * min (length pg) 16 + 16) pg"

lemma length_page_pcm [simp]: "length (page_pcm rate bits) = 16"
  by (simp add: page_pcm_def)

lemma page_count_bounds:
  "pg \<noteq> [] \<Longrightarrow> 0 < page_count pg" "page_count pg \<le> length pg" "page_count pg \<le> 16"
proof -
  have "0 < page_count pg" if ne: "pg \<noteq> []"
  proof -
    obtain ch chs where "pg = ch # chs" using ne by (cases pg) auto
    moreover from this obtain k where "min (length pg) 16 = Suc k"
      by (cases "min (length pg) 16") auto
    moreover from this have "Suc k \<le> 16" by (metis min.cobounded2)
    ultimately show ?thesis by (simp add: page_count_def)
  qed
  then show "pg \<noteq> [] \<Longrightarrow> 0 < page_count pg" .
  show "page_count pg \<le> length pg" "page_count pg \<le> 16"
    using page_fit_le unfolding page_count_def by (metis, metis min.boundedE)
qed

lemma encode_rx_channels_layout:
  assumes "start < length chs" "pg = drop start chs" "m = page_count pg"
  shows "encode_rx_channels req start rate bits chs = Ret (rr_encode_code req
    (if start + m < length chs then OPCODE2_MORE else OPCODE2_OK) (page_content rate bits pg m))"
proof -
  define space where "space = min (length pg) 16"
  have sp: "space \<noteq> 0" using assms by (auto simp: space_def)
  have pg: "page_slice start chs = pg" using assms by (simp add: page_slice_def)
  have loop: "rx_channels_loop space (of_nat (12 + 20 * space)) 0 pg
      ([of_nat space, 0] @ [] @ replicate ((space - 0) * 20) 0 @ page_pcm rate bits) 0 =
    Ret ([of_nat space, 0] @ concat (page_items (of_nat (12 + 20 * space)) (2 + 20 * space + 16) (take m pg)) @
      replicate ((space - m) * 20) 0 @ page_pcm rate bits @ concat (map ch_strings (take m pg)),
      of_nat m, m < length pg)"
    by (subst rx_channels_loop_eq) (simp_all add: Let_def assms(3) page_count_def space_def)
  have more: "m < length pg \<longleftrightarrow> start + m < length chs"
    using assms(1,2) by auto
  have "encode_rx_channels req start rate bits chs =
     obind (rx_channels_loop space (of_nat (12 + 20 * space)) 0 pg
      ([of_nat space, 0] @ [] @ replicate ((space - 0) * 20) 0 @ page_pcm rate bits) 0)
      (\<lambda>(c, count, have_more). obind (set_idx c 1 count) (\<lambda>raw.
         Ret (rr_encode_code req (if have_more then OPCODE2_MORE else OPCODE2_OK) raw)))"
    using sp pg
    by (simp add: encode_rx_channels_def space_def[symmetric] Let_def page_pcm_def bw_u8_def bw_u16_def
        bw_u32_def bw_zeros_def HEADER_RR_def ITEM_def mult.commute)
  also have "\<dots> = Ret (rr_encode_code req (if start + m < length chs then OPCODE2_MORE else OPCODE2_OK)
      (page_content rate bits pg m))"
    unfolding loop by (simp add: set_idx_def page_content_def Let_def space_def more)
  finally show ?thesis .
qed

text \<open>
  What a client reads back for the \<open>k\<close>-th item of a page: the id, the friendly name,
  the transmitter's channel and host names, and the status.
\<close>

definition read_rx_item ::
  "bytes \<Rightarrow> bytes \<Rightarrow> nat \<Rightarrow> (u16 \<times> rstr option \<times> rstr option \<times> rstr option \<times> u32) outcome" where
  "read_rx_item pkt c k =
     (let at = 2 + 20 * k
      in obind (rd16 c at) (\<lambda>i. obind (str_field pkt c (at + 10)) (\<lambda>f.
         obind (str_field pkt c (at + 6)) (\<lambda>n. obind (str_field pkt c (at + 8)) (\<lambda>h.
         obind (rd32 c (at + 12)) (\<lambda>st. Ret (i, f, n, h, st)))))))"

definition ch_names_ok :: "rx_channel \<Rightarrow> bool" where
  "ch_names_ok ch \<longleftrightarrow> valid_utf8 (rc_friendly ch) \<and> 0 \<notin> set (rc_friendly ch) \<and>
     (\<forall>n h. ch_tx ch = Some (n, h) \<longrightarrow> valid_utf8 n \<and> 0 \<notin> set n \<and> valid_utf8 h \<and> 0 \<notin> set h) \<and>
     length (ch_strings ch) \<le> 60000"

lemma read_rx_item_at:
  assumes c: "c = A @ ch_item p pos ch @ B" "length A = 2 + 20 * k"
    and pkt: "pkt = S @ ch_strings ch @ T" "length S = 10 + pos"
    and ok: "ch_names_ok ch" "pos < 800"
  shows "read_rx_item pkt c k = Ret (rc_id ch, Some (rc_friendly ch),
     map_option fst (ch_tx ch), map_option snd (ch_tx ch), rc_status ch)"
proof -
  let ?l = "length (rc_friendly ch)"
  have len: "length (ch_strings ch) \<le> 60000"
    using ok by (simp add: ch_names_ok_def)
  have fields: "rd16 c (2 + 20 * k) = Ret (rc_id ch)" "rd32 c (2 + 20 * k + 12) = Ret (rc_status ch)"
    "rd16 c (2 + 20 * k + 10) = Ret (of_nat (10 + pos))"
    "rd16 c (2 + 20 * k + 6) = Ret (case ch_tx ch of Some (n, h) \<Rightarrow> of_nat (10 + pos + ?l + 1) | None \<Rightarrow> 0)"
    "rd16 c (2 + 20 * k + 8) = Ret (case ch_tx ch of Some (n, h) \<Rightarrow> of_nat (10 + pos + ?l + 1 + length n + 1) | None \<Rightarrow> 0)"
    using c(2) by (simp_all add: c(1) ch_item_def rx_channel_item_def bw_u16_def bw_u32_def Let_def
        rd16_Ret rd32_Ret nth_append be16_def be32_def)
  have f: "cstr_at pkt (of_nat (10 + pos)) = Some (rc_friendly ch)"
    by (rule cstr_at_offset[where pre = S])
      (use ok pkt in \<open>auto simp: ch_names_ok_def ch_strings_def\<close>)
  show ?thesis
  proof (cases "ch_tx ch")
    case None
    then show ?thesis
      using fields f by (simp add: read_rx_item_def str_field_def Let_def cstr_at_def del: of_nat_add)
  next
    case (Some nh)
    then obtain n h where nh: "ch_tx ch = Some (n, h)" by (cases nh) auto
    have l2: "?l + 1 + length n + 1 + length h + 1 \<le> 60000"
      using len nh by (simp add: ch_strings_def)
    have "cstr_at pkt (of_nat (10 + pos + ?l + 1)) = Some n"
      by (rule cstr_at_offset[where pre = "S @ rc_friendly ch @ [0]"])
        (use ok pkt nh l2 in \<open>auto simp: ch_names_ok_def ch_strings_def\<close>)
    moreover have "cstr_at pkt (of_nat (10 + pos + ?l + 1 + length n + 1)) = Some h"
      by (rule cstr_at_offset[where pre = "S @ rc_friendly ch @ [0] @ n @ [0]"])
        (use ok pkt nh l2 in \<open>auto simp: ch_names_ok_def ch_strings_def\<close>)
    ultimately show ?thesis
      using fields f nh by (simp add: read_rx_item_def str_field_def Let_def del: of_nat_add)
  qed
qed

lemma encode_rx_channels_reads:
  assumes "start < length chs" and "\<forall>ch \<in> set chs. ch_names_ok ch"
  shows "\<exists>pkt h c m. encode_rx_channels req start rate bits chs = Ret pkt \<and>
    rr_decode pkt = Ret (Some (h, c)) \<and> 0 < m \<and> start + m \<le> length chs \<and>
    c ! 0 = of_nat (min (length chs - start) 16) \<and> c ! 1 = of_nat m \<and> m \<le> 16 \<and>
    h_opcode2 h = (if start + m < length chs then OPCODE2_MORE else OPCODE2_OK) \<and>
    (\<forall>k < m. let ch = chs ! (start + k) in read_rx_item pkt c k =
       Ret (rc_id ch, Some (rc_friendly ch), map_option fst (ch_tx ch), map_option snd (ch_tx ch), rc_status ch))"
proof -
  define pg where "pg = drop start chs"
  define m where "m = page_count pg"
  define space where "space = min (length pg) 16"
  define pos0 where "pos0 = 2 + 20 * space + 16"
  define c where "c = page_content rate bits pg m"
  define code where "code = (if start + m < length chs then OPCODE2_MORE else OPCODE2_OK)"
  define pkt where "pkt = rr_encode_code req code c"
  define its where "its = page_items (of_nat (12 + 20 * space)) pos0 (take m pg)"
  have ne: "pg \<noteq> []" using assms(1) by (simp add: pg_def)
  have m: "0 < m" "m \<le> length pg" "m \<le> 16" "m \<le> space"
    using page_count_bounds[of pg] ne by (simp_all add: m_def space_def)
  have fitm: "m = page_fit space pos0 pg" by (simp add: m_def page_count_def space_def pos0_def)
  have enc: "encode_rx_channels req start rate bits chs = Ret pkt"
    unfolding pkt_def code_def c_def by (rule encode_rx_channels_layout) (simp_all add: assms(1) pg_def m_def)
  have cl: "c = [of_nat space, of_nat m] @ concat its @ replicate ((space - m) * 20) 0 @
      page_pcm rate bits @ concat (map ch_strings (take m pg))"
    by (simp add: c_def page_content_def Let_def space_def its_def pos0_def)
  have pre: "length ([of_nat space, of_nat m] @ concat its @ replicate ((space - m) * 20) 0 @ page_pcm rate bits) = pos0"
    using m by (simp add: its_def pos0_def algebra_simps)
  have last: "pos0 + length (concat (map ch_strings (take (m - 1) pg))) < 800"
    using page_fit_pos[of "m - 1" space pos0 pg] m(1) fitm by simp
  have okn: "ch_names_ok (pg ! k)" if "k < m" for k
    using assms(2) that m(2) by (auto simp: pg_def intro: nth_mem)
  have tm: "take m pg = take (m - 1) pg @ [pg ! (m - 1)]"
    using m take_Suc_conv_app_nth[of "m - 1" pg] by simp
  have "length c = pos0 + length (concat (map ch_strings (take m pg)))"
    using pre by (simp add: cl)
  also have "\<dots> < 60800"
    using last okn[of "m - 1"] m(1) by (simp add: tm ch_names_ok_def)
  finally have lc: "10 + length c < 2 ^ 16" by simp
  obtain h where dec: "rr_decode pkt = Ret (Some (h, c))" "h_opcode2 h = code"
    using rr_decode_encode[OF lc] by (simp add: pkt_def rr_encode_code_def)
  have items: "read_rx_item pkt c k = Ret (rc_id ch, Some (rc_friendly ch),
      map_option fst (ch_tx ch), map_option snd (ch_tx ch), rc_status ch)"
    if k: "k < m" and ch: "ch = chs ! (start + k)" for k ch
  proof -
    define pos where "pos = pos0 + length (concat (map ch_strings (take k pg)))"
    have pk: "ch = pg ! k" using k m(2) assms(1) by (simp add: ch pg_def)
    have "its ! k = ch_item (of_nat (12 + 20 * space)) pos ch"
      using k m(2) by (simp add: its_def page_items_nth pos_def pk min_def)
    then obtain A B where A: "concat its = A @ ch_item (of_nat (12 + 20 * space)) pos ch @ B" "length A = 20 * k"
      using concat_page_items_split[of k "take m pg" "of_nat (12 + 20 * space)" pos0] k m(2)
      by (auto simp: its_def)
    have "take m pg = take k pg @ ch # drop (Suc k) (take m pg)"
      using k m(2) id_take_nth_drop[of k "take m pg"] by (simp add: pk min_def)
    then have strs: "concat (map ch_strings (take m pg)) =
        concat (map ch_strings (take k pg)) @ ch_strings ch @ concat (map ch_strings (drop (Suc k) (take m pg)))"
      by (metis concat.simps(2) concat_append list.simps(9) map_append)
    show ?thesis
    proof (rule read_rx_item_at)
      show "c = ([of_nat space, of_nat m] @ A) @ ch_item (of_nat (12 + 20 * space)) pos ch @
          (B @ replicate ((space - m) * 20) 0 @ page_pcm rate bits @ concat (map ch_strings (take m pg)))"
        by (simp add: cl A)
      show "length ([of_nat space, of_nat m] @ A) = 2 + 20 * k" using A by simp
      show "pkt = (take 10 pkt @ [of_nat space, of_nat m] @ concat its @ replicate ((space - m) * 20) 0 @
          page_pcm rate bits @ concat (map ch_strings (take k pg))) @ ch_strings ch @
          concat (map ch_strings (drop (Suc k) (take m pg)))"
        by (simp add: pkt_def rr_encode_code_def rr_encode_layout cl strs)
      show "length (take 10 pkt @ [of_nat space, of_nat m] @ concat its @ replicate ((space - m) * 20) 0 @
          page_pcm rate bits @ concat (map ch_strings (take k pg))) = 10 + pos"
        using pre by (simp add: pos_def pkt_def rr_encode_code_def)
      show "ch_names_ok ch" using okn[OF k] by (simp add: pk)
      show "pos < 800" using page_fit_pos[of k space pos0 pg] k fitm by (simp add: pos_def)
    qed
  qed
  show ?thesis
    using enc dec m items assms(1) cl
    by (intro exI[of _ pkt] exI[of _ h] exI[of _ c] exI[of _ m]) (simp add: code_def pg_def space_def Let_def)
qed

text \<open>
  C28: a page of receive channels never panics and reads back: for a start inside the list
  it reserves an entry for each channel left, at most 16, as its first byte says, and holds
  at least one channel; its count byte says how many, it holds exactly the
  channels from \<open>start\<close> on in order, each with its id, its names found through the
  packet-relative offsets, and its status; and the reply says "more" exactly when channels
  remain, so that a client paging on from \<open>start + count\<close> sees every channel once. The
  plan's table of the page reserves up to 32 entries, the code 16.
\<close>

theorem rx_page_reads_back:
  assumes "start < length chs" and "\<forall>ch \<in> set chs. ch_names_ok ch"
  shows "\<exists>pkt h c m. encode_rx_channels req start rate bits chs = Ret pkt \<and>
    rr_decode pkt = Ret (Some (h, c)) \<and> 0 < m \<and> start + m \<le> length chs \<and>
    c ! 0 = of_nat (min (length chs - start) 16) \<and> c ! 1 = of_nat m \<and> m \<le> 16 \<and>
    h_opcode2 h = (if start + m < length chs then OPCODE2_MORE else OPCODE2_OK) \<and>
    (\<forall>k < m. let ch = chs ! (start + k) in read_rx_item pkt c k =
       Ret (rc_id ch, Some (rc_friendly ch), map_option fst (ch_tx ch), map_option snd (ch_tx ch), rc_status ch))"
  using assms by (rule encode_rx_channels_reads)

theorem rx_page_reads_back_witness:
  "\<exists>pkt h c m. encode_rx_channels
      \<lparr>h_start_code = 0x2729, h_total_length = 10, h_seqnum = 2, h_opcode1 = OP_RX_CH, h_opcode2 = 0\<rparr>
      0 48000 24
      [\<lparr>rc_id = 1, rc_friendly = lit ''Rx 1'', rc_tx_channel = Some (lit ''L''),
        rc_tx_host = Some (lit ''desk''), rc_status = STATUS_RX_UNICAST\<rparr>,
       \<lparr>rc_id = 2, rc_friendly = lit ''Rx 2'', rc_tx_channel = None, rc_tx_host = None, rc_status = 0\<rparr>] = Ret pkt \<and>
    rr_decode pkt = Ret (Some (h, c)) \<and> 0 < m \<and> m \<le> (2 :: nat) \<and>
    read_rx_item pkt c 0 = Ret (1, Some (lit ''Rx 1''), Some (lit ''L''), Some (lit ''desk''), STATUS_RX_UNICAST)"
proof -
  let ?chs = "[\<lparr>rc_id = 1, rc_friendly = lit ''Rx 1'', rc_tx_channel = Some (lit ''L''),
        rc_tx_host = Some (lit ''desk''), rc_status = STATUS_RX_UNICAST\<rparr>,
       \<lparr>rc_id = 2, rc_friendly = lit ''Rx 2'', rc_tx_channel = None, rc_tx_host = None, rc_status = 0\<rparr>]"
  have s: "0 < length ?chs" by simp
  have ok: "\<forall>ch \<in> set ?chs. ch_names_ok ch"
    by (simp add: ch_names_ok_def ch_tx_def ch_strings_def lit_def)
  let ?req = "\<lparr>h_start_code = 0x2729, h_total_length = 10, h_seqnum = 2, h_opcode1 = OP_RX_CH, h_opcode2 = 0\<rparr>"
  from rx_page_reads_back[OF s ok, of ?req 48000 24] obtain pkt h c m where
    "encode_rx_channels ?req 0 48000 24 ?chs = Ret pkt" "rr_decode pkt = Ret (Some (h, c))" "0 < m" "0 + m \<le> length ?chs"
    and items: "\<forall>k < m. let ch = ?chs ! (0 + k) in read_rx_item pkt c k =
       Ret (rc_id ch, Some (rc_friendly ch), map_option fst (ch_tx ch), map_option snd (ch_tx ch), rc_status ch)"
    by blast
  moreover have "read_rx_item pkt c 0 = Ret (1, Some (lit ''Rx 1''), Some (lit ''L''), Some (lit ''desk''), STATUS_RX_UNICAST)"
    using items[rule_format, OF \<open>0 < m\<close>] by (simp add: ch_tx_def)
  ultimately have "encode_rx_channels ?req 0 48000 24 ?chs = Ret pkt \<and> rr_decode pkt = Ret (Some (h, c)) \<and>
      0 < m \<and> m \<le> 2 \<and>
      read_rx_item pkt c 0 = Ret (1, Some (lit ''Rx 1''), Some (lit ''L''), Some (lit ''desk''), STATUS_RX_UNICAST)"
    by simp
  then show ?thesis by (intro exI)
qed

text \<open>
  The names reply never panics, echoes the request's header and names the device: the
  five offsets of its 38-byte header find the board, the revision, the friendly name, the
  factory name and the friendly name again.
\<close>

theorem names_reply_reads_back:
  assumes "valid_utf8 (dn_board n)" "0 \<notin> set (dn_board n)"
    and "valid_utf8 (dn_revision n)" "0 \<notin> set (dn_revision n)"
    and "valid_utf8 (dn_friendly n)" "0 \<notin> set (dn_friendly n)"
    and "valid_utf8 (dn_factory n)" "0 \<notin> set (dn_factory n)"
    and "length (dn_board n) + length (dn_revision n) + length (dn_friendly n) + length (dn_factory n) + 52 < 2 ^ 16"
  shows "\<exists>pkt h c. encode_names req n = Ret pkt \<and> rr_decode pkt = Ret (Some (h, c)) \<and>
    h_start_code h = h_start_code req \<and> h_seqnum h = h_seqnum req \<and> h_opcode1 h = h_opcode1 req \<and>
    h_opcode2 h = OPCODE2_OK \<and>
    str_field pkt c 6 = Ret (Some (dn_board n)) \<and> str_field pkt c 8 = Ret (Some (dn_revision n)) \<and>
    str_field pkt c 12 = Ret (Some (dn_friendly n)) \<and> str_field pkt c 14 = Ret (Some (dn_factory n)) \<and>
    str_field pkt c 16 = Ret (Some (dn_friendly n))"
proof -
  define b where "b = (48 :: nat)"
  define r where "r = b + length (dn_board n) + 1"
  define f where "f = r + length (dn_revision n) + 1"
  define a where "a = f + length (dn_friendly n) + 1"
  define hd where "hd = replicate 6 0 @ be16 (of_nat b) @ be16 (of_nat r) @ [0, 0] @ be16 (of_nat f) @
    be16 (of_nat a) @ be16 (of_nat f) @ replicate 12 0 @ be16 0x2729 @ [0, 0] @ be16 0x1102 @ [0, 0]"
  define c where "c = hd @ dn_board n @ 0 # dn_revision n @ 0 # dn_friendly n @ 0 # dn_factory n @ [0]"
  define pkt where "pkt = rr_encode_ok req c"
  have enc: "encode_names req n = Ret pkt"
    by (simp add: encode_names_layout Let_def pkt_def c_def hd_def a_def f_def r_def b_def del: of_nat_add)
  have lhd: "length hd = 38" by (simp add: hd_def)
  define H where "H = take 10 pkt"
  have pkt: "pkt = H @ c" "length H = 10"
    by (simp_all add: H_def pkt_def rr_encode_ok_def rr_encode_layout)
  have lc: "10 + length c < 2 ^ 16" using assms(9) by (simp add: c_def lhd)
  have offs: "rd16 c 6 = Ret (of_nat b)" "rd16 c 8 = Ret (of_nat r)" "rd16 c 12 = Ret (of_nat f)"
    "rd16 c 14 = Ret (of_nat a)" "rd16 c 16 = Ret (of_nat f)"
  proof -
    have "replicate 6 0 = [0, 0, 0, 0, 0, 0 :: u8]"
      "replicate 12 0 = [0, 0, 0, 0, 0, 0, 0, 0, 0, 0, 0, 0 :: u8]"
      by (simp_all add: eval_nat_numeral)
    then show "rd16 c 6 = Ret (of_nat b)" "rd16 c 8 = Ret (of_nat r)" "rd16 c 12 = Ret (of_nat f)"
      "rd16 c 14 = Ret (of_nat a)" "rd16 c 16 = Ret (of_nat f)"
      by (simp_all add: c_def hd_def rd16_Ret be16_def)
  qed
  have "cstr_at pkt (of_nat b) = Some (dn_board n)"
    by (rule cstr_at_offset[where pre = "H @ hd"])
      (use assms in \<open>simp_all add: pkt c_def lhd b_def\<close>)
  moreover have "cstr_at pkt (of_nat r) = Some (dn_revision n)"
    by (rule cstr_at_offset[where pre = "H @ hd @ dn_board n @ [0]"])
      (use assms in \<open>simp_all add: pkt c_def lhd r_def b_def\<close>)
  moreover have "cstr_at pkt (of_nat f) = Some (dn_friendly n)"
    by (rule cstr_at_offset[where pre = "H @ hd @ dn_board n @ 0 # dn_revision n @ [0]"])
      (use assms in \<open>simp_all add: pkt c_def lhd f_def r_def b_def\<close>)
  moreover have "cstr_at pkt (of_nat a) = Some (dn_factory n)"
    by (rule cstr_at_offset[where pre = "H @ hd @ dn_board n @ 0 # dn_revision n @ 0 # dn_friendly n @ [0]"])
      (use assms in \<open>simp_all add: pkt c_def lhd a_def f_def r_def b_def\<close>)
  ultimately show ?thesis
    using enc offs rr_decode_encode[OF lc]
    by (auto simp: pkt_def rr_encode_ok_def str_field_def)
qed

theorem names_reply_reads_back_witness:
  "\<exists>pkt h c. encode_names
      \<lparr>h_start_code = 0x2729, h_total_length = 10, h_seqnum = 9, h_opcode1 = OP_NAMES, h_opcode2 = 0\<rparr>
      \<lparr>dn_board = lit ''netaudio-rs'', dn_revision = lit ''0.0.0'', dn_friendly = lit ''myrx'',
       dn_factory = lit ''netaudio-00'' \<rparr> = Ret pkt \<and> rr_decode pkt = Ret (Some (h, c)) \<and>
    str_field pkt c 12 = Ret (Some (lit ''myrx''))"
  using names_reply_reads_back[of
      "\<lparr>dn_board = lit ''netaudio-rs'', dn_revision = lit ''0.0.0'', dn_friendly = lit ''myrx'',
        dn_factory = lit ''netaudio-00''\<rparr>"
      "\<lparr>h_start_code = 0x2729, h_total_length = 10, h_seqnum = 9, h_opcode1 = OP_NAMES, h_opcode2 = 0\<rparr>"]
  by (simp add: lit_def) blast

section \<open>Every page is built\<close>

lemma encode_rx_channels_ok: "\<exists>code c. encode_rx_channels req start rate bits chs = Ret (rr_encode_code req code c)"
proof (cases "start < length chs")
  case True
  then show ?thesis by (subst encode_rx_channels_layout[OF _ refl refl]) blast+
next
  case False
  then have "encode_rx_channels req start rate bits chs = Ret (rr_encode_code req OPCODE2_OK [0, 0])"
    by (simp add: encode_rx_channels_def page_slice_def rr_encode_ok_def rr_encode_code_def bw_u8_def)
  then show ?thesis by blast
qed

lemma rx_flow_descriptor_raw:
  "\<exists>so mo d2 D. rx_flow_descriptor f c = (so, mo, d2, c @ D) \<and>
     22 + 2 * unat (of_nat (length (fv_channels f)) :: u16) \<le> length D"
proof -
  have fold: "foldl (\<lambda>w _. w @ be16 0) w xs = w @ concat (map (\<lambda>_. be16 0) xs)" for w and xs :: "nat list"
    by (induction xs arbitrary: w) simp_all
  have len: "length (concat (map (\<lambda>_. be16 0) (xs :: nat list))) = 2 * length xs" for xs
    by (induction xs) simp_all
  have pad: "\<exists>z. pad_while 4 0 w = w @ z" for w
    using pad_while_ex[of 4 0 w] by auto
  let ?n = "of_nat (length (fv_channels f)) :: u16"
  let ?h = "be16 (fv_flow_id f) @ be16 1 @ be32 (fv_sample_rate f) @ be16 0 @ be16 (fv_bits f) @ be16 1 @
    be16 ?n @ be16 1 @ be16 0 @ concat (map (\<lambda>_. be16 0) [0..<unat ?n]) @ be16 0"
  obtain z where z: "pad_while 4 0 (c @ ?h) = (c @ ?h) @ z" using pad by blast
  then show ?thesis
    by (simp add: rx_flow_descriptor_def Let_def bw_u16_def bw_u32_def bw_bytes_def fold len)
qed

lemma ofold_set_rng_ok:
  "\<forall>k \<in> set ks. p k + length v \<le> n \<Longrightarrow> length raw = n \<Longrightarrow>
   \<exists>r. ofold (\<lambda>raw k. set_rng raw (p k) v) raw ks = Ret r \<and> length r = n"
  by (induction ks arbitrary: raw) (simp_all add: set_rng_def)

lemma rx_flows_loop_ok:
  assumes "2 + 2 * space \<le> length c"
  shows "\<exists>c' n b. rx_flows_loop space i fs c cnt = Ret (c', n, b) \<and> length c \<le> length c'"
  using assms
proof (induction fs arbitrary: i c cnt)
  case (Cons f fs)
  show ?case
  proof (cases "i \<ge> space")
    case False
    obtain z where c1: "pad_while 4 0 c = c @ z" using pad_while_ex[of 4 0 c] by auto
    define c1 where "c1 = pad_while 4 0 c"
    have l1: "length c \<le> length c1" by (simp add: c1_def c1)
    let ?n = "unat (of_nat (length (fv_channels f)) :: u16)"
    let ?o = "of_nat (HEADER_RR + length c1) :: u16"
    obtain so mo d2 D where D: "rx_flow_descriptor f c1 = (so, mo, d2, c1 @ D)" "22 + 2 * ?n \<le> length D"
      using rx_flow_descriptor_raw by blast
    define L where "L = length (c1 @ D)"
    have o: "unat ?o \<le> 10 + length c1"
      by (simp add: HEADER_RR_def unat_of_nat take_bit_eq_mod del: of_nat_add)
    have b: "2 + i * 2 + 2 \<le> L" "unat ?o + 16 - HEADER_RR + 2 \<le> L"
      "unat ?o + 18 - HEADER_RR + 2 * ?n + 2 \<le> L"
      using False Cons.prems l1 D(2) o by (simp_all add: L_def HEADER_RR_def)
    obtain r1 where r1: "set_rng (c1 @ D) (2 + i * 2) (be16 ?o) = Ret r1" "length r1 = L"
      using b(1) by (simp add: set_rng_def L_def)
    obtain r2 where r2: "set_rng r1 (unat ?o + 16 - HEADER_RR) (be16 so) = Ret r2" "length r2 = L"
      using b(2) r1(2) by (simp add: set_rng_def)
    obtain r3 where r3: "ofold (\<lambda>raw k. set_rng raw (unat ?o + 18 - HEADER_RR + 2 * k) (be16 mo)) r2 [0..<?n] = Ret r3"
      "length r3 = L"
      using ofold_set_rng_ok[of "[0..<?n]" "\<lambda>k. unat ?o + 18 - HEADER_RR + 2 * k" "be16 mo" L r2] b(3) r2(2) by auto
    obtain r4 where r4: "set_rng r3 (unat ?o + 18 - HEADER_RR + 2 * ?n) (be16 d2) = Ret r4" "length r4 = L"
      using b(3) r3(2) by (simp add: set_rng_def)
    have "rx_flows_loop space i (f # fs) c cnt = rx_flows_loop space (i + 1) fs r4 (cnt + 1)"
      using False r1(1) r2(1) r3(1) r4(1) by (simp add: Let_def D(1) flip: c1_def)
    moreover have "length c \<le> length r4" using l1 r4(2) by (simp add: L_def)
    moreover from this obtain c' n b where "rx_flows_loop space (i + 1) fs r4 (cnt + 1) = Ret (c', n, b)"
      "length r4 \<le> length c'"
      using Cons.IH[of r4 "i + 1" "cnt + 1"] Cons.prems by auto
    ultimately show ?thesis by auto
  qed (simp, blast)
qed (simp, blast)

lemma encode_rx_flows_ok: "\<exists>code c. encode_rx_flows req start fs = Ret (rr_encode_code req code c)"
proof (cases "min (length (page_slice start fs)) 16 = 0")
  case True
  then have "encode_rx_flows req start fs = Ret (rr_encode_code req OPCODE2_OK [0, 0])"
    by (simp add: encode_rx_flows_def rr_encode_ok_def rr_encode_code_def bw_u8_def)
  then show ?thesis by blast
next
  case False
  define space where "space = min (length (page_slice start fs)) 16"
  obtain c' n b where "rx_flows_loop space 0 (page_slice start fs)
      (bw_zeros (space * 2) (bw_u8 0 (bw_u8 (of_nat space) []))) 0 = Ret (c', n, b)"
    "2 + 2 * space \<le> length c'"
    using rx_flows_loop_ok[of space "bw_zeros (space * 2) (bw_u8 0 (bw_u8 (of_nat space) []))" 0 "page_slice start fs" 0]
    by (auto simp: bw_zeros_def bw_u8_def)
  then show ?thesis
    using False by (auto simp: encode_rx_flows_def Let_def panicfree simp flip: space_def)
qed

text \<open>
  The page of a flow with one channel (every flow of the device has one) does not have
  the layout it is written for. The header is 18 bytes, so the socket offset belongs at 18,
  the mask offset at 20 and the offset of the second part at 22; the code patches one field
  early: the socket offset overwrites the words-per-bitmask field at 16, the other two
  follow, and the last slot keeps its zero.
\<close>

theorem rx_flow_fields_shifted:
  assumes "fv_channels f = [i]" "length (fv_ip f) = 4"
  shows "\<exists>pkt h c. encode_rx_flows req 0 [f] = Ret pkt \<and> rr_decode pkt = Ret (Some (h, c)) \<and>
    rd16 c 2 = Ret 14 \<and> rd16 c 4 = Ret (fv_flow_id f) \<and> rd16 c (4 + 14) = Ret 1 \<and>
    obind (rd16 c (4 + 16)) (\<lambda>off. rd16 pkt (unat off)) = Ret 0x0802 \<and>
    obind (rd16 c (4 + 18)) (\<lambda>off. rd16 pkt (unat off)) = Ret (channel_mask [i]) \<and>
    obind (rd16 c (4 + 20)) (\<lambda>off. rd16 pkt (unat off)) = Ret 9 \<and>
    rd16 c (4 + 22) = Ret 0"
proof -
  obtain a b c d where ip: "fv_ip f = [a, b, c, d]"
    using assms(2) by (auto simp: length_Suc_conv numeral_eq_Suc)
  let ?c = "[1, 1] @ be16 14 @ be16 (fv_flow_id f) @ be16 1 @ be32 (fv_sample_rate f) @ be16 0 @ be16 (fv_bits f) @
    be16 1 @ be16 1 @ be16 38 @ be16 46 @ be16 48 @ be16 0 @ be16 0x0802 @ be16 (fv_port f) @ [a, b, c, d] @
    be16 (channel_mask [i]) @ be16 9 @ be16 1 @ be16 0x0800 @ be16 0 @ be32 (fv_latency_ns f) @ be32 0"
  let ?H = "be16 (fv_flow_id f) @ be16 1 @ be32 (fv_sample_rate f) @ be16 0 @ be16 (fv_bits f) @ be16 1 @ be16 1"
    and ?T = "be16 0x0802 @ be16 (fv_port f) @ [a, b, c, d] @
      be16 (channel_mask [i]) @ be16 9 @ be16 1 @ be16 0x0800 @ be16 0 @ be32 (fv_latency_ns f) @ be32 0"
  have pad: "pad_while 4 0 w = w" if "length w mod 4 = 0" for w
    using that by (simp add: pad_while.simps)
  have desc: "rx_flow_descriptor f [1, 0, 0, 0] =
      (38, 46, 48, [1, 0] @ be16 0 @ ?H @ be16 1 @ be16 0 @ be16 0 @ be16 0 @ ?T)"
    by (simp add: rx_flow_descriptor_def assms(1) ip bw_u16_def bw_u32_def bw_bytes_def pad HEADER_RR_def)
       (simp add: be16_def)
  have s1: "set_rng ([1, 0] @ be16 0 @ ?H @ be16 1 @ be16 0 @ be16 0 @ be16 0 @ ?T) 2 (be16 14) =
      Ret ([1, 0] @ be16 14 @ ?H @ be16 1 @ be16 0 @ be16 0 @ be16 0 @ ?T)"
    by (rule set_rng_written) simp_all
  have s2: "set_rng (([1, 0] @ be16 14 @ ?H) @ be16 1 @ be16 0 @ be16 0 @ be16 0 @ ?T) 20 (be16 38) =
      Ret (([1, 0] @ be16 14 @ ?H) @ be16 38 @ be16 0 @ be16 0 @ be16 0 @ ?T)"
    by (rule set_rng_written) simp_all
  have s3: "set_rng (([1, 0] @ be16 14 @ ?H @ be16 38) @ be16 0 @ be16 0 @ be16 0 @ ?T) 22 (be16 46) =
      Ret (([1, 0] @ be16 14 @ ?H @ be16 38) @ be16 46 @ be16 0 @ be16 0 @ ?T)"
    by (rule set_rng_written) simp_all
  have s4: "set_rng (([1, 0] @ be16 14 @ ?H @ be16 38 @ be16 46) @ be16 0 @ be16 0 @ ?T) 24 (be16 48) =
      Ret (([1, 0] @ be16 14 @ ?H @ be16 38 @ be16 46) @ be16 48 @ be16 0 @ ?T)"
    by (rule set_rng_written) simp_all
  have loop: "rx_flows_loop 1 0 [f] [1, 0, 0, 0] 0 =
      Ret ([1, 0] @ be16 14 @ ?H @ be16 38 @ be16 46 @ be16 48 @ be16 0 @ ?T, 1, False)"
    using desc s1 s2 s3 s4 by (simp add: assms(1) pad HEADER_RR_def Let_def)
  have "encode_rx_flows req 0 [f] = Ret (rr_encode_code req OPCODE2_OK ?c)"
  proof -
    have z: "bw_zeros (1 * 2) (bw_u8 0 (bw_u8 (of_nat 1) [])) = [1, 0, 0, 0]"
      by (simp add: bw_u8_def bw_zeros_def eval_nat_numeral)
    have sp: "page_slice 0 [f] = [f]" "min (length [f]) 16 = 1"
      by (simp_all add: page_slice_def)
    show ?thesis
      unfolding encode_rx_flows_def sp Let_def z loop
      by (simp add: set_idx_def del: rx_flows_loop.simps)
  qed
  moreover have "rr_decode (rr_encode_code req OPCODE2_OK ?c) =
      Ret (Some (\<lparr>h_start_code = h_start_code req, h_total_length = of_nat (10 + length ?c),
        h_seqnum = h_seqnum req, h_opcode1 = h_opcode1 req, h_opcode2 = OPCODE2_OK\<rparr>, ?c))"
    unfolding rr_encode_code_def by (rule rr_decode_encode) simp
  moreover define P where "P = rr_encode_code req OPCODE2_OK ?c"
  moreover define C where "C = ?c"
  moreover have "rd16 C 4 = Ret (fv_flow_id f)"
    by (simp add: C_def rd16_Ret be16_def)
  moreover have "rd16 C 2 = Ret 14" "rd16 C (4 + 14) = Ret 1"
    "rd16 C (4 + 16) = Ret 38" "rd16 C (4 + 18) = Ret 46" "rd16 C (4 + 20) = Ret 48" "rd16 C (4 + 22) = Ret 0"
    by (simp_all add: C_def rd16_Ret be16_def be32_def from_be16_def)
  moreover have "rd16 P 46 = Ret (channel_mask [i])"
    by (simp add: P_def rr_encode_code_def rr_encode_layout rd16_Ret be16_def be32_def)
  moreover have "rd16 P 38 = Ret 0x0802" "rd16 P 48 = Ret 9"
    by (simp_all add: from_be16_def P_def rr_encode_code_def rr_encode_layout rd16_Ret be16_def be32_def)
  ultimately show ?thesis by simp
qed

definition sample_flow :: rx_flow_view where
  "sample_flow = \<lparr>fv_flow_id = 5, fv_sample_rate = 48000, fv_bits = 24, fv_channels = [2], fv_port = 14336,
     fv_ip = [192, 168, 0, 9], fv_latency_ns = 1000000\<rparr>"

definition sample_page_request :: header where
  "sample_page_request = \<lparr>h_start_code = 0x2729, h_total_length = 10, h_seqnum = 7, h_opcode1 = 0x3200, h_opcode2 = 0\<rparr>"

theorem rx_flow_fields_shifted_witness:
  "\<exists>pkt h c. encode_rx_flows sample_page_request 0 [sample_flow] = Ret pkt \<and>
    rr_decode pkt = Ret (Some (h, c)) \<and> rd16 c (4 + 14) = Ret 1 \<and> rd16 c (4 + 22) = Ret 0"
  using rx_flow_fields_shifted[of sample_flow 2 sample_page_request]
  by (simp add: sample_flow_def) blast

end
