(* ===== verification/Pcm.thy ===== *)
theory Pcm
  imports Prelude
begin

text \<open>
  \<open>src/src/protocol/pcm.rs\<close>: big-endian integer PCM of 16, 24 or 32 bits to and
  from left-justified \<open>i32\<close> samples, interleaved.
\<close>

text \<open>A \<open>Sample\<close> is an \<open>i32\<close>: a 32-bit word read with \<open>sint\<close>.\<close>

type_synonym sample = "32 word"

definition promote_16 :: "u8 \<Rightarrow> u8 \<Rightarrow> sample" where
  "promote_16 b0 b1 = push_bit 16 (scast (from_be16 b0 b1))"

definition promote_24 :: "u8 \<Rightarrow> u8 \<Rightarrow> u8 \<Rightarrow> sample" where
  "promote_24 b0 b1 b2 =
     push_bit 24 (scast b0) OR push_bit 16 (ucast b1) OR push_bit 8 (ucast b2)"

definition promote_32 :: "u8 \<Rightarrow> u8 \<Rightarrow> u8 \<Rightarrow> u8 \<Rightarrow> sample" where
  "promote_32 b0 b1 b2 b3 = from_be32 b0 b1 b2 b3"

definition promote_at :: "bytes \<Rightarrow> nat \<Rightarrow> nat \<Rightarrow> sample outcome" where
  \<comment> \<open>the \<open>match bytes_per_sample\<close> of \<open>promote_interleaved\<close>\<close>
  "promote_at bytes bps i =
     (if bps = 2 then
        obind (idx bytes i) (\<lambda>b0. obind (idx bytes (i + 1)) (\<lambda>b1. Ret (promote_16 b0 b1)))
      else if bps = 3 then
        obind (idx bytes i) (\<lambda>b0. obind (idx bytes (i + 1)) (\<lambda>b1.
        obind (idx bytes (i + 2)) (\<lambda>b2. Ret (promote_24 b0 b1 b2))))
      else if bps = 4 then
        obind (idx bytes i) (\<lambda>b0. obind (idx bytes (i + 1)) (\<lambda>b1.
        obind (idx bytes (i + 2)) (\<lambda>b2. obind (idx bytes (i + 3)) (\<lambda>b3.
        Ret (promote_32 b0 b1 b2 b3)))))
      else Ret 0)"

definition promote_interleaved :: "bytes \<Rightarrow> nat \<Rightarrow> nat \<Rightarrow> sample list outcome" where
  "promote_interleaved bytes nchan bps =
     (if nchan = 0 \<or> bps = 0 then Ret []
      else let stride = nchan * bps in
        if stride = 0 then Ret []
        else let frames = length bytes div stride in
          ofold (\<lambda>out f. let base = f * stride in
              ofold (\<lambda>out ch. obind (promote_at bytes bps (base + ch * bps)) (\<lambda>s. Ret (out @ [s])))
                out [0..<nchan])
            [] [0..<frames])"

definition encode_sample :: "sample \<Rightarrow> nat \<Rightarrow> bytes" where
  \<comment> \<open>the \<open>match bytes_per_sample\<close> of \<open>encode_interleaved\<close>\<close>
  "encode_sample s bps =
     (if bps = 2 then be16 (ucast (signed_drop_bit 16 s))
      else if bps = 3 then take 3 (be32 s)
      else if bps = 4 then be32 s
      else [])"

definition encode_interleaved :: "sample list \<Rightarrow> nat \<Rightarrow> nat \<Rightarrow> bytes outcome" where
  "encode_interleaved samples nchan bps =
     (if nchan = 0 then Ret []
      else let frames = length samples div nchan in
        ofold (\<lambda>out f.
            ofold (\<lambda>out ch. obind (idx samples (f * nchan + ch)) (\<lambda>s. Ret (out @ encode_sample s bps)))
              out [0..<nchan])
          [] [0..<frames])"

section \<open>One sample\<close>

definition wire_width :: "nat \<Rightarrow> bool" where
  "wire_width bps \<longleftrightarrow> bps = 2 \<or> bps = 3 \<or> bps = 4"

text \<open>What \<open>promote_at\<close> computes where the sample is inside the buffer.\<close>

definition sample_at :: "bytes \<Rightarrow> nat \<Rightarrow> nat \<Rightarrow> sample" where
  "sample_at bytes bps i = the_ret (promote_at bytes bps i)"

lemma promote_at_Ret: "i + bps \<le> length bytes \<Longrightarrow> promote_at bytes bps i = Ret (sample_at bytes bps i)"
  by (auto simp: sample_at_def promote_at_def panicfree)

text \<open>The low bits, which the wire does not carry, are zero.\<close>

definition left_justified :: "nat \<Rightarrow> sample \<Rightarrow> bool" where
  "left_justified bps s \<longleftrightarrow> take_bit (32 - 8 * bps) s = 0"

definition truncate_sample :: "nat \<Rightarrow> sample \<Rightarrow> sample" where
  "truncate_sample bps s = push_bit (32 - 8 * bps) (drop_bit (32 - 8 * bps) s)"

lemma promote_16_left_justified: "left_justified 2 (promote_16 b0 b1)"
  unfolding left_justified_def promote_16_def
  by (rule bit_word_eqI) (auto simp: bit_simps)

lemma promote_24_left_justified: "left_justified 3 (promote_24 b0 b1 b2)"
  unfolding left_justified_def promote_24_def
  by (rule bit_word_eqI) (auto simp: bit_simps)

lemma sample_at_left_justified:
  assumes "wire_width bps" "i + bps \<le> length bytes"
  shows "left_justified bps (sample_at bytes bps i)"
proof -
  consider "bps = 2" | "bps = 3" | "bps = 4"
    using assms(1) by (auto simp: wire_width_def)
  then show ?thesis
    using assms(2) promote_16_left_justified promote_24_left_justified
    by cases (auto simp: sample_at_def promote_at_def panicfree left_justified_def)
qed

text \<open>The wire form of a sample keeps its high \<open>8 * bps\<close> bits.\<close>

lemma promote_16_encode:
  "promote_16 (ucast (drop_bit 8 (ucast (signed_drop_bit 16 s) :: u16)))
    (ucast (ucast (signed_drop_bit 16 s) :: u16)) = truncate_sample 2 s"
  unfolding promote_16_def truncate_sample_def from_be16_bytes
  by (rule bit_word_eqI) (auto simp: bit_simps)

lemma promote_24_encode:
  "promote_24 (ucast (drop_bit 24 s)) (ucast (drop_bit 16 s)) (ucast (drop_bit 8 s)) =
   truncate_sample 3 s"
proof (rule bit_word_eqI)
  fix n
  assume "n < LENGTH(32)"
  then consider "n < 8" | "8 \<le> n" "n < 16" | "16 \<le> n" "n < 24" | "24 \<le> n" "n < 32"
    by fastforce
  then show "bit (promote_24 (ucast (drop_bit 24 s)) (ucast (drop_bit 16 s)) (ucast (drop_bit 8 s))) n
      = bit (truncate_sample 3 s) n"
    by cases (auto simp: promote_24_def truncate_sample_def bit_simps)
qed

lemma length_encode_sample: "wire_width bps \<Longrightarrow> length (encode_sample s bps) = bps"
  by (auto simp: wire_width_def encode_sample_def)

lemma sample_at_encode:
  assumes "wire_width bps" "length pre = i"
  shows "sample_at (pre @ encode_sample s bps @ post) bps i = truncate_sample bps s"
proof -
  consider "bps = 2" | "bps = 3" | "bps = 4"
    using assms(1) by (auto simp: wire_width_def)
  then show ?thesis
    using assms(2)
    by cases (auto simp: sample_at_def promote_at_def encode_sample_def be16_def be32_def
        panicfree nth_append promote_16_encode promote_24_encode promote_32_def truncate_sample_def)
qed

lemma truncate_left_justified:
  assumes "left_justified bps s"
  shows "truncate_sample bps s = s"
proof (rule bit_word_eqI)
  fix n
  assume "n < LENGTH(32)"
  have "\<not> bit s n" if "n < 32 - 8 * bps"
    using assms that bit_take_bit_iff[of "32 - 8 * bps" s n] by (simp add: left_justified_def)
  then show "bit (truncate_sample bps s) n = bit s n"
    using \<open>n < LENGTH(32)\<close>
    by (cases "n < 32 - 8 * bps") (simp_all add: truncate_sample_def bit_simps)
qed

section \<open>A block of samples\<close>

lemma encode_interleaved_eq:
  "encode_interleaved samples nchan bps =
     Ret (concat (map (\<lambda>k. encode_sample (samples ! k) bps) [0..<length samples div nchan * nchan]))"
proof (cases "nchan = 0")
  case False
  have inner: "ofold (\<lambda>out ch. obind (idx samples (f * nchan + ch)) (\<lambda>s. Ret (out @ encode_sample s bps)))
      out [0..<nchan] = Ret (out @ concat (map (\<lambda>ch. encode_sample (samples ! (f * nchan + ch)) bps) [0..<nchan]))"
    if "f < length samples div nchan" for f out
  proof (rule ofold_extend)
    fix acc ch
    assume "ch \<in> set [0..<nchan]"
    then have "f * nchan + ch < length samples"
      using order_less_le_trans[OF block_index_less[OF that, of ch nchan]
          div_times_less_eq_dividend[of "length samples" nchan]] by simp
    then show "obind (idx samples (f * nchan + ch)) (\<lambda>s. Ret (acc @ encode_sample s bps)) =
        Ret (acc @ encode_sample (samples ! (f * nchan + ch)) bps)"
      by (simp add: idx_def)
  qed
  show ?thesis
    using False
    by (simp add: encode_interleaved_def Let_def)
      (subst ofold_extend, rule inner, simp_all add: concat_blocks[where g = "\<lambda>k. encode_sample (samples ! k) bps"])
qed (simp add: encode_interleaved_def)

lemma promote_interleaved_eq:
  "promote_interleaved bs nchan bps =
     Ret (map (\<lambda>k. sample_at bs bps (k * bps)) [0..<length bs div (nchan * bps) * nchan])"
proof (cases "nchan = 0 \<or> bps = 0")
  case False
  define m where "m = length bs div (nchan * bps)"
  have inner: "ofold (\<lambda>out ch. obind (promote_at bs bps (f * (nchan * bps) + ch * bps)) (\<lambda>s. Ret (out @ [s])))
      out [0..<nchan] = Ret (out @ map (\<lambda>ch. sample_at bs bps ((f * nchan + ch) * bps)) [0..<nchan])"
    if "f < m" for f out
  proof (rule ofold_push)
    fix ch
    assume "ch \<in> set [0..<nchan]"
    then have "Suc (f * nchan + ch) * bps \<le> m * nchan * bps"
      using block_index_less[OF that, of ch nchan] by (intro mult_le_mono1) simp
    also have "\<dots> \<le> length bs"
      using div_times_less_eq_dividend[of "length bs" "nchan * bps"] by (simp add: m_def mult.assoc)
    finally show "promote_at bs bps (f * (nchan * bps) + ch * bps) = Ret (sample_at bs bps ((f * nchan + ch) * bps))"
      by (subst promote_at_Ret) (simp_all add: algebra_simps)
  qed
  show ?thesis
    using False
    by (simp add: promote_interleaved_def Let_def flip: m_def)
      (subst ofold_extend, rule inner, simp_all add: map_blocks[where g = "\<lambda>k. sample_at bs bps (k * bps)"])
qed (auto simp: promote_interleaved_def)

text \<open>
  Decoding interleaved PCM never panics, whatever the packet's length, the channel
  count and the sample width; it yields one sample per channel of every whole frame, in
  wire order, and drops a trailing partial frame.
\<close>

theorem promote_interleaved_spec:
  "promote_interleaved bs nchan bps =
     Ret (map (\<lambda>k. sample_at bs bps (k * bps)) [0..<length bs div (nchan * bps) * nchan])"
  by (rule promote_interleaved_eq)

text \<open>
  C31: encoding samples and decoding the bytes gives the samples of the whole frames back,
  cut to the width of the wire (16, 24 or 32 bits); in particular left-justified samples
  are recovered exactly.
\<close>

theorem pcm_roundtrip:
  assumes "wire_width bps"
  shows "\<exists>bs. encode_interleaved samples nchan bps = Ret bs \<and>
     promote_interleaved bs nchan bps =
       Ret (map (truncate_sample bps) (take (length samples div nchan * nchan) samples))"
proof -
  define m where "m = length samples div nchan * nchan"
  define bs where "bs = concat (map (\<lambda>k. encode_sample (samples ! k) bps) [0..<m])"
  have "bps \<noteq> 0" using assms by (auto simp: wire_width_def)
  have len: "length bs = m * bps"
    using assms by (simp add: bs_def length_concat_const[where n = bps] length_encode_sample)
  have "sample_at bs bps (k * bps) = truncate_sample bps (samples ! k)" if "k < m" for k
    using concat_split_block[OF that, of "\<lambda>k. encode_sample (samples ! k) bps" bps]
      assms length_encode_sample sample_at_encode
    unfolding bs_def by metis
  moreover have "m \<le> length samples" by (simp add: m_def)
  moreover have "length bs div (nchan * bps) * nchan = m"
    using \<open>bps \<noteq> 0\<close> by (simp add: len m_def)
  ultimately have "promote_interleaved bs nchan bps = Ret (map (truncate_sample bps) (take m samples))"
    by (simp add: promote_interleaved_eq) (rule nth_equalityI, simp_all)
  then show ?thesis
    by (auto simp: encode_interleaved_eq bs_def m_def)
qed

theorem pcm_roundtrip_witness:
  "wire_width 3 \<and> (\<exists>bs. encode_interleaved [0x12345678, 0x9ABCDEF0, 0x55555555] 2 3 = Ret bs \<and>
     promote_interleaved bs 2 3 = Ret [0x12345600, 0x9ABCDE00])"
proof -
  have w: "wire_width 3" by (simp add: wire_width_def)
  show ?thesis
    using w pcm_roundtrip[OF w, of "[0x12345678, 0x9ABCDEF0, 0x55555555]" 2]
    by (simp add: truncate_sample_def)
qed

end
