(* ===== verification/Packet_Buffer.thy ===== *)
theory Packet_Buffer
  imports Prelude
begin

text \<open>
  The interface the receiver relies on when it stores packets: a buffer whose contents at a
  key (a channel and a position) is what the packets carry for it, later ones first. What
  follows from the laws alone is proved here once: where the packets agree, the order they
  arrive in and duplicates do not matter.
\<close>

locale packet_buffer =
  fixes ok :: "'b \<Rightarrow> bool"
    and admissible :: "'p \<Rightarrow> bool"
    and store :: "'b \<Rightarrow> 'p \<Rightarrow> 'b"
    and covers :: "'b \<Rightarrow> 'p \<Rightarrow> 'k \<Rightarrow> bool"
    and content :: "'b \<Rightarrow> 'k \<Rightarrow> 'v option"
    and carries :: "'p \<Rightarrow> 'k \<Rightarrow> 'v option"
  assumes store_ok: "ok b \<Longrightarrow> admissible p \<Longrightarrow> ok (store b p)"
    and covers_store: "ok b \<Longrightarrow> admissible p \<Longrightarrow> covers (store b p) q k = covers b q k"
    and content_store: "ok b \<Longrightarrow> admissible p \<Longrightarrow> covers b p k \<Longrightarrow>
      content (store b p) k = (case carries p k of Some v \<Rightarrow> Some v | None \<Rightarrow> content b k)"
begin

lemma run_ok: "ok b \<Longrightarrow> list_all admissible ps \<Longrightarrow> ok (foldl store b ps)"
  by (induction ps arbitrary: b) (simp_all add: store_ok)

lemma covers_run:
  "ok b \<Longrightarrow> list_all admissible ps \<Longrightarrow> covers (foldl store b ps) q k = covers b q k"
  by (induction ps arbitrary: b) (simp_all add: store_ok covers_store)

lemma content_untouched:
  "ok b \<Longrightarrow> list_all admissible ps \<Longrightarrow> \<forall>p \<in> set ps. covers b p k \<and> carries p k = None \<Longrightarrow>
   content (foldl store b ps) k = content b k"
  by (induction ps arbitrary: b) (simp_all add: store_ok covers_store content_store)

lemma content_agreed:
  assumes "ok b" "list_all admissible ps" "\<forall>p \<in> set ps. covers b p k"
    and "\<forall>p \<in> set ps. \<forall>w. carries p k = Some w \<longrightarrow> w = v"
    and "\<exists>p \<in> set ps. carries p k = Some v"
  shows "content (foldl store b ps) k = Some v"
  using assms
proof (induction ps arbitrary: b)
  case (Cons p ps)
  let ?b = "store b p"
  have b: "ok ?b" "\<forall>q \<in> set ps. covers ?b q k"
    using Cons.prems by (simp_all add: store_ok covers_store)
  show ?case
  proof (cases "\<exists>q \<in> set ps. carries q k = Some v")
    case True
    then show ?thesis using Cons.IH[OF b(1) _ b(2)] Cons.prems by simp
  next
    case False
    then have "carries q k = None" if "q \<in> set ps" for q
      using that Cons.prems(4) by (cases "carries q k") auto
    then have none: "\<forall>q \<in> set ps. covers ?b q k \<and> carries q k = None" using b(2) by blast
    then have "content (foldl store ?b ps) k = content ?b k"
      using Cons.prems(2) b(1) by (intro content_untouched) simp_all
    moreover have "carries p k = Some v" using Cons.prems(5) False by auto
    ultimately show ?thesis using Cons.prems by (simp add: content_store)
  qed
qed simp

text \<open>Packets that agree where they overlap can come in any order, and more than once.\<close>

lemma order_irrelevant:
  assumes "ok b" "set ps = set qs" "\<forall>p \<in> set ps. admissible p \<and> covers b p k"
    and "\<forall>p \<in> set ps. \<forall>q \<in> set ps. \<forall>v w. carries p k = Some v \<longrightarrow> carries q k = Some w \<longrightarrow> v = w"
  shows "content (foldl store b ps) k = content (foldl store b qs) k"
proof (cases "\<exists>p \<in> set ps. carries p k \<noteq> None")
  case True
  then obtain p v where p: "p \<in> set ps" "carries p k = Some v" by auto
  have "content (foldl store b rs) k = Some v" if "set rs = set ps" for rs
    using that p assms by (intro content_agreed) (auto simp: list_all_iff)
  then show ?thesis using assms(2) by simp
next
  case False
  have "content (foldl store b rs) k = content b k" if "set rs = set ps" for rs
    using that False assms by (intro content_untouched) (auto simp: list_all_iff)
  then show ?thesis using assms(2) by simp
qed

end

end
