(* ===== verification/Ring.thy ===== *)
theory Ring
  imports Pcm Packet_Buffer
begin

text \<open>
  The sample ring of \<open>src/media/ring.rs\<close>: one lane of samples per receive channel, a flag
  per sample that says whether it was written and not yet read, all lanes indexed by the
  low bits of the sample position. The mutex makes every operation atomic; it is poisoned
  only by a panic under the lock, which the theorems exclude. The time of the last packet
  and the time of a read are nanoseconds of the monotonic clock, arguments here.

  The contents of the ring at a position (\<open>at_pos\<close>) is its abstraction: writing a packet
  updates it where the packet carries a sample inside the window, and reading returns it.
\<close>

section \<open>State\<close>

record ring =
  ring_nchan :: nat
  ring_len :: nat
  ring_mask :: u64
  lanes :: "sample list list"
  filled :: "bool list list"
  patched :: "bool list"
  media_ports :: "u16 list"
  last_packet :: "nat option"

function next_pow2_from :: "nat \<Rightarrow> nat \<Rightarrow> nat" where
  "next_pow2_from p n = (if n \<le> p \<or> p = 0 then p else next_pow2_from (2 * p) n)"
  by pat_completeness auto

termination by (relation "measure (\<lambda>(p, n). n - p)") auto

declare next_pow2_from.simps [simp del]

definition next_power_of_two :: "nat \<Rightarrow> nat" where
  \<comment> \<open>of a \<open>usize\<close>; beyond \<open>2 ^ 63\<close> the power does not fit and wraps to 0\<close>
  "next_power_of_two n = (if 2 ^ 63 < n then 0 else next_pow2_from 1 n)"

definition ring_new :: "nat \<Rightarrow> u64 \<Rightarrow> ring" where
  "ring_new nchan latency_samples =
     (let min_len = 2048;
          need = max (min (unat latency_samples * 4) (2 ^ 64 - 1)) min_len;
          len = max (next_power_of_two need) 2
      in \<lparr> ring_nchan = nchan, ring_len = len, ring_mask = of_nat (len - 1),
           lanes = replicate nchan (replicate len 0),
           filled = replicate nchan (replicate len False),
           patched = replicate nchan False, media_ports = [], last_packet = None \<rparr>)"

section \<open>Operations\<close>

definition set_patched :: "nat \<Rightarrow> bool \<Rightarrow> ring \<Rightarrow> ring" where
  "set_patched ch p r = (if ch < length (patched r) then r\<lparr>patched := (patched r)[ch := p]\<rparr> else r)"

definition any_patched :: "ring \<Rightarrow> bool" where
  "any_patched r = list_ex (\<lambda>p. p) (patched r)"

definition note_port :: "u16 \<Rightarrow> ring \<Rightarrow> ring" where
  "note_port port r =
     (if port \<in> set (media_ports r) then r else r\<lparr>media_ports := media_ports r @ [port]\<rparr>)"

definition bound_media_ports :: "ring \<Rightarrow> u16 list" where
  "bound_media_ports r = media_ports r"

definition get2 :: "'a list list \<Rightarrow> nat \<Rightarrow> nat \<Rightarrow> 'a outcome" where
  "get2 xss i j = obind (idx xss i) (\<lambda>xs. idx xs j)"

definition set2 :: "'a list list \<Rightarrow> nat \<Rightarrow> nat \<Rightarrow> 'a \<Rightarrow> 'a list list outcome" where
  "set2 xss i j v = obind (idx xss i) (\<lambda>xs. obind (set_idx xs j v) (\<lambda>xs. set_idx xss i xs))"

definition wrapped_diff :: "u64 \<Rightarrow> u64 \<Rightarrow> int" where
  "wrapped_diff a b = sint (b - a)"

definition slot_of :: "ring \<Rightarrow> u64 \<Rightarrow> nat" where
  "slot_of r pos = unat (pos AND ring_mask r)"

fun write_lanes :: "sample list \<Rightarrow> nat \<Rightarrow> nat \<Rightarrow> nat \<Rightarrow> nat option list \<Rightarrow> ring \<Rightarrow> ring outcome" where
  "write_lanes xs base slot i [] r = Ret r"
| "write_lanes xs base slot i (None # ms) r = write_lanes xs base slot (i + 1) ms r"
| "write_lanes xs base slot i (Some dev # ms) r =
     (if dev \<ge> ring_nchan r then write_lanes xs base slot (i + 1) ms r
      else obind (idx xs (base + i)) (\<lambda>s.
           obind (set2 (lanes r) dev slot s) (\<lambda>ls.
           obind (set2 (filled r) dev slot True) (\<lambda>fs.
           write_lanes xs base slot (i + 1) ms (r\<lparr>lanes := ls, filled := fs\<rparr>)))))"

definition write_frame ::
  "u64 \<Rightarrow> u64 \<Rightarrow> nat option list \<Rightarrow> sample list \<Rightarrow> nat \<Rightarrow> ring \<Rightarrow> nat \<Rightarrow> ring outcome" where
  "write_frame sample_idx read_pos chmap xs nchan_flow r k =
     (let pos = sample_idx + of_nat k;
          ahead = pos - read_pos
      in if wrapped_diff read_pos pos < 0 then Ret r
         else if unat ahead \<ge> ring_len r then Ret r
         else write_lanes xs (k * nchan_flow) (slot_of r pos) 0 chmap r)"

definition write_packet ::
  "nat \<Rightarrow> u64 \<Rightarrow> u64 \<Rightarrow> nat option list \<Rightarrow> sample list \<Rightarrow> nat \<Rightarrow> ring \<Rightarrow> ring outcome" where
  "write_packet now sample_idx read_pos chmap xs nchan_flow r =
     (if nchan_flow = 0 then Ret r
      else ofold (write_frame sample_idx read_pos chmap xs nchan_flow)
             (r\<lparr>last_packet := Some now\<rparr>) [0..<length xs div nchan_flow])"

text \<open>The two loops of \<open>read\<close>, over the frames and the channels: the ring and the destination.\<close>

definition read_sample ::
  "u64 \<Rightarrow> nat \<Rightarrow> nat \<Rightarrow> ring \<times> sample list \<Rightarrow> nat \<Rightarrow> (ring \<times> sample list) outcome" where
  "read_sample read_pos nchan f st ch =
     (let (r, dst) = st;
          pos = read_pos + of_nat f;
          slot = slot_of r pos
      in obind (get2 (filled r) ch slot) (\<lambda>full.
         obind (if full
                then obind (set2 (filled r) ch slot False) (\<lambda>fs.
                     obind (get2 (lanes r) ch slot) (\<lambda>s. Ret (r\<lparr>filled := fs\<rparr>, s)))
                else Ret (r, 0)) (\<lambda>(r, s).
         obind (set_idx dst (f * nchan + ch) s) (\<lambda>dst. Ret (r, dst)))))"

definition read_frame :: "u64 \<Rightarrow> nat \<Rightarrow> ring \<times> sample list \<Rightarrow> nat \<Rightarrow> (ring \<times> sample list) outcome" where
  "read_frame read_pos nchan st f = ofold (read_sample read_pos nchan f) st [0..<nchan]"

definition ring_read ::
  "nat \<Rightarrow> u64 \<Rightarrow> nat \<Rightarrow> nat \<Rightarrow> sample list \<Rightarrow> ring \<Rightarrow> (ring \<times> sample list \<times> nat \<times> u64) outcome" where
  "ring_read now read_pos nchan max_frames dst r =
     (if \<not> any_patched r then Ret (r, dst, 0, read_pos)
      else case last_packet r of
        None \<Rightarrow> Ret (r, dst, 0, read_pos)
      | Some t \<Rightarrow>
          if now - t > 54000000 \<and> now - t > 60000000 then Ret (r, dst, 0, read_pos)
          else
            (let nchan = min nchan (ring_nchan r);
                 max_frames = min max_frames (length dst div max nchan 1)
             in obind (ofold (read_frame read_pos nchan) (r, dst) [0..<max_frames]) (\<lambda>(r, dst).
                Ret (r, dst, max_frames, read_pos))))"

section \<open>The representation invariant\<close>

definition ring_ok :: "ring \<Rightarrow> bool" where
  "ring_ok r \<longleftrightarrow>
     (\<exists>k < 64. ring_len r = 2 ^ k) \<and> ring_mask r = of_nat (ring_len r - 1) \<and>
     length (lanes r) = ring_nchan r \<and> length (filled r) = ring_nchan r \<and>
     length (patched r) = ring_nchan r \<and>
     (\<forall>l \<in> set (lanes r). length l = ring_len r) \<and> (\<forall>l \<in> set (filled r). length l = ring_len r)"

lemma ring_okD:
  assumes "ring_ok r"
  shows "length (lanes r) = ring_nchan r" "length (filled r) = ring_nchan r"
    "length (patched r) = ring_nchan r"
    "ch < ring_nchan r \<Longrightarrow> length (lanes r ! ch) = ring_len r"
    "ch < ring_nchan r \<Longrightarrow> length (filled r ! ch) = ring_len r"
  using assms by (auto simp: ring_ok_def)

lemma ring_lenE:
  assumes "ring_ok r"
  obtains k where "ring_len r = 2 ^ k" "k < 64"
  using assms by (auto simp: ring_ok_def)

lemma slot_mod:
  assumes "ring_ok r"
  shows "int (slot_of r pos) = uint pos mod int (ring_len r)"
proof -
  from assms obtain k where k: "ring_len r = 2 ^ k" "k < 64" by (rule ring_lenE)
  have "of_nat (2 ^ k - 1) = (mask k :: u64)"
    by (simp add: mask_eq_exp_minus_1 of_nat_diff)
  then have "slot_of r pos = unat (take_bit k pos)"
    using assms k by (simp add: slot_of_def ring_ok_def take_bit_eq_mask)
  then have "int (slot_of r pos) = uint (take_bit k pos)" by simp
  then show ?thesis using k by (simp only: unsigned_take_bit_eq) (simp add: take_bit_eq_mod)
qed

lemma slot_less:
  assumes "ring_ok r" shows "slot_of r pos < ring_len r"
proof -
  have "0 < int (ring_len r)" using assms by (auto simp: ring_ok_def)
  then have "int (slot_of r pos) < int (ring_len r)"
    using pos_mod_bound slot_mod[OF assms] by metis
  then show ?thesis by simp
qed

lemma uint_mod_len:
  assumes "ring_ok r"
  shows "x mod 2 ^ 64 mod int (ring_len r) = x mod int (ring_len r)"
proof -
  from assms obtain k where "ring_len r = 2 ^ k" "k < 64" by (rule ring_lenE)
  then have "int (ring_len r) dvd 2 ^ 64" by (simp add: le_imp_power_dvd del: power_numeral)
  then show ?thesis by (rule mod_mod_cancel)
qed

lemma slot_periodic:
  assumes "ring_ok r"
  shows "slot_of r (pos + of_nat (ring_len r)) = slot_of r pos"
proof -
  from assms obtain k where k: "ring_len r = 2 ^ k" "k < 64" by (rule ring_lenE)
  have "uint (of_nat (ring_len r) :: u64) = int (ring_len r)"
    using k by (simp only: unsigned_of_nat of_nat_take_bit[symmetric]) (simp add: take_bit_int_eq_self del: of_nat_power)
  then have "uint (pos + of_nat (ring_len r)) = (uint pos + int (ring_len r)) mod 2 ^ 64"
    by (simp add: uint_word_ariths)
  then have "int (slot_of r (pos + of_nat (ring_len r))) = int (slot_of r pos)"
    using uint_mod_len[OF assms, of "uint pos + int (ring_len r)"] by (simp add: slot_mod[OF assms])
  then show ?thesis by simp
qed

text \<open>Inside one window of \<open>ring_len\<close> positions no two positions share a slot.\<close>

lemma slot_inj:
  assumes "ring_ok r" "unat (p - base) < ring_len r" "unat (q - base) < ring_len r"
    and "slot_of r p = slot_of r q"
  shows "p = q"
proof -
  have diff: "uint (w - base) mod int (ring_len r) = (uint w - uint base) mod int (ring_len r)" for w
    using uint_mod_len[OF assms(1), of "uint w - uint base"] by (simp add: uint_word_ariths)
  have small: "uint (w - base) mod int (ring_len r) = uint (w - base)" if "unat (w - base) < ring_len r" for w
  proof -
    have "int (unat (w - base)) < int (ring_len r)" using that by (simp only: of_nat_less_iff)
    then show ?thesis by (intro mod_pos_pos_trivial) simp_all
  qed
  have "uint p mod int (ring_len r) = uint q mod int (ring_len r)"
    using assms(4) slot_mod[OF assms(1)] by metis
  then have "(uint p - uint base) mod int (ring_len r) = (uint q - uint base) mod int (ring_len r)"
    by (rule mod_diff_cong) simp
  then have "uint (p - base) = uint (q - base)"
    using diff[of p] diff[of q] small[of p, OF assms(2)] small[of q, OF assms(3)] by (simp only:)
  then have "p - base = q - base" by (simp only: word_uint_eq_iff)
  then show ?thesis by simp
qed

lemma next_pow2_from_pow: "p = 2 ^ j \<Longrightarrow> \<exists>k. next_pow2_from p n = 2 ^ k"
proof (induction p n arbitrary: j rule: next_pow2_from.induct)
  case (1 p n)
  then show ?case
    using "1.IH"[of "Suc j"] by (subst next_pow2_from.simps) auto
qed

lemma next_pow2_from_less: "p \<le> 2 ^ 63 \<Longrightarrow> n \<le> 2 ^ 63 \<Longrightarrow> p = 2 ^ j \<Longrightarrow> next_pow2_from p n \<le> 2 ^ 63"
proof (induction p n arbitrary: j rule: next_pow2_from.induct)
  case (1 p n)
  show ?case
  proof (cases "n \<le> p")
    case False
    then have "p < 2 ^ 63" using "1.prems" by simp
    then have "j < 63" using "1.prems"(3) by (metis power_less_imp_less_exp one_less_numeral_iff semiring_norm(76))
    then have "(2::nat) ^ Suc j \<le> 2 ^ 63" by (intro power_increasing) simp_all
    then show ?thesis
      using "1.IH"[of "Suc j"] False "1.prems" by (subst next_pow2_from.simps) auto
  next
    case True
    then have "next_pow2_from p n = p" by (subst next_pow2_from.simps) simp
    then show ?thesis using "1.prems"(1) by simp
  qed
qed

lemma next_pow2_from_ge: "0 < p \<Longrightarrow> n \<le> next_pow2_from p n"
proof (induction p n rule: next_pow2_from.induct)
  case (1 p n)
  then show ?case by (subst next_pow2_from.simps) auto
qed

lemma ring_new_ok: "ring_ok (ring_new nchan lat)"
proof -
  let ?need = "max (min (unat lat * 4) (2 ^ 64 - 1)) 2048 :: nat"
  let ?len = "max (next_power_of_two ?need) 2"
  have "\<exists>k < 64. ?len = 2 ^ k"
  proof (cases "2 ^ 63 < ?need")
    case True
    then have "?len = 2 ^ 1" unfolding next_power_of_two_def if_P[OF True] by simp
    then show ?thesis by (intro exI[of _ 1]) simp
  next
    case False
    obtain k where k: "next_pow2_from 1 ?need = 2 ^ k" using next_pow2_from_pow[of 1 0] by auto
    have "(2::nat) ^ k \<le> 2 ^ 63"
      using next_pow2_from_less[of 1 ?need 0] False unfolding k by simp
    then have "k \<le> 63" by (meson one_less_numeral_iff power_le_imp_le_exp semiring_norm(76))
    moreover have "2 \<le> (2::nat) ^ k" using next_pow2_from_ge[of 1 ?need] unfolding k by simp
    ultimately show ?thesis
      unfolding next_power_of_two_def if_not_P[OF False] k by (intro exI[of _ k]) simp
  qed
  then show ?thesis by (simp add: ring_ok_def ring_new_def Let_def)
qed

section \<open>Contents\<close>

definition at_slot :: "ring \<Rightarrow> nat \<Rightarrow> nat \<Rightarrow> sample option" where
  "at_slot r ch sl = (if filled r ! ch ! sl then Some (lanes r ! ch ! sl) else None)"

definition at_pos :: "ring \<Rightarrow> nat \<Rightarrow> u64 \<Rightarrow> sample option" where
  "at_pos r ch pos = at_slot r ch (slot_of r pos)"

text \<open>Only lanes and flags differ.\<close>

definition same_frame :: "ring \<Rightarrow> ring \<Rightarrow> bool" where
  "same_frame r r' \<longleftrightarrow> r' = r\<lparr>lanes := lanes r', filled := filled r'\<rparr>"

lemma same_frameD:
  assumes "same_frame r r'"
  shows "ring_nchan r' = ring_nchan r" "ring_len r' = ring_len r" "ring_mask r' = ring_mask r"
    "patched r' = patched r" "media_ports r' = media_ports r" "last_packet r' = last_packet r"
    "slot_of r' pos = slot_of r pos"
  using assms by (cases r; cases r'; simp add: same_frame_def slot_of_def)+

lemma same_frame_refl [simp]: "same_frame r r"
  by (simp add: same_frame_def)

lemma same_frame_trans: "same_frame a b \<Longrightarrow> same_frame b c \<Longrightarrow> same_frame a c"
  by (cases a; cases b; cases c) (simp add: same_frame_def)

lemma get2_Ret [panicfree]: "i < length xss \<Longrightarrow> j < length (xss ! i) \<Longrightarrow> get2 xss i j = Ret (xss ! i ! j)"
  by (simp add: get2_def panicfree)

lemma set2_Ret [panicfree]:
  "i < length xss \<Longrightarrow> j < length (xss ! i) \<Longrightarrow> set2 xss i j v = Ret (xss[i := (xss ! i)[j := v]])"
  by (simp add: set2_def panicfree)

definition put :: "nat \<Rightarrow> nat \<Rightarrow> sample \<Rightarrow> ring \<Rightarrow> ring" where
  "put dev sl s r =
     r\<lparr>lanes := (lanes r)[dev := (lanes r ! dev)[sl := s]],
       filled := (filled r)[dev := (filled r ! dev)[sl := True]]\<rparr>"

definition clear :: "nat \<Rightarrow> nat \<Rightarrow> ring \<Rightarrow> ring" where
  "clear dev sl r = r\<lparr>filled := (filled r)[dev := (filled r ! dev)[sl := False]]\<rparr>"

lemma ball_update: "\<forall>l \<in> set xs. P l \<Longrightarrow> P v \<Longrightarrow> \<forall>l \<in> set (xs[i := v]). P l"
  using set_update_subset_insert[of xs i v] by blast

lemma ring_ok_update:
  assumes "ring_ok r" "length ls = ring_nchan r" "length fs = ring_nchan r"
    "\<forall>l \<in> set ls. length l = ring_len r" "\<forall>l \<in> set fs. length l = ring_len r"
  shows "ring_ok (r\<lparr>lanes := ls, filled := fs\<rparr>)" "ring_ok (r\<lparr>filled := fs\<rparr>)"
  using assms unfolding ring_ok_def by simp_all

lemma ring_ok_lanes:
  assumes "ring_ok r"
  shows "\<forall>l \<in> set (lanes r). length l = ring_len r" "\<forall>l \<in> set (filled r). length l = ring_len r"
  using assms unfolding ring_ok_def by blast+

lemma ring_ok_put:
  assumes "ring_ok r" "dev < ring_nchan r"
  shows "ring_ok (put dev sl s r)"
  unfolding put_def using ring_okD[OF assms(1)] ring_ok_lanes[OF assms(1)] assms(2)
  by (intro ring_ok_update ball_update assms(1)) simp_all

lemma ring_ok_clear:
  assumes "ring_ok r" "dev < ring_nchan r"
  shows "ring_ok (clear dev sl r)"
  unfolding clear_def using ring_okD[OF assms(1)] ring_ok_lanes[OF assms(1)] assms(2)
  by (intro ring_ok_update(2)[OF assms(1), of "lanes r"] ball_update) simp_all

lemma same_frame_put [simp]: "same_frame r (put dev sl s r)"
  by (simp add: same_frame_def put_def)

lemma same_frame_clear [simp]: "same_frame r (clear dev sl r)"
  by (simp add: same_frame_def clear_def)

lemma nth_update2:
  "i < length xss \<Longrightarrow> j < length (xss ! i) \<Longrightarrow>
   xss[i := (xss ! i)[j := v]] ! a ! b = (if a = i \<and> b = j then v else xss ! a ! b)"
  by (cases "a = i") simp_all

lemma at_slot_put:
  assumes "ring_ok r" "dev < ring_nchan r" "sl < ring_len r"
  shows "at_slot (put dev sl s r) ch sl' = (if ch = dev \<and> sl' = sl then Some s else at_slot r ch sl')"
  using ring_okD(1,2,4,5)[OF assms(1)] assms(2,3) by (simp add: at_slot_def put_def nth_update2)

lemma at_slot_clear:
  assumes "ring_ok r" "dev < ring_nchan r" "sl < ring_len r"
  shows "at_slot (clear dev sl r) ch sl' = (if ch = dev \<and> sl' = sl then None else at_slot r ch sl')"
  using ring_okD(1,2,4,5)[OF assms(1)] assms(2,3) by (simp add: at_slot_def clear_def nth_update2)

section \<open>Writing\<close>

text \<open>The last slot of a flow that is mapped to a channel: the one whose sample stays.\<close>

fun lane_src :: "nat \<Rightarrow> nat option list \<Rightarrow> nat \<Rightarrow> nat option" where
  "lane_src i [] ch = None"
| "lane_src i (m # ms) ch =
     (case lane_src (i + 1) ms ch of Some j \<Rightarrow> Some j | None \<Rightarrow> if m = Some ch then Some i else None)"

lemma lane_src_bounds: "lane_src i ms ch = Some j \<Longrightarrow> i \<le> j \<and> j < i + length ms"
  by (induction i ms ch arbitrary: j rule: lane_src.induct) (force split: option.splits if_splits)+

lemma lane_src_nth: "lane_src i ms ch = Some j \<Longrightarrow> ms ! (j - i) = Some ch"
proof (induction i ms ch arbitrary: j rule: lane_src.induct)
  case (2 i m ms ch)
  then show ?case
    using lane_src_bounds[of "i + 1" ms ch]
    by (cases "lane_src (i + 1) ms ch") (fastforce split: if_splits simp: nth_Cons')+
qed simp

lemma write_lanes_spec:
  assumes "ring_ok r" "sl < ring_len r" "base + i + length ms \<le> length xs"
  shows "\<exists>r'. write_lanes xs base sl i ms r = Ret r' \<and> ring_ok r' \<and> same_frame r r' \<and>
    (\<forall>ch < ring_nchan r. \<forall>sl'. at_slot r' ch sl' =
       (case lane_src i ms ch of
          Some j \<Rightarrow> if sl' = sl then Some (xs ! (base + j)) else at_slot r ch sl'
        | None \<Rightarrow> at_slot r ch sl'))"
  using assms
proof (induction ms arbitrary: i r)
  case Nil
  then show ?case by simp
next
  case (Cons m ms)
  have pass: ?case if "write_lanes xs base sl i (m # ms) r = write_lanes xs base sl (i + 1) ms r"
      "\<And>ch. ch < ring_nchan r \<Longrightarrow> m \<noteq> Some ch"
    using Cons.IH[of r "i + 1"] Cons.prems that by (auto split: option.splits)
  show ?case
  proof (cases m)
    case (Some dev)
    show ?thesis
    proof (cases "dev < ring_nchan r")
      case dev: True
      let ?r = "put dev sl (xs ! (base + i)) r"
      have "write_lanes xs base sl i (m # ms) r = write_lanes xs base sl (i + 1) ms ?r"
        using dev Cons.prems ring_okD[OF Cons.prems(1)]
        by (simp add: Some panicfree put_def)
      moreover obtain r' where r': "write_lanes xs base sl (i + 1) ms ?r = Ret r'" "ring_ok r'"
          "same_frame ?r r'"
        and at: "\<forall>ch < ring_nchan ?r. \<forall>sl'. at_slot r' ch sl' =
          (case lane_src (i + 1) ms ch of
             Some j \<Rightarrow> if sl' = sl then Some (xs ! (base + j)) else at_slot ?r ch sl'
           | None \<Rightarrow> at_slot ?r ch sl')"
        using Cons.IH[of ?r "i + 1"] ring_ok_put[OF Cons.prems(1) dev] Cons.prems
          same_frameD[OF same_frame_put[of r dev sl "xs ! (base + i)"]] by auto
      moreover have "same_frame r r'" using r'(3) same_frame_put same_frame_trans by blast
      ultimately show ?thesis
        using at_slot_put[OF Cons.prems(1) dev Cons.prems(2)]
          same_frameD[OF same_frame_put[of r dev sl "xs ! (base + i)"]]
        by (auto simp: Some split: option.splits)
    next
      case False
      then show ?thesis by (intro pass) (auto simp: Some)
    qed
  qed (intro pass; simp)
qed

text \<open>The positions a window from \<open>read_pos\<close> on accepts, and the sample a packet carries for one.\<close>

definition in_window :: "ring \<Rightarrow> u64 \<Rightarrow> u64 \<Rightarrow> bool" where
  "in_window r read_pos pos \<longleftrightarrow> unat (pos - read_pos) < ring_len r"

definition carried :: "u64 \<Rightarrow> nat option list \<Rightarrow> sample list \<Rightarrow> nat \<Rightarrow> nat \<Rightarrow> u64 \<Rightarrow> sample option" where
  "carried sample_idx chmap xs n ch pos =
     (let k = unat (pos - sample_idx)
      in if k < length xs div n
         then map_option (\<lambda>j. xs ! (k * n + j)) (lane_src 0 chmap ch) else None)"

lemma window_accepts:
  assumes "ring_ok r"
  shows "wrapped_diff read_pos pos < 0 \<or> ring_len r \<le> unat (pos - read_pos) \<longleftrightarrow>
         \<not> in_window r read_pos pos"
proof -
  from assms obtain k where k: "ring_len r = 2 ^ k" "k < 64" by (rule ring_lenE)
  then have "ring_len r \<le> 2 ^ 63" by (simp add: power_increasing del: power_numeral)
  moreover have "0 \<le> sint (pos - read_pos)" if "unat (pos - read_pos) < 2 ^ 63"
  proof -
    have "int (unat (pos - read_pos)) < int (2 ^ 63)" using that by (simp only: of_nat_less_iff)
    then have "uint (pos - read_pos) < 2 ^ 63" by simp
    then have "sint (pos - read_pos) = uint (pos - read_pos)" 
      using uint_ge_0[of "pos - read_pos"] by (intro sint_eqI) (simp, linarith, simp)
    then show ?thesis by simp
  qed
  ultimately show ?thesis by (auto simp: in_window_def wrapped_diff_def)
qed

lemma at_pos_slot: "at_pos r ch pos = at_slot r ch (slot_of r pos)"
  by (simp add: at_pos_def)

lemma write_frame_spec:
  fixes idx0 :: u64
  assumes "ring_ok r" "k * n + length chmap \<le> length xs"
  defines "p \<equiv> idx0 + of_nat k"
  shows "\<exists>r'. write_frame idx0 read_pos chmap xs n r k = Ret r' \<and> ring_ok r' \<and> same_frame r r' \<and>
    (\<forall>ch < ring_nchan r. \<forall>pos. in_window r read_pos pos \<longrightarrow> at_pos r' ch pos =
       (case lane_src 0 chmap ch of
          Some j \<Rightarrow> if pos = p then Some (xs ! (k * n + j)) else at_pos r ch pos
        | None \<Rightarrow> at_pos r ch pos))"
proof (cases "in_window r read_pos p")
  case False
  then have "write_frame idx0 read_pos chmap xs n r k = Ret r"
    using window_accepts[OF assms(1), of read_pos p] by (auto simp: write_frame_def p_def Let_def)
  moreover have "pos \<noteq> p" if "in_window r read_pos pos" for pos using that False by blast
  ultimately show ?thesis using assms(1) by (auto split: option.split)
next
  case True
  obtain r' where w: "write_lanes xs (k * n) (slot_of r p) 0 chmap r = Ret r'" "ring_ok r'" "same_frame r r'"
    and at: "\<forall>ch < ring_nchan r. \<forall>sl'. at_slot r' ch sl' =
       (case lane_src 0 chmap ch of
          Some j \<Rightarrow> if sl' = slot_of r p then Some (xs ! (k * n + j)) else at_slot r ch sl'
        | None \<Rightarrow> at_slot r ch sl')"
    using write_lanes_spec[OF assms(1) slot_less[OF assms(1)], of "k * n" 0 chmap xs p] assms(2) by auto
  have "write_frame idx0 read_pos chmap xs n r k = Ret r'"
    using True window_accepts[OF assms(1), of read_pos p] w(1)
    by (simp add: write_frame_def p_def Let_def)
  moreover have "slot_of r pos = slot_of r p \<longleftrightarrow> pos = p" if "in_window r read_pos pos" for pos
    using slot_inj[OF assms(1)] that True by (auto simp: in_window_def)
  ultimately show ?thesis
    using w(2,3) at same_frameD(7)[OF w(3)] by (auto simp: at_pos_slot split: option.splits)
qed

lemma in_window_same: "same_frame r r' \<Longrightarrow> in_window r' = in_window r"
  by (auto simp: in_window_def fun_eq_iff dest: same_frameD(2))

text \<open>The loop over the first \<open>m\<close> frames.\<close>

lemma write_frames_spec:
  assumes "ring_ok r" "m * n \<le> length xs" "length chmap \<le> n" "m \<le> 2 ^ 64"
  shows "\<exists>r'. ofold (write_frame idx0 read_pos chmap xs n) r [0..<m] = Ret r' \<and> ring_ok r' \<and>
    same_frame r r' \<and>
    (\<forall>ch < ring_nchan r. \<forall>pos. in_window r read_pos pos \<longrightarrow> at_pos r' ch pos =
       (case lane_src 0 chmap ch of
          Some j \<Rightarrow> if unat (pos - idx0) < m then Some (xs ! (unat (pos - idx0) * n + j)) else at_pos r ch pos
        | None \<Rightarrow> at_pos r ch pos))"
  using assms(2,4)
proof (induction m)
  case 0
  then show ?case using assms(1) by (auto split: option.splits)
next
  case (Suc m)
  then obtain r1 where r1: "ofold (write_frame idx0 read_pos chmap xs n) r [0..<m] = Ret r1" "ring_ok r1"
      "same_frame r r1"
    and at1: "\<And>ch pos. ch < ring_nchan r \<Longrightarrow> in_window r read_pos pos \<Longrightarrow> at_pos r1 ch pos =
       (case lane_src 0 chmap ch of
          Some j \<Rightarrow> if unat (pos - idx0) < m then Some (xs ! (unat (pos - idx0) * n + j)) else at_pos r ch pos
        | None \<Rightarrow> at_pos r ch pos)"
    by auto
  have "m * n + length chmap \<le> length xs" using Suc.prems assms(3) by simp
  then obtain r2 where r2: "write_frame idx0 read_pos chmap xs n r1 m = Ret r2" "ring_ok r2" "same_frame r1 r2"
    and at2: "\<And>ch pos. ch < ring_nchan r1 \<Longrightarrow> in_window r1 read_pos pos \<Longrightarrow> at_pos r2 ch pos =
       (case lane_src 0 chmap ch of
          Some j \<Rightarrow> if pos = idx0 + of_nat m then Some (xs ! (m * n + j)) else at_pos r1 ch pos
        | None \<Rightarrow> at_pos r1 ch pos)"
    using write_frame_spec[OF r1(2), of m n chmap xs idx0 read_pos] by blast
  have m: "unat (of_nat m :: u64) = m" using Suc.prems by (intro unat_of_nat_u64) simp
  have p: "pos = idx0 + of_nat m \<longleftrightarrow> unat (pos - idx0) = m" for pos
  proof
    assume "unat (pos - idx0) = m"
    then have "of_nat m = (of_nat (unat (pos - idx0)) :: u64)" by simp
    also have "\<dots> = pos - idx0" by simp
    finally have "of_nat m = pos - idx0" .
    then show "pos = idx0 + of_nat m" by simp
  qed (simp add: m)
  have "at_pos r2 ch pos =
       (case lane_src 0 chmap ch of
          Some j \<Rightarrow> if unat (pos - idx0) < Suc m then Some (xs ! (unat (pos - idx0) * n + j)) else at_pos r ch pos
        | None \<Rightarrow> at_pos r ch pos)" if "ch < ring_nchan r" "in_window r read_pos pos" for ch pos
    using at1[OF that] at2[of ch pos] that same_frameD(1)[OF r1(3)] in_window_same[OF r1(3)] p[of pos]
    by (auto simp: less_Suc_eq split: option.splits)
  then show ?case
    using r1 r2 same_frame_trans[OF r1(3) r2(3)] by (simp add: ofold_append)
qed

lemma write_packet_spec:
  assumes "ring_ok r" "length chmap \<le> n" "0 < n" "length xs < 2 ^ 64"
  shows "\<exists>r'. write_packet now idx0 read_pos chmap xs n r = Ret r' \<and> ring_ok r' \<and>
    same_frame (r\<lparr>last_packet := Some now\<rparr>) r' \<and>
    (\<forall>ch < ring_nchan r. \<forall>pos. in_window r read_pos pos \<longrightarrow> at_pos r' ch pos =
       (case carried idx0 chmap xs n ch pos of Some s \<Rightarrow> Some s | None \<Rightarrow> at_pos r ch pos))"
proof -
  let ?r = "r\<lparr>last_packet := Some now\<rparr>"
  have ok: "ring_ok ?r" using assms(1) by (simp add: ring_ok_def)
  have len: "length xs div n \<le> 2 ^ 64"
    using assms(4) div_le_dividend[of "length xs" n] by linarith
  have same: "at_pos ?r = at_pos r" "in_window ?r = in_window r" "ring_nchan ?r = ring_nchan r"
    by (simp_all add: at_pos_def at_slot_def slot_of_def in_window_def fun_eq_iff)
  from write_frames_spec[OF ok _ assms(2) len, of xs idx0 read_pos]
  obtain r' where r': "ofold (write_frame idx0 read_pos chmap xs n) ?r [0..<length xs div n] = Ret r'"
      "ring_ok r'" "same_frame ?r r'"
    and at: "\<And>ch pos. ch < ring_nchan r \<Longrightarrow> in_window r read_pos pos \<Longrightarrow> at_pos r' ch pos =
       (case lane_src 0 chmap ch of
          Some j \<Rightarrow> if unat (pos - idx0) < length xs div n then Some (xs ! (unat (pos - idx0) * n + j))
                    else at_pos r ch pos
        | None \<Rightarrow> at_pos r ch pos)"
    unfolding same by (auto simp: div_times_less_eq_dividend)
  then have "at_pos r' ch pos =
       (case carried idx0 chmap xs n ch pos of Some s \<Rightarrow> Some s | None \<Rightarrow> at_pos r ch pos)"
    if "ch < ring_nchan r" "in_window r read_pos pos" for ch pos
    using that by (auto simp: carried_def Let_def split: option.splits)
  with r' assms(3) show ?thesis by (simp add: write_packet_def)
qed

section \<open>Reading\<close>

definition heard :: "sample option \<Rightarrow> sample" where
  \<comment> \<open>a sample that is not there is heard as silence\<close>
  "heard v = (case v of Some s \<Rightarrow> s | None \<Rightarrow> 0)"

lemma heard_simps [simp]: "heard None = 0" "heard (Some s) = s"
  by (simp_all add: heard_def)

lemma read_sample_spec:
  fixes read_pos :: u64
  assumes "ring_ok r" "ch < ring_nchan r" "f * n + ch < length dst"
  defines "sl \<equiv> slot_of r (read_pos + of_nat f)"
  shows "\<exists>r'. read_sample read_pos n f (r, dst) ch =
      Ret (r', dst[f * n + ch := heard (at_slot r ch sl)]) \<and> ring_ok r' \<and> same_frame r r' \<and>
      (\<forall>ch' sl'. at_slot r' ch' sl' = (if ch' = ch \<and> sl' = sl then None else at_slot r ch' sl'))"
proof -
  have sl: "sl < ring_len r" using slot_less[OF assms(1)] by (simp add: sl_def)
  note d = ring_okD(1,2,4,5)[OF assms(1)]
  show ?thesis
  proof (cases "filled r ! ch ! sl")
    case True
    then have "read_sample read_pos n f (r, dst) ch =
        Ret (clear ch sl r, dst[f * n + ch := heard (at_slot r ch sl)])"
      using d sl assms(2,3)
      by (simp add: read_sample_def panicfree at_slot_def clear_def flip: sl_def)
    then show ?thesis
      using ring_ok_clear[OF assms(1,2)] at_slot_clear[OF assms(1,2) sl]
      by (intro exI[of _ "clear ch sl r"]) simp
  next
    case False
    then have "read_sample read_pos n f (r, dst) ch = Ret (r, dst[f * n + ch := heard (at_slot r ch sl)])"
      using d sl assms(2,3) by (simp add: read_sample_def panicfree at_slot_def flip: sl_def)
    moreover have "at_slot r ch sl = None" using False by (simp add: at_slot_def)
    ultimately show ?thesis using assms(1) by (intro exI[of _ r]) simp
  qed
qed

lemma read_channels_spec:
  fixes read_pos :: u64
  assumes "ring_ok r" "c \<le> ring_nchan r" "f * n + c \<le> length dst"
  defines "sl \<equiv> slot_of r (read_pos + of_nat f)"
  shows "\<exists>r' dst'. ofold (read_sample read_pos n f) (r, dst) [0..<c] = Ret (r', dst') \<and> ring_ok r' \<and>
      same_frame r r' \<and> length dst' = length dst \<and>
      (\<forall>i < length dst. dst' ! i =
         (if f * n \<le> i \<and> i < f * n + c then heard (at_slot r (i - f * n) sl) else dst ! i)) \<and>
      (\<forall>ch' sl'. at_slot r' ch' sl' = (if ch' < c \<and> sl' = sl then None else at_slot r ch' sl'))"
  using assms(2,3)
proof (induction c)
  case 0
  then show ?case using assms(1) by auto
next
  case (Suc c)
  then obtain r1 dst1 where 1: "ofold (read_sample read_pos n f) (r, dst) [0..<c] = Ret (r1, dst1)" "ring_ok r1"
      "same_frame r r1" "length dst1 = length dst"
      "\<forall>i < length dst. dst1 ! i =
         (if f * n \<le> i \<and> i < f * n + c then heard (at_slot r (i - f * n) sl) else dst ! i)"
      "\<forall>ch' sl'. at_slot r1 ch' sl' = (if ch' < c \<and> sl' = sl then None else at_slot r ch' sl')"
    by auto
  have s1: "slot_of r1 (read_pos + of_nat f) = sl"
    using same_frameD(7)[OF 1(3)] by (simp add: sl_def)
  have b: "c < ring_nchan r1" "f * n + c < length dst1"
    using Suc.prems 1(3,4) by (simp_all add: same_frameD)
  then obtain r2 where 2: "read_sample read_pos n f (r1, dst1) c =
        Ret (r2, dst1[f * n + c := heard (at_slot r1 c sl)])" "ring_ok r2" "same_frame r1 r2"
      "\<forall>ch' sl'. at_slot r2 ch' sl' = (if ch' = c \<and> sl' = sl then None else at_slot r1 ch' sl')"
    using read_sample_spec[OF 1(2) b, of read_pos] unfolding s1 by blast
  have "\<forall>i < length dst. dst1[f * n + c := heard (at_slot r1 c sl)] ! i =
      (if f * n \<le> i \<and> i < f * n + Suc c then heard (at_slot r (i - f * n) sl) else dst ! i)"
    using 1(4,5,6) by (auto simp: nth_list_update less_Suc_eq)
  then show ?case
    using 1 2 same_frame_trans[OF 1(3) 2(3)] by (simp add: ofold_append less_Suc_eq)
qed

text \<open>
  A block read: the destination, and what is left in the ring. Frames beyond a ring's length
  would meet slots the block has already consumed.
\<close>

lemma slot_other:
  assumes "ring_ok r" "m < ring_len r" "f < m" "m < 2 ^ 64"
  shows "slot_of r (base + of_nat m) \<noteq> slot_of r (base + of_nat f)"
proof
  assume "slot_of r (base + of_nat m) = slot_of r (base + of_nat f)"
  moreover have "unat (of_nat m :: u64) = m" "unat (of_nat f :: u64) = f"
    using assms(3,4) by (intro unat_of_nat_u64; simp)+
  ultimately have "base + of_nat m = base + (of_nat f :: u64)"
    using assms(2,3) by (intro slot_inj[OF assms(1), of _ base]) simp_all
  then have "unat (of_nat m :: u64) = unat (of_nat f :: u64)" by simp
  then show False using \<open>unat (of_nat m :: u64) = m\<close> \<open>unat (of_nat f :: u64) = f\<close> assms(3) by simp
qed

lemma read_frames_spec:
  fixes read_pos :: u64
  assumes "ring_ok r" "n \<le> ring_nchan r" "m * n \<le> length dst" "m \<le> ring_len r"
  shows "\<exists>r' dst'. ofold (read_frame read_pos n) (r, dst) [0..<m] = Ret (r', dst') \<and> ring_ok r' \<and>
      same_frame r r' \<and> length dst' = length dst \<and>
      (\<forall>f < m. \<forall>ch < n. dst' ! (f * n + ch) = heard (at_pos r ch (read_pos + of_nat f))) \<and>
      (\<forall>i < length dst. m * n \<le> i \<longrightarrow> dst' ! i = dst ! i) \<and>
      (\<forall>ch' sl'. at_slot r' ch' sl' =
         (if ch' < n \<and> (\<exists>f < m. sl' = slot_of r (read_pos + of_nat f)) then None else at_slot r ch' sl'))"
  using assms(3,4)
proof (induction m)
  case 0
  then show ?case using assms(1) by simp
next
  case (Suc m)
  then obtain r1 dst1 where 1: "ofold (read_frame read_pos n) (r, dst) [0..<m] = Ret (r1, dst1)" "ring_ok r1"
      "same_frame r r1" "length dst1 = length dst"
      "\<forall>f < m. \<forall>ch < n. dst1 ! (f * n + ch) = heard (at_pos r ch (read_pos + of_nat f))"
      "\<forall>i < length dst. m * n \<le> i \<longrightarrow> dst1 ! i = dst ! i"
      "\<forall>ch' sl'. at_slot r1 ch' sl' =
         (if ch' < n \<and> (\<exists>f < m. sl' = slot_of r (read_pos + of_nat f)) then None else at_slot r ch' sl')"
    by auto
  let ?sl = "slot_of r (read_pos + of_nat m)"
  have s1: "slot_of r1 (read_pos + of_nat m) = ?sl" using same_frameD(7)[OF 1(3)] .
  have b: "n \<le> ring_nchan r1" "m * n + n \<le> length dst1"
    using assms(2) Suc.prems 1(3,4) by (simp_all add: same_frameD add.commute)
  from read_channels_spec[OF 1(2) b, of read_pos]
  obtain r2 dst2 where 2: "read_frame read_pos n (r1, dst1) m = Ret (r2, dst2)" "ring_ok r2"
      "same_frame r1 r2" "length dst2 = length dst"
      "\<forall>i < length dst. dst2 ! i =
         (if m * n \<le> i \<and> i < m * n + n then heard (at_slot r1 (i - m * n) ?sl) else dst1 ! i)"
      "\<forall>ch' sl'. at_slot r2 ch' sl' = (if ch' < n \<and> sl' = ?sl then None else at_slot r1 ch' sl')"
    unfolding s1 1(4) by (auto simp: read_frame_def)
  have fresh: "at_slot r1 ch ?sl = at_slot r ch ?sl" for ch
  proof -
    obtain k where k: "ring_len r = 2 ^ k" "k < 64" using ring_lenE[OF assms(1)] .
    have "(2::nat) ^ k \<le> 2 ^ 64" using k(2) by (intro power_increasing) simp_all
    then have "m < 2 ^ 64" using Suc.prems(2) k(1) by linarith
    then have "\<forall>f < m. ?sl \<noteq> slot_of r (read_pos + of_nat f)"
      using slot_other[OF assms(1), of m] Suc.prems(2) by auto
    then show ?thesis using 1(7) by auto
  qed
  have "dst2 ! (f * n + ch) = heard (at_pos r ch (read_pos + of_nat f))" if "f < Suc m" "ch < n" for f ch
  proof (cases "f = m")
    case True
    then show ?thesis using 2(5) b 1(4) that fresh by (simp add: at_pos_slot)
  next
    case False
    then have "f < m" using that by simp
    moreover from this have "f * n + ch < m * n" using that(2) by (rule block_index_less)
    ultimately show ?thesis using 2(5) 1(5) b 1(4) that by simp
  qed
  moreover have "\<forall>i < length dst. Suc m * n \<le> i \<longrightarrow> dst2 ! i = dst ! i" using 2(5) 1(6) by auto
  moreover have "\<forall>ch' sl'. at_slot r2 ch' sl' =
      (if ch' < n \<and> (\<exists>f < Suc m. sl' = slot_of r (read_pos + of_nat f)) then None else at_slot r ch' sl')"
    using 2(6) 1(7) by (auto simp: less_Suc_eq)
  ultimately show ?case
    using 1(1) 2(1,2,4) same_frame_trans[OF 1(3) 2(3)] by (simp add: ofold_append)
qed

section \<open>The ring as a packet buffer\<close>

record packet =
  pk_now :: nat
  pk_index :: u64
  pk_read_pos :: u64
  pk_map :: "nat option list"
  pk_samples :: "sample list"
  pk_nchan :: nat

definition ring_store :: "ring \<Rightarrow> packet \<Rightarrow> ring outcome" where
  "ring_store r p =
     write_packet (pk_now p) (pk_index p) (pk_read_pos p) (pk_map p) (pk_samples p) (pk_nchan p) r"

definition packet_ok :: "packet \<Rightarrow> bool" where
  "packet_ok p \<longleftrightarrow> 0 < pk_nchan p \<and> length (pk_map p) \<le> pk_nchan p \<and> length (pk_samples p) < 2 ^ 64"

definition packet_carries :: "packet \<Rightarrow> nat \<times> u64 \<Rightarrow> sample option" where
  "packet_carries p k = carried (pk_index p) (pk_map p) (pk_samples p) (pk_nchan p) (fst k) (snd k)"

definition packet_covers :: "ring \<Rightarrow> packet \<Rightarrow> nat \<times> u64 \<Rightarrow> bool" where
  "packet_covers r p k \<longleftrightarrow> fst k < ring_nchan r \<and> in_window r (pk_read_pos p) (snd k)"

lemma ring_store_spec:
  assumes "ring_ok r" "packet_ok p"
  shows "\<exists>r'. ring_store r p = Ret r' \<and> ring_ok r' \<and> packet_covers r' = packet_covers r \<and>
     patched r' = patched r \<and> ring_len r' = ring_len r \<and> ring_nchan r' = ring_nchan r \<and>
     last_packet r' = Some (pk_now p) \<and>
     (\<forall>ch pos. packet_covers r p (ch, pos) \<longrightarrow>
       at_pos r' ch pos = (case packet_carries p (ch, pos) of Some v \<Rightarrow> Some v | None \<Rightarrow> at_pos r ch pos))"
proof -
  from write_packet_spec[OF assms(1), of "pk_map p" "pk_nchan p" "pk_samples p" "pk_now p" "pk_index p"
      "pk_read_pos p"] assms(2)
  obtain r' where r': "ring_store r p = Ret r'" "ring_ok r'" "same_frame (r\<lparr>last_packet := Some (pk_now p)\<rparr>) r'"
    and at: "\<forall>ch < ring_nchan r. \<forall>pos. in_window r (pk_read_pos p) pos \<longrightarrow> at_pos r' ch pos =
       (case carried (pk_index p) (pk_map p) (pk_samples p) (pk_nchan p) ch pos of
          Some s \<Rightarrow> Some s | None \<Rightarrow> at_pos r ch pos)"
    by (auto simp: packet_ok_def ring_store_def)
  note d = same_frameD[OF r'(3)]
  have "packet_covers r' = packet_covers r" by (simp add: packet_covers_def in_window_def fun_eq_iff d)
  then show ?thesis using r'(1,2) d at by (simp add: packet_covers_def packet_carries_def)
qed

interpretation ring_buffer: packet_buffer ring_ok packet_ok "\<lambda>r p. the_ret (ring_store r p)" packet_covers
  "\<lambda>r. case_prod (at_pos r)" packet_carries
proof
  fix r p k q
  assume r: "ring_ok r" "packet_ok p"
  from ring_store_spec[OF r] show "ring_ok (the_ret (ring_store r p))" by auto
  from ring_store_spec[OF r] show "packet_covers (the_ret (ring_store r p)) q k = packet_covers r q k" by auto
  assume "packet_covers r p k"
  moreover obtain ch pos where "k = (ch, pos)" by (cases k)
  ultimately show "case_prod (at_pos (the_ret (ring_store r p))) k =
      (case packet_carries p k of Some v \<Rightarrow> Some v | None \<Rightarrow> case_prod (at_pos r) k)"
    using ring_store_spec[OF r] by auto
qed

lemma ring_store_run:
  "ring_ok r \<Longrightarrow> list_all packet_ok ps \<Longrightarrow>
   ofold ring_store r ps = Ret (foldl (\<lambda>r p. the_ret (ring_store r p)) r ps)"
proof (induction ps arbitrary: r)
  case (Cons p ps)
  then obtain r' where "ring_store r p = Ret r'" "ring_ok r'" using ring_store_spec[of r p] by auto
  then show ?case using Cons by simp
qed simp

text \<open>
  C36: packets may arrive in any order, and more than once: two lists of the same packets,
  which agree where they carry the same position and whose windows cover the position,
  leave the same sample there in every channel, and no write panics.
\<close>

theorem ring_order_irrelevant:
  assumes "ring_ok r" "set ps = set qs" "\<forall>p \<in> set ps. packet_ok p"
    and "\<forall>p \<in> set ps. packet_covers r p (ch, pos)"
    and "\<forall>p \<in> set ps. \<forall>q \<in> set ps. \<forall>v w. packet_carries p (ch, pos) = Some v \<longrightarrow>
           packet_carries q (ch, pos) = Some w \<longrightarrow> v = w"
  shows "\<exists>r1 r2. ofold ring_store r ps = Ret r1 \<and> ofold ring_store r qs = Ret r2 \<and>
           at_pos r1 ch pos = at_pos r2 ch pos"
proof -
  have "list_all packet_ok ps" "list_all packet_ok qs" using assms(2,3) by (auto simp: list_all_iff)
  then show ?thesis
    using ring_buffer.order_irrelevant[OF assms(1,2), of "(ch, pos)"] assms
    by (simp add: ring_store_run[OF assms(1)])
qed

definition demo_ring :: ring where
  "demo_ring = set_patched 0 True
     \<lparr> ring_nchan = 1, ring_len = 4, ring_mask = 3, lanes = [[0, 0, 0, 0]],
       filled = [[False, False, False, False]], patched = [False], media_ports = [], last_packet = None \<rparr>"

lemma demo_ring_ok: "ring_ok demo_ring"
  unfolding ring_ok_def by (intro conjI exI[of _ 2]) (simp_all add: demo_ring_def set_patched_def)

definition demo_packet :: "u64 \<Rightarrow> sample list \<Rightarrow> packet" where
  "demo_packet i xs =
     \<lparr>pk_now = 0, pk_index = i, pk_read_pos = 8, pk_map = [Some 0], pk_samples = xs, pk_nchan = 1\<rparr>"

theorem ring_order_irrelevant_witness:
  "\<exists>r1 r2. ofold ring_store demo_ring [demo_packet 10 [100, 101], demo_packet 8 [80, 81]] = Ret r1 \<and>
     ofold ring_store demo_ring [demo_packet 8 [80, 81], demo_packet 10 [100, 101]] = Ret r2 \<and>
     at_pos r1 0 9 = at_pos r2 0 9"
proof -
  let ?p = "demo_packet 10 [100, 101]" and ?q = "demo_packet 8 [80, 81]"
  have "packet_carries ?p (0, 9) = None" "packet_carries ?q (0, 9) = Some 81"
    "packet_covers demo_ring ?p (0, 9)" "packet_covers demo_ring ?q (0, 9)"
    by (simp_all add: packet_carries_def carried_def demo_packet_def packet_covers_def in_window_def
          demo_ring_def set_patched_def Let_def unsigned_minus_1_eq_mask mask_eq_exp_minus_1)
  moreover have "packet_ok ?p" "packet_ok ?q" by (simp_all add: packet_ok_def demo_packet_def)
  ultimately show ?thesis by (intro ring_order_irrelevant demo_ring_ok) auto
qed

section \<open>Blocks delivered to the application\<close>

definition block_frames :: "ring \<Rightarrow> nat \<Rightarrow> nat \<Rightarrow> sample list \<Rightarrow> nat" where
  "block_frames r nchan max_frames dst =
     min max_frames (length dst div max (min nchan (ring_nchan r)) 1)"

definition live :: "nat \<Rightarrow> ring \<Rightarrow> bool" where
  \<comment> \<open>a channel is patched and the last packet came at most 60 ms ago\<close>
  "live now r \<longleftrightarrow> any_patched r \<and> (\<exists>t. last_packet r = Some t \<and> now \<le> t + 60000000)"

lemma ring_read_spec:
  fixes read_pos :: u64
  assumes "ring_ok r" "live now r" "block_frames r nchan max_frames dst \<le> ring_len r"
  defines "m \<equiv> block_frames r nchan max_frames dst"
    and "n \<equiv> min nchan (ring_nchan r)"
  shows "\<exists>r' dst'. ring_read now read_pos nchan max_frames dst r = Ret (r', dst', m, read_pos) \<and>
      ring_ok r' \<and> same_frame r r' \<and> length dst' = length dst \<and>
      (\<forall>f < m. \<forall>ch < n. dst' ! (f * n + ch) = heard (at_pos r ch (read_pos + of_nat f))) \<and>
      (\<forall>ch' sl'. at_slot r' ch' sl' =
         (if ch' < n \<and> (\<exists>f < m. sl' = slot_of r (read_pos + of_nat f)) then None else at_slot r ch' sl'))"
proof -
  from assms(2) obtain t where t: "last_packet r = Some t" "\<not> now - t > 60000000" "any_patched r"
    by (auto simp: live_def)
  have "m \<le> length dst div max n 1" by (simp add: m_def n_def block_frames_def)
  then have "m * max n 1 \<le> length dst" by (simp add: le_div_geq less_eq_div_iff_mult_less_eq)
  moreover have "m * n \<le> m * max n 1" by simp
  ultimately have "m * n \<le> length dst" by (rule order_trans[rotated])
  moreover have "n \<le> ring_nchan r" by (simp add: n_def)
  moreover have "m \<le> ring_len r" using assms(3) by (simp add: m_def)
  ultimately obtain r' dst' where r': "ofold (read_frame read_pos n) (r, dst) [0..<m] = Ret (r', dst')"
      "ring_ok r'" "same_frame r r'" "length dst' = length dst"
      "\<forall>f < m. \<forall>ch < n. dst' ! (f * n + ch) = heard (at_pos r ch (read_pos + of_nat f))"
      "\<forall>ch' sl'. at_slot r' ch' sl' =
         (if ch' < n \<and> (\<exists>f < m. sl' = slot_of r (read_pos + of_nat f)) then None else at_slot r ch' sl')"
    using read_frames_spec[OF assms(1), of n m dst read_pos] by blast
  have "ring_read now read_pos nchan max_frames dst r = Ret (r', dst', m, read_pos)"
    using t r'(1) by (simp add: ring_read_def m_def n_def block_frames_def Let_def)
  then show ?thesis using r'(2-) by blast
qed

text \<open>
  C37: what was stored is what the application hears. After a packet is written, a block
  read within 60 ms of it, of at most a ring's length, returns for every frame inside the
  packet's window and every channel the packet's sample, or what the ring held there if the
  packet carries none, or silence if it held nothing; and neither operation panics.
\<close>

theorem ring_delivers_packet:
  assumes "ring_ok r" "packet_ok p" "any_patched r" "now \<le> pk_now p + 60000000"
    and "block_frames r (ring_nchan r) max_frames dst \<le> ring_len r"
  shows "\<exists>r1 r2 dst'. ring_store r p = Ret r1 \<and>
    ring_read now pos (ring_nchan r) max_frames dst r1 =
      Ret (r2, dst', block_frames r (ring_nchan r) max_frames dst, pos) \<and>
    (\<forall>f < block_frames r (ring_nchan r) max_frames dst. \<forall>ch < ring_nchan r.
       in_window r (pk_read_pos p) (pos + of_nat f) \<longrightarrow>
       dst' ! (f * ring_nchan r + ch) =
         heard (case packet_carries p (ch, pos + of_nat f) of
                  Some s \<Rightarrow> Some s | None \<Rightarrow> at_pos r ch (pos + of_nat f)))"
proof -
  from ring_store_spec[OF assms(1,2)] obtain r1 where r1: "ring_store r p = Ret r1" "ring_ok r1"
      "patched r1 = patched r" "ring_len r1 = ring_len r" "ring_nchan r1 = ring_nchan r"
      "last_packet r1 = Some (pk_now p)"
    and at: "\<forall>ch pos. packet_covers r p (ch, pos) \<longrightarrow> at_pos r1 ch pos =
      (case packet_carries p (ch, pos) of Some v \<Rightarrow> Some v | None \<Rightarrow> at_pos r ch pos)"
    by blast
  have live: "live now r1" using assms(3,4) r1 by (simp add: live_def any_patched_def)
  have m: "block_frames r1 (ring_nchan r) max_frames dst = block_frames r (ring_nchan r) max_frames dst"
    by (simp add: block_frames_def r1)
  from ring_read_spec[OF r1(2) live, of "ring_nchan r" max_frames dst pos] assms(5)
  show ?thesis using r1(1) at unfolding m r1(4,5) by (auto simp: packet_covers_def)
qed

theorem ring_delivers_packet_witness:
  "\<exists>r1 r2 dst'. ring_store demo_ring (demo_packet 9 [90, 91]) = Ret r1 \<and>
     ring_read 1000 8 1 3 [0, 0, 0] r1 = Ret (r2, dst', 3, 8) \<and> dst' ! 0 = 0 \<and> dst' ! 2 = 91"
proof -
  let ?p = "demo_packet 9 [90, 91]"
  have s: "ring_nchan demo_ring = 1" "ring_len demo_ring = 4" "any_patched demo_ring" "packet_ok ?p"
    "pk_now ?p = 0" "pk_read_pos ?p = 8" "block_frames demo_ring 1 3 [0, 0, 0] = 3"
    by (simp_all add: demo_ring_def set_patched_def any_patched_def packet_ok_def demo_packet_def
          block_frames_def)
  have c: "packet_carries ?p (0, 8) = None" "packet_carries ?p (0, 10) = Some 91" "at_pos demo_ring 0 8 = None"
    by (simp_all add: packet_carries_def carried_def demo_packet_def Let_def unsigned_minus_1_eq_mask
          mask_eq_exp_minus_1 at_pos_def at_slot_def slot_of_def demo_ring_def set_patched_def)
  have "\<exists>r1 r2 dst'. ring_store demo_ring ?p = Ret r1 \<and>
    ring_read 1000 8 1 3 [0, 0, 0] r1 = Ret (r2, dst', 3, 8) \<and>
    (\<forall>f < 3. \<forall>ch < 1. in_window demo_ring 8 (8 + of_nat f) \<longrightarrow>
       dst' ! (f * 1 + ch) = heard (case packet_carries ?p (ch, 8 + of_nat f) of
                  Some s \<Rightarrow> Some s | None \<Rightarrow> at_pos demo_ring ch (8 + of_nat f)))"
    using ring_delivers_packet[OF demo_ring_ok s(4,3), of 1000 3 "[0, 0, 0]" 8] unfolding s by simp
  then obtain r1 r2 dst' where r: "ring_store demo_ring ?p = Ret r1"
    "ring_read 1000 8 1 3 [0, 0, 0] r1 = Ret (r2, dst', 3, 8)"
    and d: "\<forall>f < 3. \<forall>ch < 1. in_window demo_ring 8 (8 + of_nat f) \<longrightarrow>
       dst' ! (f * 1 + ch) = heard (case packet_carries ?p (ch, 8 + of_nat f) of
                  Some s \<Rightarrow> Some s | None \<Rightarrow> at_pos demo_ring ch (8 + of_nat f))"
    by (elim exE conjE) (rule that)
  have w: "in_window demo_ring 8 (8 + of_nat 0)" "in_window demo_ring 8 (8 + of_nat 2)"
    by (simp_all add: in_window_def s)
  have "dst' ! (0 * 1 + 0) = 0" using d[rule_format, OF _ _ w(1), of 0] c by simp
  moreover have "dst' ! (2 * 1 + 0) = 91" using d[rule_format, OF _ _ w(2), of 0] c by simp
  ultimately have "dst' ! 0 = 0" "dst' ! 2 = 91" by simp_all
  with r show ?thesis by blast
qed

text \<open>
  A block is heard once. After a block is read, reading a block that overlaps it
  returns silence for the frames they share, whether or not the first was played: the ring
  keeps no read position, and \<open>try_read\<close> computes one from the clock at every call.
\<close>

theorem ring_block_heard_once:
  assumes "ring_ok r" "live now r" "live now' r"
    and "block_frames r (ring_nchan r) k1 dst1 \<le> ring_len r" "block_frames r (ring_nchan r) k2 dst2 \<le> ring_len r"
  shows "\<exists>r1 out1 r2 out2.
    ring_read now pos (ring_nchan r) k1 dst1 r = Ret (r1, out1, block_frames r (ring_nchan r) k1 dst1, pos) \<and>
    ring_read now' (pos + of_nat d) (ring_nchan r) k2 dst2 r1 =
      Ret (r2, out2, block_frames r (ring_nchan r) k2 dst2, pos + of_nat d) \<and>
    (\<forall>f < block_frames r (ring_nchan r) k2 dst2. \<forall>ch < ring_nchan r.
       d + f < block_frames r (ring_nchan r) k1 dst1 \<longrightarrow> out2 ! (f * ring_nchan r + ch) = 0)"
proof -
  let ?n = "ring_nchan r"
  from ring_read_spec[OF assms(1,2,4), of pos] obtain r1 out1 where
    1: "ring_read now pos ?n k1 dst1 r = Ret (r1, out1, block_frames r ?n k1 dst1, pos)"
      "ring_ok r1" "same_frame r r1"
    and at: "\<And>ch' sl'. at_slot r1 ch' sl' =
         (if ch' < ?n \<and> (\<exists>f < block_frames r ?n k1 dst1. sl' = slot_of r (pos + of_nat f)) then None
          else at_slot r ch' sl')"
    by auto
  note sf = same_frameD[OF 1(3)]
  have l: "live now' r1" using assms(3) by (simp add: live_def any_patched_def sf)
  have b: "block_frames r1 ?n k2 dst2 = block_frames r ?n k2 dst2" by (simp add: block_frames_def sf)
  have gone: "at_pos r1 ch (pos + of_nat d + of_nat f) = None"
    if "ch < ?n" "d + f < block_frames r ?n k1 dst1" for ch f
  proof -
    have "slot_of r (pos + of_nat d + of_nat f) = slot_of r (pos + of_nat (d + f))"
      by (simp add: add.assoc)
    then show ?thesis unfolding at_pos_slot at sf(7) using that by auto
  qed
  from ring_read_spec[OF 1(2) l, of ?n k2 dst2 "pos + of_nat d"] assms(5)
  obtain r2 out2 where 2: "ring_read now' (pos + of_nat d) ?n k2 dst2 r1 =
      Ret (r2, out2, block_frames r ?n k2 dst2, pos + of_nat d)"
    "\<forall>f < block_frames r ?n k2 dst2. \<forall>ch < ?n.
       out2 ! (f * ?n + ch) = heard (at_pos r1 ch (pos + of_nat d + of_nat f))"
    unfolding b sf(1,2) by auto
  then show ?thesis using 1(1) gone by (intro exI conjI) auto
qed

definition demo_live :: ring where
  "demo_live = demo_ring\<lparr>lanes := [[80, 90, 100, 110]], filled := [[True, True, True, True]],
                           last_packet := Some 0\<rparr>"

lemma demo_live_ok: "ring_ok demo_live"
  unfolding ring_ok_def
  by (intro conjI exI[of _ 2]) (simp_all add: demo_live_def demo_ring_def set_patched_def)

lemma demo_live_simps:
  "live 1000 demo_live" "ring_nchan demo_live = 1" "ring_len demo_live = 4"
  "block_frames demo_live 1 3 [0, 0, 0] = 3"
  by (simp_all add: live_def any_patched_def demo_live_def demo_ring_def set_patched_def block_frames_def)

theorem ring_block_heard_once_witness:
  "\<exists>r1 out1 r2 out2. ring_read 1000 8 1 3 [0, 0, 0] demo_live = Ret (r1, out1, 3, 8) \<and>
     ring_read 1000 10 1 3 [0, 0, 0] r1 = Ret (r2, out2, 3, 10) \<and> out2 ! 0 = 0"
proof -
  have "\<exists>r1 out1 r2 out2. ring_read 1000 8 1 3 [0, 0, 0] demo_live = Ret (r1, out1, 3, 8) \<and>
     ring_read 1000 (8 + of_nat 2) 1 3 [0, 0, 0] r1 = Ret (r2, out2, 3, 8 + of_nat 2) \<and>
     (\<forall>f < 3. \<forall>ch < 1. 2 + f < 3 \<longrightarrow> out2 ! (f * 1 + ch) = 0)"
    using ring_block_heard_once[OF demo_live_ok demo_live_simps(1) demo_live_simps(1),
        of 3 "[0, 0, 0]" 3 "[0, 0, 0]" 8 2]
    unfolding demo_live_simps by simp
  then obtain r1 out1 r2 out2 where "ring_read 1000 8 1 3 [0, 0, 0] demo_live = Ret (r1, out1, 3, 8)"
    "ring_read 1000 (8 + of_nat 2) 1 3 [0, 0, 0] r1 = Ret (r2, out2, 3, 8 + of_nat 2)"
    and d: "\<forall>f < 3. \<forall>ch < 1. 2 + f < 3 \<longrightarrow> out2 ! (f * 1 + ch) = 0"
    by (elim exE conjE) (rule that)
  moreover have "out2 ! (0 * 1 + 0) = 0" using d[rule_format, of 0 0] by simp
  ultimately show ?thesis by (intro exI[of _ r1] exI[of _ out1] exI[of _ r2] exI[of _ out2]) simp
qed

text \<open>
  A sample that is never read is not lost but heard late: a slot is marked empty only
  by a read of it, so reading the position one ring length after a stored sample's own
  returns that old sample, where nothing newer was written.
\<close>

theorem ring_replays_unread_samples:
  assumes "ring_ok r" "live now r" "block_frames r (ring_nchan r) k dst \<le> ring_len r"
    and "at_pos r ch p = Some s" "ch < ring_nchan r" "f < block_frames r (ring_nchan r) k dst"
    and "pos + of_nat f = p + of_nat (ring_len r)"
  shows "\<exists>r' out. ring_read now pos (ring_nchan r) k dst r =
           Ret (r', out, block_frames r (ring_nchan r) k dst, pos) \<and> out ! (f * ring_nchan r + ch) = s"
proof -
  have "at_pos r ch (pos + of_nat f) = Some s"
    using assms(4) slot_periodic[OF assms(1), of p] by (simp add: assms(7) at_pos_slot)
  then show ?thesis using ring_read_spec[OF assms(1-3), of pos] assms(5,6) by force
qed

theorem ring_replays_unread_samples_witness:
  "\<exists>r' out. ring_read 1000 12 1 3 [0, 0, 0] demo_live = Ret (r', out, 3, 12) \<and> out ! 1 = 90"
proof -
  have a: "at_pos demo_live 0 9 = Some 90"
    by (simp add: at_pos_def at_slot_def slot_of_def demo_live_def demo_ring_def set_patched_def)
  show ?thesis
    using ring_replays_unread_samples[OF demo_live_ok demo_live_simps(1) _ a, of 3 "[0, 0, 0]" 1 12]
    unfolding demo_live_simps by simp
qed

section \<open>Every sequence of operations\<close>

datatype ring_event =
    Store packet
  | ReadBlock nat u64 nat nat "sample list"
  | Patch nat bool
  | Port u16

fun ring_step :: "ring \<Rightarrow> ring_event \<Rightarrow> ring outcome" where
  "ring_step r (Store p) = ring_store r p"
| "ring_step r (ReadBlock now pos n k dst) = obind (ring_read now pos n k dst r) (\<lambda>(r, _). Ret r)"
| "ring_step r (Patch ch b) = Ret (set_patched ch b r)"
| "ring_step r (Port p) = Ret (note_port p r)"

fun event_ok :: "ring_event \<Rightarrow> bool" where
  "event_ok (Store p) = (pk_nchan p \<noteq> 0 \<longrightarrow> packet_ok p)"
| "event_ok _ = True"

lemma read_frames_no_panic:
  fixes read_pos :: u64
  assumes "ring_ok r" "n \<le> ring_nchan r" "m * n \<le> length dst"
  shows "\<exists>r' dst'. ofold (read_frame read_pos n) (r, dst) [0..<m] = Ret (r', dst') \<and> ring_ok r'"
proof -
  let ?I = "\<lambda>(r1, dst1 :: sample list). ring_ok r1 \<and> ring_nchan r1 = ring_nchan r \<and> length dst1 = length dst"
  have "\<exists>st'. ofold (read_frame read_pos n) (r, dst) [0..<m] = Ret st' \<and> ?I st'"
  proof (rule ofold_invariant[where I = ?I])
    fix st f
    assume st: "?I st" and "f \<in> set [0..<m]"
    then have f: "f * n + n \<le> length dst"
      using assms(3) mult_le_mono1[of "Suc f" m n] by (simp add: add.commute)
    obtain r1 dst1 where [simp]: "st = (r1, dst1)" by (cases st)
    show "\<exists>st'. read_frame read_pos n st f = Ret st' \<and> ?I st'"
      using read_channels_spec[of r1 n f n dst1 read_pos] st f assms(2)
      by (auto simp: read_frame_def dest: same_frameD(1))
  qed (use assms(1) in simp)
  then show ?thesis by auto
qed

lemma ring_read_no_panic:
  assumes "ring_ok r"
  shows "\<exists>r' res. ring_read now pos nchan k dst r = Ret (r', res) \<and> ring_ok r'"
proof -
  let ?n = "min nchan (ring_nchan r)" and ?m = "block_frames r nchan k dst"
  have "?m \<le> length dst div max ?n 1" by (simp add: block_frames_def)
  then have "?m * max ?n 1 \<le> length dst" by (simp add: less_eq_div_iff_mult_less_eq)
  moreover have "?m * ?n \<le> ?m * max ?n 1" by simp
  ultimately have "?m * ?n \<le> length dst" by (rule order_trans[rotated])
  then obtain r' dst' where "ofold (read_frame pos ?n) (r, dst) [0..<?m] = Ret (r', dst')" "ring_ok r'"
    using read_frames_no_panic[OF assms, of ?n ?m dst pos] by auto
  then show ?thesis
    using assms by (auto simp: ring_read_def block_frames_def Let_def split: option.split)
qed

lemma read_sample_frame:
  "read_sample pos n f (r, dst) ch = Ret (r', dst') \<Longrightarrow> patched r' = patched r \<and> ring_nchan r' = ring_nchan r"
  by (auto simp: read_sample_def Let_def obind_eq_Ret_iff split: if_splits)

lemma ring_read_frame:
  assumes "ring_read now pos nchan k dst r = Ret (r', res)"
  shows "patched r' = patched r" "ring_nchan r' = ring_nchan r"
proof -
  define g where "g = (\<lambda>(r :: ring, dst :: sample list). (patched r, ring_nchan r))"
  have s: "read_sample p n f st ch = Ret st' \<Longrightarrow> g st' = g st" for p n f st ch st'
    using read_sample_frame by (cases st; cases st') (auto simp: g_def)
  have f: "read_frame p n st f = Ret st' \<Longrightarrow> g st' = g st" for p n st f st'
    unfolding read_frame_def by (erule ofold_frame) (rule s)
  have "r' = r \<or> (\<exists>dst' m n. ofold (read_frame pos n) (r, dst) [0..<m] = Ret (r', dst'))"
    using assms by (auto simp: ring_read_def Let_def obind_eq_Ret_iff split: if_splits option.splits)
  then have "g (r', dst) = g (r, dst)"
  proof (elim disjE exE)
    fix dst' m n
    assume "ofold (read_frame pos n) (r, dst) [0..<m] = Ret (r', dst')"
    from ofold_frame[OF this, of g] f show ?thesis by (auto simp: g_def)
  qed simp
  then show "patched r' = patched r" "ring_nchan r' = ring_nchan r" by (simp_all add: g_def)
qed

lemma ring_step_ok:
  assumes "ring_ok r" "event_ok e"
  shows "\<exists>r'. ring_step r e = Ret r' \<and> ring_ok r'"
proof (cases e)
  case (Store p)
  show ?thesis
  proof (cases "pk_nchan p = 0")
    case True
    then show ?thesis using assms(1) by (simp add: Store ring_store_def write_packet_def)
  next
    case False
    then show ?thesis using assms ring_store_spec[OF assms(1), of p] by (auto simp: Store)
  qed
next
  case (ReadBlock now pos n k dst)
  then show ?thesis using ring_read_no_panic[OF assms(1), of now pos n k dst] by auto
qed (use assms(1) in \<open>simp_all add: set_patched_def note_port_def ring_ok_def\<close>)

interpretation ring_machine: fallible_machine ring_step event_ok ring_ok
  by unfold_locales (rule ring_step_ok)

text \<open>
  No sequence of operations makes the ring panic or break its representation, from the
  ring a device creates on, whatever is read, patched and noted, as long as a flow's channel
  map is no longer than the flow's channel count.
\<close>

theorem ring_never_panics:
  assumes "list_all event_ok es"
  shows "\<exists>r. ofold ring_step (ring_new nchan lat) es = Ret r \<and> ring_ok r"
  using ring_new_ok assms by (rule ring_machine.run_total)

theorem ring_never_panics_witness:
  "\<exists>r. ofold ring_step (ring_new 1 192)
         [Patch 0 True, Store (demo_packet 9 [90, 91]), ReadBlock 1000 8 1 3 [0, 0, 0]] = Ret r \<and> ring_ok r"
  by (rule ring_never_panics) (simp add: packet_ok_def demo_packet_def)

end
