(* ===== verification/Settings.thy ===== *)
theory Settings
  imports Buf
begin

text \<open>
  \<open>src/device/settings.rs\<close> and \<open>src/device/error.rs\<close>: the configuration of a device, its
  validation, and the errors of the library. A \<open>Duration\<close> is its nanoseconds, an address
  its four octets. Errors are values: an operation that returns a \<open>Result\<close> has the type
  \<open>error + 'a\<close>.
\<close>

section \<open>Errors\<close>

text \<open>The kinds of an \<open>std::io::Error\<close> the program tells apart, and all others.\<close>

datatype io_kind = AddrInUse | PermissionDenied | WouldBlock | TimedOut | OtherIo nat

datatype dev_error =
    InvalidSettings rstr
  | UnspecifiedAddress
  | InterfaceNotFound rstr
  | InterfaceHasNoIpv4 rstr
  | PortInUse u16 rstr
  | MdnsPortInUse
  | PtpBindDenied u16
  | Stopped
  | MulticastJoinFailed "u8 \<times> u8 \<times> u8 \<times> u8"
  | IoError io_kind

definition error_settings :: "rstr \<Rightarrow> dev_error" where
  "error_settings reason = InvalidSettings reason"

section \<open>Data\<close>

datatype pcm_bits = B16 | B24 | B32

primrec bits_of :: "pcm_bits \<Rightarrow> u16" where
  "bits_of B16 = 16"
| "bits_of B24 = 24"
| "bits_of B32 = 32"

primrec bytes_of :: "pcm_bits \<Rightarrow> nat" where
  "bytes_of B16 = 2"
| "bytes_of B24 = 3"
| "bytes_of B32 = 4"

type_synonym ipv4 = "u8 \<times> u8 \<times> u8 \<times> u8"

datatype bind = BindIp ipv4 | BindInterface rstr

record settings =
  st_name :: rstr
  st_bind :: bind
  st_rx_channels :: u16
  st_tx_channels :: u16
  st_sample_rate :: u32
  st_bits :: pcm_bits
  st_rx_latency :: nat
  st_tx_latency :: nat
  st_device_id :: "bytes option"
  st_process_id :: u16
  st_alt_port :: "u16 option"
  st_rx_channel_names :: "rstr list option"
  st_manufacturer :: rstr
  st_model :: rstr
  st_board :: rstr
  st_vendor_tag :: bytes
  st_ptp_subdomain :: bytes

definition MIN_LATENCY :: nat where "MIN_LATENCY = 4000000"

definition ALLOWED_RATES :: "u32 list" where "ALLOWED_RATES = [44100, 48000, 88200, 96000]"

text \<open>\<open>Settings::default()\<close>; the process id is the operating system's.\<close>

definition default_settings :: "u32 \<Rightarrow> settings" where
  "default_settings os_pid =
     \<lparr> st_name = lit ''netaudio'', st_bind = BindIp (127, 0, 0, 1), st_rx_channels = 1,
       st_tx_channels = 0, st_sample_rate = 48000, st_bits = B24,
       st_rx_latency = 10000000, st_tx_latency = 10000000, st_device_id = None,
       st_process_id = ucast os_pid, st_alt_port = None, st_rx_channel_names = None,
       st_manufacturer = lit ''Mikansei'', st_model = lit ''netaudio'',
       st_board = lit ''netaudio-rs'', st_vendor_tag = lit ''Audinate'',
       st_ptp_subdomain = lit ''_DFLT'' @ replicate 11 0 \<rparr>"

section \<open>Validation\<close>

definition ascii_alphanumeric :: "u8 \<Rightarrow> bool" where
  "ascii_alphanumeric b \<longleftrightarrow>
     (48 \<le> b \<and> b \<le> 57) \<or> (65 \<le> b \<and> b \<le> 90) \<or> (97 \<le> b \<and> b \<le> 122)"

definition validate_name :: "rstr \<Rightarrow> dev_error + unit" where
  "validate_name name =
     (if name = [] \<or> length name > 31 then Inl (error_settings (lit ''name must be 1..=31 bytes''))
      else if \<not> list_all (\<lambda>b. ascii_alphanumeric b \<or> b = 45) name
      then Inl (error_settings (lit ''name must be a single DNS label [A-Za-z0-9-]''))
      else Inr ())"

fun is_unspecified :: "ipv4 \<Rightarrow> bool" where
  "is_unspecified (a, b, c, d) \<longleftrightarrow> a = 0 \<and> b = 0 \<and> c = 0 \<and> d = 0"

fun is_broadcast :: "ipv4 \<Rightarrow> bool" where
  "is_broadcast (a, b, c, d) \<longleftrightarrow> a = 255 \<and> b = 255 \<and> c = 255 \<and> d = 255"

fun is_multicast :: "ipv4 \<Rightarrow> bool" where
  "is_multicast (a, b, c, d) \<longleftrightarrow> 224 \<le> a \<and> a \<le> 239"

definition validate :: "settings \<Rightarrow> dev_error + unit" where
  "validate s =
     (if st_rx_latency s < MIN_LATENCY then Inl (error_settings (lit ''rx_latency below 4 ms''))
      else if st_tx_latency s < MIN_LATENCY then Inl (error_settings (lit ''tx_latency below 4 ms''))
      else if st_tx_channels s \<noteq> 0 then Inl (error_settings (lit ''tx_channels must be 0 in v1''))
      else if st_rx_channels s < 1 then Inl (error_settings (lit ''rx_channels must be >= 1''))
      else if \<not> List.member ALLOWED_RATES (st_sample_rate s)
      then Inl (error_settings (lit ''sample_rate must be 44100/48000/88200/96000''))
      else case validate_name (st_name s) of
        Inl e \<Rightarrow> Inl e
      | Inr _ \<Rightarrow>
          (if (case st_rx_channel_names s of
                 Some names \<Rightarrow> length names \<noteq> unat (st_rx_channels s) | None \<Rightarrow> False)
           then Inl (error_settings (lit ''rx_channel_names length must match rx_channels''))
           else case st_bind s of
             BindIp ip \<Rightarrow>
               if is_unspecified ip \<or> is_broadcast ip \<or> is_multicast ip
               then Inl UnspecifiedAddress else Inr ()
           | BindInterface _ \<Rightarrow> Inr ()))"

text \<open>What the rest of the device relies on when it starts from validated settings.\<close>

lemma validate_Inr:
  assumes "validate s = Inr u"
  shows "4000000 \<le> st_rx_latency s" "0 < unat (st_rx_channels s)" "st_tx_channels s = 0"
    "st_sample_rate s \<in> {44100, 48000, 88200, 96000}"
    "st_name s \<noteq> []" "length (st_name s) \<le> 31" "\<forall>b \<in> set (st_name s). ascii_alphanumeric b \<or> b = 45"
    "\<And>names. st_rx_channel_names s = Some names \<Longrightarrow> length names = unat (st_rx_channels s)"
proof -
  note v = assms[unfolded validate_def validate_name_def MIN_LATENCY_def]
  from v show "4000000 \<le> st_rx_latency s" "st_tx_channels s = 0" by (simp_all split: if_splits)
  from v have "\<not> st_rx_channels s < 1" by (simp split: if_splits)
  then show "0 < unat (st_rx_channels s)" by (simp add: word_less_nat_alt)
  from v show "st_sample_rate s \<in> {44100, 48000, 88200, 96000}"
    by (simp add: ALLOWED_RATES_def split: if_splits)
  from v show "st_name s \<noteq> []" "length (st_name s) \<le> 31"
    "\<forall>b \<in> set (st_name s). ascii_alphanumeric b \<or> b = 45"
    by (simp_all add: list_all_iff not_less split: if_splits sum.splits)
  show "length names = unat (st_rx_channels s)" if "st_rx_channel_names s = Some names" for names
    using v that by (simp split: if_splits sum.splits)
qed

lemma sample_rate_bounds:
  assumes "validate s = Inr u"
  shows "44100 \<le> unat (st_sample_rate s)" "unat (st_sample_rate s) \<le> 96000"
  using validate_Inr(4)[OF assms] by auto

text \<open>A valid name is ASCII: it has no NUL and is valid UTF-8.\<close>

lemma alphanumeric_ascii: "ascii_alphanumeric b \<or> b = 45 \<Longrightarrow> b \<noteq> 0 \<and> b < 128"
  by (auto simp: ascii_alphanumeric_def word_le_nat_alt word_less_nat_alt)

lemma default_settings_valid: "validate (default_settings pid) = Inr ()"
  by (simp add: validate_def default_settings_def validate_name_def MIN_LATENCY_def ALLOWED_RATES_def
        lit_def ascii_alphanumeric_def)

end
