(* ===== verification/Text.thy ===== *)
theory Text
  imports Buf
begin

text \<open>
  What the program uses of Rust's string functions, on the UTF-8 bytes of a string:
  splitting and joining at a byte, trimming, prefixes, comparison without ASCII case,
  decimal and hexadecimal printing, and \<open>str::parse\<close> of unsigned integers.
\<close>

section \<open>Splitting and joining\<close>

fun split_on :: "u8 \<Rightarrow> rstr \<Rightarrow> rstr list" where
  "split_on sep [] = [[]]"
| "split_on sep (c # cs) =
     (if c = sep then [] # split_on sep cs
      else case split_on sep cs of l # ls \<Rightarrow> (c # l) # ls | [] \<Rightarrow> [[c]])"

fun join_with :: "u8 \<Rightarrow> rstr list \<Rightarrow> rstr" where
  "join_with sep [] = []"
| "join_with sep [l] = l"
| "join_with sep (l # ls) = l @ sep # join_with sep ls"

lemma split_on_not_Nil [simp]: "split_on sep cs \<noteq> []"
  by (induction cs) (auto split: list.splits)

lemma join_split [simp]: "join_with sep (split_on sep cs) = cs"
proof (induction cs)
  case (Cons c cs)
  show ?case
  proof (cases "split_on sep cs")
    case Nil
    then show ?thesis using split_on_not_Nil by blast
  next
    case (Cons l ls)
    then show ?thesis using Cons.IH by (cases ls) auto
  qed
qed simp

lemma split_on_no_sep: "l \<in> set (split_on sep cs) \<Longrightarrow> sep \<notin> set l"
proof (induction cs arbitrary: l)
  case (Cons c cs)
  then show ?case by (cases "split_on sep cs") (auto split: if_splits)
qed simp

lemma split_on_plain: "sep \<notin> set l \<Longrightarrow> split_on sep l = [l]"
  by (induction l) auto

lemma split_on_append: "sep \<notin> set l \<Longrightarrow> split_on sep (l @ sep # cs) = l # split_on sep cs"
  by (induction l) auto

lemma split_join: "ls \<noteq> [] \<Longrightarrow> \<forall>l \<in> set ls. sep \<notin> set l \<Longrightarrow> split_on sep (join_with sep ls) = ls"
  by (induction sep ls rule: join_with.induct) (simp_all add: split_on_plain split_on_append)

section \<open>Trimming, prefixes, case\<close>

definition trim_end_byte :: "u8 \<Rightarrow> rstr \<Rightarrow> rstr" where
  "trim_end_byte c s = rev (dropWhile (\<lambda>b. b = c) (rev s))"

definition strip_prefix :: "rstr \<Rightarrow> rstr \<Rightarrow> rstr option" where
  "strip_prefix pre s = (if take (length pre) s = pre then Some (drop (length pre) s) else None)"

lemma strip_prefix_append [simp]: "strip_prefix p (p @ s) = Some s"
  by (simp add: strip_prefix_def)

lemma strip_prefix_Some: "strip_prefix p s = Some v \<longleftrightarrow> s = p @ v"
  unfolding strip_prefix_def by (metis append_eq_conv_conj option.distinct(1) option.inject)

definition ascii_lower :: "u8 \<Rightarrow> u8" where
  "ascii_lower b = (if 65 \<le> b \<and> b \<le> 90 then b + 32 else b)"

definition eq_ignore_ascii_case :: "rstr \<Rightarrow> rstr \<Rightarrow> bool" where
  "eq_ignore_ascii_case a b \<longleftrightarrow> map ascii_lower a = map ascii_lower b"

text \<open>The encodings of the characters \<open>char::is_whitespace\<close> accepts, and \<open>str::trim\<close>.\<close>

definition whitespace :: "rstr list" where
  "whitespace =
     [[9], [10], [11], [12], [13], [32], [0xC2, 0x85], [0xC2, 0xA0], [0xE1, 0x9A, 0x80]] @
     map (\<lambda>i. [0xE2, 0x80, 0x80 + of_nat i]) [0..<11] @
     [[0xE2, 0x80, 0xA8], [0xE2, 0x80, 0xA9], [0xE2, 0x80, 0xAF], [0xE2, 0x81, 0x9F], [0xE3, 0x80, 0x80]]"

fun strip_one :: "rstr list \<Rightarrow> rstr \<Rightarrow> rstr option" where
  "strip_one [] s = None"
| "strip_one (w # ws) s =
     (if w \<noteq> [] \<and> take (length w) s = w then Some (drop (length w) s) else strip_one ws s)"

lemma strip_one_shorter: "strip_one ws s = Some t \<Longrightarrow> length t < length s"
  by (induction ws) (auto split: if_splits simp: neq_Nil_conv dest: arg_cong[where f = length])

function trim_front :: "rstr list \<Rightarrow> rstr \<Rightarrow> rstr" where
  "trim_front ws s = (case strip_one ws s of Some t \<Rightarrow> trim_front ws t | None \<Rightarrow> s)"
  by pat_completeness auto

termination by (relation "measure (length \<circ> snd)") (auto dest: strip_one_shorter)

declare trim_front.simps [simp del]

definition str_trim :: "rstr \<Rightarrow> rstr" where
  "str_trim s = rev (trim_front (map rev whitespace) (rev (trim_front whitespace s)))"

section \<open>Numbers\<close>

function show_dec :: "nat \<Rightarrow> rstr" where
  "show_dec n = (if n < 10 then [48 + of_nat n] else show_dec (n div 10) @ [48 + of_nat (n mod 10)])"
  by pat_completeness auto

termination by (relation "measure id") auto

declare show_dec.simps [simp del]

definition hex_digit :: "nat \<Rightarrow> u8" where
  "hex_digit n = (if n < 10 then 48 + of_nat n else 87 + of_nat n)"

definition show_hex2 :: "u8 \<Rightarrow> rstr" where
  "show_hex2 b = [hex_digit (unat b div 16), hex_digit (unat b mod 16)]"

text \<open>
  \<open>str::parse\<close> of an unsigned type with values below the bound: a \<open>+\<close> is accepted, the
  empty string, any other byte and an overflow are errors.
\<close>

definition is_digit :: "u8 \<Rightarrow> bool" where
  "is_digit b \<longleftrightarrow> 48 \<le> b \<and> b \<le> 57"

definition dec_value :: "rstr \<Rightarrow> nat" where
  "dec_value ds = foldl (\<lambda>v d. v * 10 + (unat d - 48)) 0 ds"

definition parse_below :: "nat \<Rightarrow> rstr \<Rightarrow> nat option" where
  "parse_below bound s =
     (let ds = (case s of c # cs \<Rightarrow> if c = 43 then cs else s | [] \<Rightarrow> s)
      in if ds \<noteq> [] \<and> list_all is_digit ds \<and> dec_value ds < bound then Some (dec_value ds) else None)"

definition parse_u16 :: "rstr \<Rightarrow> u16 option" where
  "parse_u16 s = map_option of_nat (parse_below 65536 s)"

definition parse_u32 :: "rstr \<Rightarrow> u32 option" where
  "parse_u32 s = map_option of_nat (parse_below 4294967296 s)"

lemma unat_digit: "n < 10 \<Longrightarrow> unat (48 + of_nat n :: u8) = 48 + n"
proof -
  assume n: "n < 10"
  have "(48 + of_nat n :: u8) = of_nat (48 + n)" by simp
  then show ?thesis using n by (simp only:) (rule unat_of_nat_small, simp)
qed

lemma is_digit_digit: "n < 10 \<Longrightarrow> is_digit (48 + of_nat n)"
  by (simp add: is_digit_def word_le_nat_alt unat_digit)

lemma show_dec_digits: "list_all is_digit (show_dec n) \<and> show_dec n \<noteq> [] \<and> dec_value (show_dec n) = n"
proof (induction n rule: show_dec.induct)
  case (1 n)
  show ?case
  proof (cases "n < 10")
    case True
    then show ?thesis by (simp add: show_dec.simps[of n] is_digit_digit dec_value_def unat_digit)
  next
    case False
    then show ?thesis
      using 1 by (simp add: show_dec.simps[of n] is_digit_digit dec_value_def unat_digit)
  qed
qed

lemma parse_show_dec: "n < bound \<Longrightarrow> parse_below bound (show_dec n) = Some n"
proof -
  assume n: "n < bound"
  obtain c cs where c: "show_dec n = c # cs" using show_dec_digits[of n] by (cases "show_dec n") auto
  then have "c \<noteq> 43" using show_dec_digits[of n] by (auto simp: is_digit_def)
  then show ?thesis using n show_dec_digits[of n] by (simp add: parse_below_def c Let_def)
qed

lemma show_dec_ascii: "b \<in> set (show_dec n) \<Longrightarrow> 48 \<le> b \<and> b \<le> 57"
  using show_dec_digits[of n] by (auto simp: list_all_iff is_digit_def)

end
