(* ===== verification/Net.thy ===== *)
theory Net
  imports Settings Text
begin

text \<open>
  \<open>src/net/udp.rs\<close> and \<open>src/net/iface.rs\<close>: the sockets a device binds and the interface it
  runs on, with the two options \<open>src/net/windows.rs\<close> sets where the program is built for Windows.
  The operating system is a parameter: the record \<open>os\<close> says which one it is and what each
  system call answers, and the list of \<open>netdev\<close> interfaces is an argument. A bound socket is
  its local port; the octets of a \<open>MacAddr\<close> are six bytes.
\<close>

section \<open>The operating system\<close>

record os =
  os_windows :: bool
  os_socket :: "io_kind option"
  os_bind :: "ipv4 \<Rightarrow> u16 \<Rightarrow> io_kind + u16"
  os_multicast_if :: "ipv4 \<Rightarrow> io_kind option"
  os_join :: "ipv4 \<Rightarrow> ipv4 \<Rightarrow> io_kind option"
  os_option :: "rstr \<Rightarrow> io_kind option"
  os_spawn :: "rstr \<Rightarrow> io_kind option"

text \<open>The \<open>?\<close> of a function that returns a \<open>Result\<close>, and of a system call.\<close>

primrec rtry :: "'e + 'a \<Rightarrow> ('a \<Rightarrow> 'e + 'b) \<Rightarrow> 'e + 'b" where
  "rtry (Inl e) f = Inl e"
| "rtry (Inr x) f = f x"

definition call :: "io_kind option \<Rightarrow> dev_error + unit" where
  "call r = (case r of Some k \<Rightarrow> Inl (IoError k) | None \<Rightarrow> Inr ())"

section \<open>Sockets\<close>

definition MDNS_PORT :: u16 where "MDNS_PORT = 5353"
definition PTP_EVENT :: u16 where "PTP_EVENT = 319"
definition PTP_GENERAL :: u16 where "PTP_GENERAL = 320"
definition MEDIA_PORT_START :: u16 where "MEDIA_PORT_START = 0x3800"
definition MEDIA_PORT_END :: u16 where "MEDIA_PORT_END = 0x397F"
definition MDNS_GROUP :: ipv4 where "MDNS_GROUP = (224, 0, 0, 251)"
definition PTP_GROUP :: ipv4 where "PTP_GROUP = (224, 0, 1, 129)"

definition reject :: "ipv4 \<Rightarrow> dev_error + unit" where
  "reject ip = (if is_unspecified ip \<or> is_multicast ip \<or> is_broadcast ip then Inl UnspecifiedAddress else Inr ())"

definition map_in_use :: "io_kind \<Rightarrow> u16 \<Rightarrow> rstr \<Rightarrow> dev_error" where
  "map_in_use e port role =
     (if e = AddrInUse then PortInUse port role
      else if e = PermissionDenied \<and> (port = 319 \<or> port = 320) then PtpBindDenied port
      else IoError e)"

text \<open>
  \<open>src/net/windows.rs\<close>: each function makes one call and turns its error code into the last
  error of the system. Code under \<open>cfg(windows)\<close> runs on that system only.
\<close>

definition set_exclusive_addr_use :: "os \<Rightarrow> dev_error + unit" where
  "set_exclusive_addr_use os = call (os_option os (lit ''SO_EXCLUSIVEADDRUSE''))"

definition disable_udp_connreset :: "os \<Rightarrow> dev_error + unit" where
  "disable_udp_connreset os = call (os_option os (lit ''SIO_UDP_CONNRESET''))"

definition cfg_windows :: "os \<Rightarrow> (os \<Rightarrow> dev_error + unit) \<Rightarrow> dev_error + unit" where
  "cfg_windows os f = (if os_windows os then f os else Inr ())"

definition bind_unicast :: "os \<Rightarrow> ipv4 \<Rightarrow> u16 \<Rightarrow> rstr \<Rightarrow> dev_error + u16" where
  "bind_unicast os ip port role =
     rtry (reject ip) (\<lambda>_.
     rtry (call (os_socket os)) (\<lambda>_.
     rtry (cfg_windows os set_exclusive_addr_use) (\<lambda>_.
     case os_bind os ip port of
       Inl e \<Rightarrow> Inl (map_in_use e port role)
     | Inr p \<Rightarrow> Inr p)))"

fun bind_ports :: "os \<Rightarrow> ipv4 \<Rightarrow> u16 list \<Rightarrow> dev_error + u16" where
  "bind_ports os ip [] = bind_unicast os ip 0 (lit ''media'')"
| "bind_ports os ip (port # ports) =
     (case bind_unicast os ip port (lit ''media'') of
        Inr s \<Rightarrow> Inr s
      | Inl e \<Rightarrow> (case e of PortInUse _ _ \<Rightarrow> bind_ports os ip ports | _ \<Rightarrow> Inl e))"

definition port_range :: "u16 \<Rightarrow> u16 \<Rightarrow> u16 list" where
  "port_range start end = map of_nat [unat start..<Suc (unat end)]"

definition bind_in_range :: "os \<Rightarrow> ipv4 \<Rightarrow> u16 \<Rightarrow> u16 \<Rightarrow> dev_error + u16" where
  "bind_in_range os ip start end = rtry (reject ip) (\<lambda>_. bind_ports os ip (port_range start end))"

definition set_multicast_if_v4 :: "os \<Rightarrow> ipv4 \<Rightarrow> dev_error + unit" where
  "set_multicast_if_v4 os iface = call (os_multicast_if os iface)"

definition join_multicast_v4 :: "os \<Rightarrow> ipv4 \<Rightarrow> ipv4 \<Rightarrow> dev_error + unit" where
  "join_multicast_v4 os grp iface =
     (case os_join os grp iface of Some _ \<Rightarrow> Inl (MulticastJoinFailed grp) | None \<Rightarrow> Inr ())"

definition bind_mdns :: "os \<Rightarrow> ipv4 \<Rightarrow> dev_error + u16" where
  "bind_mdns os ip =
     rtry (reject ip) (\<lambda>_.
     rtry (call (os_socket os)) (\<lambda>_.
     rtry (call (os_option os (lit ''reuse_address''))) (\<lambda>_.
     rtry (if os_windows os then Inr () else call (os_option os (lit ''reuse_port''))) (\<lambda>_.
     case os_bind os ip MDNS_PORT of
       Inl _ \<Rightarrow> Inl MdnsPortInUse
     | Inr p \<Rightarrow>
         rtry (set_multicast_if_v4 os ip) (\<lambda>_.
         rtry (join_multicast_v4 os MDNS_GROUP ip) (\<lambda>_.
         rtry (call (os_option os (lit ''multicast_ttl''))) (\<lambda>_.
         rtry (call (os_option os (lit ''multicast_loop''))) (\<lambda>_. Inr p))))))))"

definition bind_ptp :: "os \<Rightarrow> ipv4 \<Rightarrow> u16 \<Rightarrow> dev_error + u16" where
  "bind_ptp os ip port =
     rtry (reject ip) (\<lambda>_.
     rtry (call (os_socket os)) (\<lambda>_.
     rtry (cfg_windows os set_exclusive_addr_use) (\<lambda>_.
     case os_bind os ip port of
       Inl e \<Rightarrow> Inl (if e = PermissionDenied then PtpBindDenied port else map_in_use e port (lit ''ptp''))
     | Inr p \<Rightarrow>
         rtry (set_multicast_if_v4 os ip) (\<lambda>_.
         rtry (join_multicast_v4 os PTP_GROUP ip) (\<lambda>_.
         rtry (call (os_option os (lit ''multicast_ttl''))) (\<lambda>_. Inr p))))))"

definition bind_querier :: "os \<Rightarrow> ipv4 \<Rightarrow> dev_error + u16" where
  "bind_querier os ip =
     rtry (reject ip) (\<lambda>_.
     rtry (call (os_socket os)) (\<lambda>_.
     case os_bind os ip 0 of
       Inl e \<Rightarrow> Inl (IoError e)
     | Inr p \<Rightarrow> rtry (set_multicast_if_v4 os ip) (\<lambda>_. Inr p)))"

definition std_to_tokio :: "os \<Rightarrow> u16 \<Rightarrow> dev_error + u16" where
  "std_to_tokio os sock =
     rtry (call (os_option os (lit ''nonblocking''))) (\<lambda>_.
     rtry (cfg_windows os disable_udp_connreset) (\<lambda>_.
     rtry (call (os_option os (lit ''from_std''))) (\<lambda>_. Inr sock)))"

definition prepare_media :: "os \<Rightarrow> dev_error + unit" where
  "prepare_media os =
     rtry (call (os_option os (lit ''nonblocking''))) (\<lambda>_. cfg_windows os disable_udp_connreset)"

section \<open>Interfaces\<close>

record netdev_iface =
  nd_name :: rstr
  nd_friendly :: "rstr option"
  nd_description :: "rstr option"
  nd_ipv4 :: "(ipv4 \<times> ipv4) list"
  nd_mac :: "bytes option"
  nd_gateway :: "ipv4 list option"
  nd_transmit :: "u64 option"
  nd_receive :: "u64 option"

record iface_info =
  if_name :: rstr
  if_ipv4 :: ipv4
  if_netmask :: ipv4
  if_gateway :: ipv4
  if_mac :: bytes
  if_link_mbps :: u16

fun is_loopback :: "ipv4 \<Rightarrow> bool" where
  "is_loopback (a, b, c, d) \<longleftrightarrow> a = 127"

fun show_ipv4 :: "ipv4 \<Rightarrow> rstr" where
  "show_ipv4 (a, b, c, d) = join_with 46 (map (\<lambda>x. show_dec (unat x)) [a, b, c, d])"

text \<open>The \<open>Display\<close> of an error, \<open>io_text\<close> is the text of the system's own.\<close>

fun show_error :: "(io_kind \<Rightarrow> rstr) \<Rightarrow> dev_error \<Rightarrow> rstr" where
  "show_error io (InvalidSettings reason) = lit ''invalid settings: '' @ reason"
| "show_error io UnspecifiedAddress = lit ''refusing to bind unspecified / multicast / broadcast address''"
| "show_error io (InterfaceNotFound name) = lit ''interface not found: '' @ name"
| "show_error io (InterfaceHasNoIpv4 name) = lit ''interface '' @ name @ lit '' has no usable IPv4 address''"
| "show_error io (PortInUse port role) = lit ''UDP port '' @ show_dec (unat port) @ lit '' in use ('' @ role @ lit '')''"
| "show_error io MdnsPortInUse = lit ''mDNS UDP 5353 is in use or not shareable on this host''"
| "show_error io (PtpBindDenied port) =
     lit ''PTP bind denied on UDP '' @ show_dec (unat port) @ lit '' (need CAP_NET_BIND_SERVICE on Unix)''"
| "show_error io Stopped = lit ''device has been stopped''"
| "show_error io (MulticastJoinFailed grp) = lit ''multicast join failed for '' @ show_ipv4 grp"
| "show_error io (IoError k) = io k"

text \<open>
  \<open>str::parse::<Ipv4Addr>\<close>: four decimal octets of one to three digits, none with a leading
  zero, separated by dots.
\<close>

definition parse_octet :: "rstr \<Rightarrow> u8 option" where
  "parse_octet s =
     (if s = [] \<or> length s > 3 \<or> \<not> list_all is_digit s \<or> (hd s = 48 \<and> length s > 1) \<or> dec_value s > 255
      then None else Some (of_nat (dec_value s)))"

definition parse_ipv4 :: "rstr \<Rightarrow> ipv4 option" where
  "parse_ipv4 s =
     (case map parse_octet (split_on 46 s) of
        [Some a, Some b, Some c, Some d] \<Rightarrow> Some (a, b, c, d)
      | _ \<Rightarrow> None)"

definition loopback :: "ipv4 \<Rightarrow> iface_info" where
  "loopback ip = \<lparr>if_name = lit ''lo'', if_ipv4 = ip, if_netmask = (255, 0, 0, 0), if_gateway = (0, 0, 0, 0),
     if_mac = replicate 6 0, if_link_mbps = 0\<rparr>"

definition from_netdev :: "netdev_iface \<Rightarrow> ipv4 \<Rightarrow> ipv4 \<Rightarrow> iface_info" where
  "from_netdev i ip netmask =
     (let mac = (case nd_mac i of
                   Some oct \<Rightarrow> take 6 oct
                 | None \<Rightarrow> replicate 6 0);
          gateway = (case nd_gateway i of Some (g # _) \<Rightarrow> g | _ \<Rightarrow> (0, 0, 0, 0));
          speed = max (case nd_transmit i of Some v \<Rightarrow> v | None \<Rightarrow> 0)
                      (case nd_receive i of Some v \<Rightarrow> v | None \<Rightarrow> 0) div 1000000
      in \<lparr>if_name = nd_name i, if_ipv4 = ip, if_netmask = netmask, if_gateway = gateway, if_mac = mac,
          if_link_mbps = ucast (min speed 10000)\<rparr>)"

fun find_addr :: "ipv4 \<Rightarrow> netdev_iface list \<Rightarrow> iface_info option" where
  "find_addr ip [] = None"
| "find_addr ip (i # is) =
     (case find (\<lambda>net. fst net = ip) (nd_ipv4 i) of
        Some net \<Rightarrow> Some (from_netdev i ip (snd net))
      | None \<Rightarrow> find_addr ip is)"

definition find_by_ip :: "netdev_iface list \<Rightarrow> ipv4 \<Rightarrow> iface_info" where
  "find_by_ip ifaces ip =
     (if is_loopback ip then loopback ip
      else case find_addr ip ifaces of
        Some info \<Rightarrow> info
      | None \<Rightarrow>
          \<lparr>if_name = show_ipv4 ip, if_ipv4 = ip, if_netmask = (255, 255, 255, 0), if_gateway = (0, 0, 0, 0),
           if_mac = replicate 6 0, if_link_mbps = 0\<rparr>)"

definition iface_names :: "netdev_iface \<Rightarrow> rstr list" where
  "iface_names i =
     [nd_name i, (case nd_friendly i of Some n \<Rightarrow> n | None \<Rightarrow> []), (case nd_description i of Some n \<Rightarrow> n | None \<Rightarrow> [])]"

fun find_named :: "rstr \<Rightarrow> rstr \<Rightarrow> netdev_iface list \<Rightarrow> dev_error + iface_info" where
  "find_named name want [] = Inl (InterfaceNotFound name)"
| "find_named name want (i # is) =
     (if list_ex (\<lambda>n. n \<noteq> [] \<and> map ascii_lower n = want) (iface_names i)
      then case find (\<lambda>n. \<not> is_unspecified (fst n)) (nd_ipv4 i) of
             None \<Rightarrow> Inl (InterfaceHasNoIpv4 name)
           | Some net \<Rightarrow> rtry (reject (fst net)) (\<lambda>_. Inr (from_netdev i (fst net) (snd net)))
      else find_named name want is)"

definition find_by_name :: "netdev_iface list \<Rightarrow> rstr \<Rightarrow> dev_error + iface_info" where
  "find_by_name ifaces name =
     (case parse_ipv4 name of
        Some ip \<Rightarrow> Inr (find_by_ip ifaces ip)
      | None \<Rightarrow> find_named name (map ascii_lower name) ifaces)"

definition resolve :: "netdev_iface list \<Rightarrow> bind \<Rightarrow> dev_error + iface_info" where
  "resolve ifaces b =
     (case b of
        BindIp ip \<Rightarrow> rtry (reject ip) (\<lambda>_. Inr (find_by_ip ifaces ip))
      | BindInterface name \<Rightarrow> find_by_name ifaces name)"

section \<open>No socket is bound on a bad address\<close>

definition usable_ip :: "ipv4 \<Rightarrow> bool" where
  "usable_ip ip \<longleftrightarrow> \<not> is_unspecified ip \<and> \<not> is_multicast ip \<and> \<not> is_broadcast ip"

lemma reject_eq: "reject ip = (if usable_ip ip then Inr () else Inl UnspecifiedAddress)"
  by (simp add: reject_def usable_ip_def)

text \<open>
  No function of the library binds a socket on the unspecified, a multicast or the broadcast
  address: each returns the error before any system call, whatever the system would answer.
\<close>

lemma never_binds_bad_address:
  assumes "is_unspecified ip \<or> is_multicast ip \<or> is_broadcast ip"
  shows "bind_unicast os ip port role = Inl UnspecifiedAddress"
    and "bind_in_range os ip start fin = Inl UnspecifiedAddress"
    and "bind_mdns os ip = Inl UnspecifiedAddress"
    and "bind_ptp os ip port = Inl UnspecifiedAddress"
    and "bind_querier os ip = Inl UnspecifiedAddress"
  using assms
  by (auto simp: bind_unicast_def bind_in_range_def bind_mdns_def bind_ptp_def bind_querier_def reject_def)

section \<open>The media port\<close>

text \<open>A socket opens: it can be created and, on Windows, made exclusive.\<close>

definition socket_opens :: "os \<Rightarrow> bool" where
  "socket_opens os \<longleftrightarrow> os_socket os = None \<and> cfg_windows os set_exclusive_addr_use = Inr ()"

lemma bind_unicast_eq:
  "usable_ip ip \<Longrightarrow> socket_opens os \<Longrightarrow> bind_unicast os ip port role =
    (case os_bind os ip port of Inl e \<Rightarrow> Inl (map_in_use e port role) | Inr p \<Rightarrow> Inr p)"
  by (simp add: bind_unicast_def reject_eq call_def socket_opens_def)

lemma bind_ports_eq:
  assumes "usable_ip ip" "socket_opens os"
  shows "bind_ports os ip ps =
    (case find (\<lambda>p. os_bind os ip p \<noteq> Inl AddrInUse) (ps @ [0]) of
       Some p \<Rightarrow> (case os_bind os ip p of Inr q \<Rightarrow> Inr q | Inl k \<Rightarrow> Inl (map_in_use k p (lit ''media'')))
     | None \<Rightarrow> Inl (PortInUse 0 (lit ''media'')))"
  using assms
  by (induction ps)
     (auto simp: bind_unicast_eq map_in_use_def split: sum.splits dev_error.splits)

text \<open>
  C21: the media socket is bound to the first port of the range that the operating system
  does not report in use, to one of its choice if they all are; an error other than a port
  in use ends the search and is returned.
\<close>

theorem media_port_is_first_free:
  assumes "usable_ip ip" "socket_opens os"
  shows "bind_in_range os ip start fin =
    (case find (\<lambda>p. os_bind os ip p \<noteq> Inl AddrInUse) (map of_nat [unat start..<Suc (unat fin)] @ [0]) of
       Some p \<Rightarrow> (case os_bind os ip p of Inr q \<Rightarrow> Inr q | Inl k \<Rightarrow> Inl (map_in_use k p (lit ''media'')))
     | None \<Rightarrow> Inl (PortInUse 0 (lit ''media'')))"
  using assms bind_ports_eq[OF assms, of "port_range start fin"]
  by (simp only: bind_in_range_def reject_eq if_True rtry.simps port_range_def)

text \<open>An operating system where every port below 14338 is taken.\<close>

definition demo_os :: os where
  "demo_os = \<lparr>os_windows = True, os_socket = None,
     os_bind = (\<lambda>ip p. if p = 0 then Inr 40000 else if p < 14338 then Inl AddrInUse else Inr p),
     os_multicast_if = (\<lambda>_. None), os_join = (\<lambda>_ _. None), os_option = (\<lambda>_. None), os_spawn = (\<lambda>_. None)\<rparr>"

theorem media_port_is_first_free_witness:
  "bind_in_range demo_os (127, 0, 0, 1) 14336 14400 = Inr 14338 \<and>
   bind_in_range demo_os (127, 0, 0, 1) 14330 14337 = Inr 40000"
  using media_port_is_first_free[of "(127, 0, 0, 1)" demo_os 14336 14400]
    media_port_is_first_free[of "(127, 0, 0, 1)" demo_os 14330 14337]
  by (simp add: demo_os_def usable_ip_def upt_rec socket_opens_def cfg_windows_def set_exclusive_addr_use_def call_def)

section \<open>The interface\<close>

lemma link_speed_clamped: "unat (if_link_mbps (from_netdev i ip m)) =
    min (unat (max (case nd_transmit i of Some v \<Rightarrow> v | None \<Rightarrow> 0) (case nd_receive i of Some v \<Rightarrow> v | None \<Rightarrow> 0)) div 1000000) 10000"
proof -
  define s :: u64 where "s = max (case nd_transmit i of Some v \<Rightarrow> v | None \<Rightarrow> 0) (case nd_receive i of Some v \<Rightarrow> v | None \<Rightarrow> 0)"
  have "unat (min (s div 1000000) 10000) = min (unat s div 1000000) 10000"
    by (simp add: min_def word_le_nat_alt unat_div)
  then have "unat (ucast (min (s div 1000000) 10000) :: u16) = min (unat s div 1000000) 10000"
    by (simp add: unsigned_ucast_eq take_bit_nat_eq_self)
  then show ?thesis by (simp add: from_netdev_def s_def)
qed

lemma find_addr_Some: "find_addr ip is = Some info \<Longrightarrow> if_ipv4 info = ip"
  by (induction "is") (auto simp: from_netdev_def Let_def split: option.splits)

lemma if_ipv4_find_by_ip [simp]: "if_ipv4 (find_by_ip ifaces ip) = ip"
  by (auto simp: find_by_ip_def loopback_def find_addr_Some split: option.splits)

lemma find_named_Inr:
  "find_named name want is = Inr info \<Longrightarrow>
   \<exists>i \<in> set is. (\<exists>n \<in> set (iface_names i). n \<noteq> [] \<and> map ascii_lower n = want) \<and>
     (if_ipv4 info, if_netmask info) \<in> set (nd_ipv4 i) \<and> usable_ip (if_ipv4 info)"
proof (induction "is")
  case (Cons i js)
  show ?case
  proof (cases "list_ex (\<lambda>n. n \<noteq> [] \<and> map ascii_lower n = want) (iface_names i)")
    case True
    with Cons.prems obtain net where net: "find (\<lambda>n. \<not> is_unspecified (fst n)) (nd_ipv4 i) = Some net"
      by (auto split: option.splits)
    with True Cons.prems have "usable_ip (fst net)" "info = from_netdev i (fst net) (snd net)"
      by (auto simp: reject_eq split: if_splits)
    moreover from net have "net \<in> set (nd_ipv4 i)" by (auto simp: find_Some_iff)
    ultimately show ?thesis using True
      by (auto simp: from_netdev_def Let_def list_ex_iff)
  next
    case False
    with Cons show ?thesis by auto
  qed
qed simp

text \<open>
  C23: the address a device runs on is the one its settings name: the IP given, the IP a
  name spells, or an address, with its mask, of an interface whose name, friendly name or
  description is the name given but for the case of ASCII letters.
\<close>

theorem resolve_sound:
  "case resolve ifaces b of
     Inr info \<Rightarrow>
       (case b of
          BindIp ip \<Rightarrow> if_ipv4 info = ip \<and> usable_ip ip
        | BindInterface name \<Rightarrow>
            parse_ipv4 name = Some (if_ipv4 info) \<or>
            (\<exists>i \<in> set ifaces. (\<exists>n \<in> set (iface_names i). n \<noteq> [] \<and> map ascii_lower n = map ascii_lower name) \<and>
               (if_ipv4 info, if_netmask info) \<in> set (nd_ipv4 i) \<and> usable_ip (if_ipv4 info)))
   | Inl e \<Rightarrow> e = UnspecifiedAddress \<or> (\<exists>name. b = BindInterface name \<and>
       (e = InterfaceNotFound name \<or> e = InterfaceHasNoIpv4 name))"
proof (cases b)
  case (BindIp ip)
  then show ?thesis by (simp add: resolve_def reject_eq)
next
  case (BindInterface name)
  have err: "find_named name w is = Inl e \<Longrightarrow>
      e = UnspecifiedAddress \<or> e = InterfaceNotFound name \<or> e = InterfaceHasNoIpv4 name" for w "is" e
    by (induction "is") (auto simp: reject_eq split: if_splits option.splits)
  show ?thesis
    using BindInterface find_named_Inr[of name "map ascii_lower name" ifaces] err[of "map ascii_lower name" ifaces]
    by (auto simp: resolve_def find_by_name_def split: option.splits sum.splits)
qed

end
