(* ===== verification/Mdns.thy ===== *)
theory Mdns
  imports Text
begin

text \<open>
  The mDNS messages of \<open>src/protocol/mdns.rs\<close>: names with compression pointers, questions,
  records, whole messages, the announcement and the probe of a device, and the small parsers
  of TXT entries. \<open>read_name\<close> follows at most 17 pointers, so it returns on every packet.
\<close>

definition QTYPE_A :: u16 where "QTYPE_A = 1"
definition QTYPE_PTR :: u16 where "QTYPE_PTR = 12"
definition QTYPE_TXT :: u16 where "QTYPE_TXT = 16"
definition QTYPE_SRV :: u16 where "QTYPE_SRV = 33"
definition QTYPE_ANY :: u16 where "QTYPE_ANY = 255"
definition CLASS_IN :: u16 where "CLASS_IN = 1"
definition CLASS_FLUSH :: u16 where "CLASS_FLUSH = 0x8001"
definition TTL_HOST :: u32 where "TTL_HOST = 4500"
definition FLAGS_QUERY :: u16 where "FLAGS_QUERY = 0"
definition FLAGS_RESPONSE :: u16 where "FLAGS_RESPONSE = 0x8400"

lemmas qtype_defs = QTYPE_A_def QTYPE_PTR_def QTYPE_TXT_def QTYPE_SRV_def

record question =
  q_name :: rstr
  q_qtype :: u16

datatype record_data =
    A bytes
  | Ptr rstr
  | Txt "bytes list"
  | Srv u16 u16 u16 rstr

record dns_record =
  r_name :: rstr
  r_rtype :: u16
  r_class :: u16
  r_ttl :: u32
  r_data :: record_data

record message =
  m_id :: u16
  m_flags :: u16
  m_questions :: "question list"
  m_answers :: "dns_record list"
  m_additionals :: "dns_record list"

section \<open>Writing\<close>

definition dot :: u8 where "dot = 46"

definition write_name :: "rstr \<Rightarrow> bytes \<Rightarrow> bytes" where
  "write_name name buf =
     (let n = trim_end_byte dot name
      in if n = [] then buf @ [0]
         else foldl (\<lambda>b label. b @ of_nat (length label) # label) buf (split_on dot n) @ [0])"

definition write_data :: "record_data \<Rightarrow> bytes \<Rightarrow> bytes" where
  "write_data d buf =
     (case d of
        A ip \<Rightarrow> buf @ ip
      | Ptr n \<Rightarrow> write_name n buf
      | Txt strs \<Rightarrow> foldl (\<lambda>b s. b @ of_nat (length s) # s) buf strs
      | Srv priority weight port target \<Rightarrow>
          write_name target (buf @ be16 priority @ be16 weight @ be16 port))"

definition write_record :: "dns_record \<Rightarrow> bytes \<Rightarrow> bytes outcome" where
  "write_record r buf =
     (let buf = write_name (r_name r) buf;
          rtype = (case r_data r of A _ \<Rightarrow> QTYPE_A | Ptr _ \<Rightarrow> QTYPE_PTR | Txt _ \<Rightarrow> QTYPE_TXT
                   | Srv _ _ _ _ \<Rightarrow> QTYPE_SRV);
          buf = buf @ be16 rtype @ be16 (r_class r) @ be32 (r_ttl r);
          rdata_len_at = length buf;
          buf = buf @ be16 0;
          start = length buf;
          buf = write_data (r_data r) buf;
          len = of_nat (length buf - start) :: u16
      in set_rng buf rdata_len_at (be16 len))"

definition write_question :: "bytes \<Rightarrow> question \<Rightarrow> bytes" where
  "write_question buf q = write_name (q_name q) buf @ be16 (q_qtype q) @ be16 CLASS_IN"

definition mdns_encode :: "message \<Rightarrow> bytes outcome" where
  "mdns_encode m =
     (let buf = be16 (m_id m) @ be16 (m_flags m) @ be16 (of_nat (length (m_questions m))) @
                be16 (of_nat (length (m_answers m))) @ be16 0 @ be16 (of_nat (length (m_additionals m)));
          buf = foldl write_question buf (m_questions m)
      in ofold (\<lambda>buf r. write_record r buf) buf (m_answers m @ m_additionals m))"

section \<open>Reading\<close>

function read_name_loop ::
  "bytes \<Rightarrow> nat \<Rightarrow> rstr list \<Rightarrow> bool \<Rightarrow> nat \<Rightarrow> nat \<Rightarrow> (rstr list \<times> nat) option" where
  "read_name_loop msg pos labels jumped end_pos hops =
     (if hops > 16 then None
      else case get_idx msg pos of
        None \<Rightarrow> None
      | Some len \<Rightarrow>
          if len = 0 then Some (labels, if \<not> jumped then pos + 1 else end_pos)
          else if len AND 0xC0 = 0xC0 then
            (case get_idx msg (pos + 1) of
               None \<Rightarrow> None
             | Some b2 \<Rightarrow>
                 let target = unat (len AND 0x3F) * 256 + unat b2
                 in read_name_loop msg target labels True (if \<not> jumped then pos + 2 else end_pos) (hops + 1))
          else if len AND 0xC0 \<noteq> 0 then None
          else
            (case get_rng msg (pos + 1) (pos + 1 + unat len) of
               None \<Rightarrow> None
             | Some bs \<Rightarrow>
                 (case from_utf8 bs of
                    None \<Rightarrow> None
                  | Some s \<Rightarrow>
                      let pos' = pos + 1 + unat len
                      in read_name_loop msg pos' (labels @ [s]) jumped (if \<not> jumped then pos' else end_pos) hops)))"
  by pat_completeness auto

termination
  by (relation "measures [\<lambda>(msg, pos, labels, jumped, end_pos, hops). 17 - hops,
                          \<lambda>(msg, pos, labels, jumped, end_pos, hops). length msg - pos]")
     (auto simp: get_idx_def split: if_splits)

declare read_name_loop.simps [simp del]

definition read_name :: "bytes \<Rightarrow> nat \<Rightarrow> (rstr \<times> nat) option" where
  "read_name msg pos =
     map_option (\<lambda>(labels, e). (join_with dot labels, e)) (read_name_loop msg pos [] False pos 0)"

function read_txt :: "bytes \<Rightarrow> nat \<Rightarrow> bytes list \<Rightarrow> bytes list" where
  "read_txt rdata i strs =
     (if i < length rdata then
        let n = unat (rdata ! i); i' = i + 1
        in if i' + n > length rdata then strs
           else read_txt rdata (i' + n) (strs @ [slice rdata i' (i' + n)])
      else strs)"
  by pat_completeness auto

termination by (relation "measure (\<lambda>(rdata, i, strs). length rdata - i)") auto

declare read_txt.simps [simp del]

definition read_data :: "bytes \<Rightarrow> nat \<Rightarrow> u16 \<Rightarrow> bytes \<Rightarrow> record_data option outcome" where
  "read_data msg pos rtype rdata =
     (if rtype = QTYPE_A \<and> length rdata = 4 then
        obind (idx rdata 0) (\<lambda>a. obind (idx rdata 1) (\<lambda>b. obind (idx rdata 2) (\<lambda>c. obind (idx rdata 3) (\<lambda>d.
        Ret (Some (A [a, b, c, d]))))))
      else if rtype = QTYPE_PTR then Ret (map_option (\<lambda>(n, _). Ptr n) (read_name msg pos))
      else if rtype = QTYPE_TXT then Ret (Some (Txt (read_txt rdata 0 [])))
      else if rtype = QTYPE_SRV \<and> length rdata \<ge> 6 then
        obind (rd16 rdata 0) (\<lambda>priority. obind (rd16 rdata 2) (\<lambda>weight. obind (rd16 rdata 4) (\<lambda>port.
        Ret (map_option (\<lambda>(target, _). Srv priority weight port target) (read_name msg (pos + 6))))))
      else Ret None)"

definition read_record :: "bytes \<Rightarrow> nat \<Rightarrow> (dns_record \<times> nat) option outcome" where
  "read_record msg pos =
     otry (Ret (read_name msg pos)) (\<lambda>(name, pos).
     otry (Ret (get16 msg pos)) (\<lambda>rtype.
     otry (Ret (get16 msg (pos + 2))) (\<lambda>class.
     otry (Ret (get32 msg (pos + 4))) (\<lambda>ttl.
     otry (Ret (get16 msg (pos + 8))) (\<lambda>rdlen.
     let pos = pos + 10; rdlen = unat rdlen in
     otry (Ret (get_rng msg pos (pos + rdlen))) (\<lambda>rdata.
     otry (read_data msg pos rtype rdata) (\<lambda>data.
     Ret (Some (\<lparr>r_name = name, r_rtype = rtype, r_class = class, r_ttl = ttl, r_data = data\<rparr>,
                pos + rdlen)))))))))"

fun read_questions :: "bytes \<Rightarrow> nat \<Rightarrow> nat \<Rightarrow> question list \<Rightarrow> (question list \<times> nat) option" where
  "read_questions msg 0 pos out = Some (out, pos)"
| "read_questions msg (Suc k) pos out =
     (case read_name msg pos of
        None \<Rightarrow> None
      | Some (name, pos) \<Rightarrow>
          (case get16 msg pos of
             None \<Rightarrow> None
           | Some qtype \<Rightarrow> read_questions msg k (pos + 4) (out @ [\<lparr>q_name = name, q_qtype = qtype\<rparr>])))"

fun read_records :: "bytes \<Rightarrow> nat \<Rightarrow> nat \<Rightarrow> dns_record list \<Rightarrow> (dns_record list \<times> nat) option outcome" where
  "read_records msg 0 pos out = Ret (Some (out, pos))"
| "read_records msg (Suc k) pos out =
     otry (read_record msg pos) (\<lambda>(r, pos). read_records msg k pos (out @ [r]))"

definition mdns_decode :: "bytes \<Rightarrow> message option outcome" where
  "mdns_decode msg =
     (if length msg < 12 then Ret None
      else obind (rd16 msg 0) (\<lambda>id. obind (rd16 msg 2) (\<lambda>flags.
           obind (rd16 msg 4) (\<lambda>nq. obind (rd16 msg 6) (\<lambda>na.
           obind (rd16 msg 8) (\<lambda>nn. obind (rd16 msg 10) (\<lambda>nad.
           otry (Ret (read_questions msg (unat nq) 12 [])) (\<lambda>(questions, pos).
           otry (read_records msg (unat na) pos []) (\<lambda>(answers, pos).
           otry (read_records msg (unat nn) pos []) (\<lambda>(_, pos).
           otry (read_records msg (unat nad) pos []) (\<lambda>(additionals, pos).
           Ret (Some \<lparr>m_id = id, m_flags = flags, m_questions = questions, m_answers = answers,
                      m_additionals = additionals\<rparr>))))))))))))"

section \<open>Layout of what is written\<close>

definition label_bytes :: "rstr list \<Rightarrow> bytes" where
  "label_bytes ls = concat (map (\<lambda>l. of_nat (length l) # l) ls) @ [0]"

definition name_bytes :: "rstr \<Rightarrow> bytes" where
  "name_bytes name =
     (let n = trim_end_byte dot name in label_bytes (if n = [] then [] else split_on dot n))"

lemma foldl_append_map: "foldl (\<lambda>b x. b @ f x) buf xs = buf @ concat (map f xs)"
  by (induction xs arbitrary: buf) simp_all

lemma write_name_eq: "write_name name buf = buf @ name_bytes name"
  by (simp add: write_name_def name_bytes_def label_bytes_def Let_def foldl_append_map)

definition data_bytes :: "record_data \<Rightarrow> bytes" where
  "data_bytes d =
     (case d of
        A ip \<Rightarrow> ip
      | Ptr n \<Rightarrow> name_bytes n
      | Txt strs \<Rightarrow> concat (map (\<lambda>s. of_nat (length s) # s) strs)
      | Srv priority weight port target \<Rightarrow> be16 priority @ be16 weight @ be16 port @ name_bytes target)"

lemma write_data_eq: "write_data d buf = buf @ data_bytes d"
  by (cases d) (simp_all add: write_data_def data_bytes_def write_name_eq foldl_append_map)

definition data_type :: "record_data \<Rightarrow> u16" where
  "data_type d = (case d of A _ \<Rightarrow> QTYPE_A | Ptr _ \<Rightarrow> QTYPE_PTR | Txt _ \<Rightarrow> QTYPE_TXT | Srv _ _ _ _ \<Rightarrow> QTYPE_SRV)"

definition record_bytes :: "dns_record \<Rightarrow> bytes" where
  "record_bytes r =
     name_bytes (r_name r) @ be16 (data_type (r_data r)) @ be16 (r_class r) @ be32 (r_ttl r) @
     be16 (of_nat (length (data_bytes (r_data r)))) @ data_bytes (r_data r)"

lemma write_record_eq: "write_record r buf = Ret (buf @ record_bytes r)"
proof -
  let ?pre = "buf @ name_bytes (r_name r) @ be16 (data_type (r_data r)) @ be16 (r_class r) @ be32 (r_ttl r)"
  have "set_rng (?pre @ be16 0 @ data_bytes (r_data r)) (length ?pre)
          (be16 (of_nat (length (data_bytes (r_data r))))) = Ret (buf @ record_bytes r)"
    by (subst set_rng_written) (simp_all add: record_bytes_def)
  then show ?thesis
    by (simp add: write_record_def write_name_eq write_data_eq Let_def data_type_def add.assoc)
qed

definition question_bytes :: "question \<Rightarrow> bytes" where
  "question_bytes q = name_bytes (q_name q) @ be16 (q_qtype q) @ be16 CLASS_IN"

definition message_bytes :: "message \<Rightarrow> bytes" where
  "message_bytes m =
     be16 (m_id m) @ be16 (m_flags m) @ be16 (of_nat (length (m_questions m))) @
     be16 (of_nat (length (m_answers m))) @ be16 0 @ be16 (of_nat (length (m_additionals m))) @
     concat (map question_bytes (m_questions m)) @ concat (map record_bytes (m_answers m)) @
     concat (map record_bytes (m_additionals m))"

lemma mdns_encode_eq: "mdns_encode m = Ret (message_bytes m)"
proof -
  have q: "foldl write_question b qs = b @ concat (map question_bytes qs)" for b qs
    by (induction qs arbitrary: b) (simp_all add: write_question_def question_bytes_def write_name_eq)
  show ?thesis
    unfolding mdns_encode_def Let_def
    by (subst ofold_extend[where h = record_bytes])
       (simp_all add: write_record_eq q message_bytes_def)
qed

section \<open>What is read back\<close>

definition good_label :: "rstr \<Rightarrow> bool" where
  "good_label l \<longleftrightarrow> l \<noteq> [] \<and> length l \<le> 63 \<and> valid_utf8 l"

definition good_name :: "rstr \<Rightarrow> bool" where
  "good_name n \<longleftrightarrow> n = [] \<or> list_all good_label (split_on dot n)"

lemma small_length_byte: "n < 64 \<Longrightarrow> (of_nat n :: u8) AND 0xC0 = 0"
proof -
  have "list_all (\<lambda>n. (of_nat n :: u8) AND 0xC0 = 0) [0..<64]" by code_simp
  then show "n < 64 \<Longrightarrow> (of_nat n :: u8) AND 0xC0 = 0" by (simp add: list_all_iff)
qed

lemma read_labels:
  assumes "list_all good_label ls"
  shows "read_name_loop (pre @ label_bytes ls @ post) (length pre) acc False e 0 =
           Some (acc @ ls, length pre + length (label_bytes ls))"
  using assms
proof (induction ls arbitrary: pre acc e)
  case Nil
  then show ?case by (simp add: read_name_loop.simps label_bytes_def get_idx_def)
next
  case (Cons l ls)
  let ?len = "of_nat (length l) :: u8"
  have l: "l \<noteq> []" "length l < 64" "valid_utf8 l" using Cons.prems by (simp_all add: good_label_def)
  have u: "unat ?len = length l" using l(2) by (intro unat_of_nat_small) simp
  then have nz: "?len \<noteq> 0" using l(1) by (metis length_0_conv unsigned_0)
  have msg: "pre @ label_bytes (l # ls) @ post = pre @ ?len # l @ label_bytes ls @ post"
    by (simp add: label_bytes_def)
  have i: "get_idx (pre @ ?len # l @ label_bytes ls @ post) (length pre) = Some ?len"
    by (rule get_idx_written) simp
  have g: "get_rng (pre @ ?len # l @ label_bytes ls @ post) (length pre + 1) (length pre + 1 + length l) = Some l"
    using get_rng_written[of "length pre + 1" "pre @ [?len]" "length pre + 1 + length l" l "label_bytes ls @ post"]
    by simp
  have "read_name_loop ((pre @ ?len # l) @ label_bytes ls @ post) (length (pre @ ?len # l)) (acc @ [l]) False
      (length (pre @ ?len # l)) 0 = Some ((acc @ [l]) @ ls, length (pre @ ?len # l) + length (label_bytes ls))"
    using Cons.prems by (intro Cons.IH) simp
  then show ?case
    using nz small_length_byte[OF l(2)] l(3) i g u
    by (subst read_name_loop.simps) (simp add: msg from_utf8_def label_bytes_def)
qed

lemma trim_good_name: "good_name n \<Longrightarrow> trim_end_byte dot n = n"
proof (cases n rule: rev_cases)
  case (snoc m c)
  assume g: "good_name n"
  have "c \<noteq> dot"
  proof
    assume c: "c = dot"
    have "split_on dot (m @ [dot]) = split_on dot m @ [[]]" for m
      by (induction m) (auto split: list.splits)
    then show False using g c by (simp add: good_name_def snoc good_label_def)
  qed
  then show ?thesis by (simp add: trim_end_byte_def snoc)
qed (simp add: trim_end_byte_def)

lemma read_name_written:
  assumes "good_name n" "p = length pre"
  shows "read_name (pre @ name_bytes n @ post) p = Some (n, p + length (name_bytes n))"
proof -
  let ?ls = "if n = [] then [] else split_on dot n"
  have "list_all good_label ?ls" using assms(1) by (auto simp: good_name_def)
  from read_labels[OF this, of pre post "[]" p] show ?thesis
    by (simp add: read_name_def name_bytes_def trim_good_name[OF assms(1)] assms(2) Let_def)
qed

lemma read_txt_written:
  assumes "\<forall>s \<in> set strs. length s \<le> 255"
  shows "read_txt (pre @ concat (map (\<lambda>s. of_nat (length s) # s) strs)) (length pre) acc = acc @ strs"
  using assms
proof (induction strs arbitrary: pre acc)
  case Nil
  then show ?case by (simp add: read_txt.simps)
next
  case (Cons s strs)
  let ?n = "of_nat (length s) :: u8"
  have u: "unat ?n = length s" using Cons.prems by (intro unat_of_nat_small) simp
  let ?rest = "concat (map (\<lambda>s. of_nat (length s) # s) strs)"
  have "slice (pre @ ?n # s @ ?rest) (Suc (length pre)) (Suc (length pre + length s)) = s"
    using slice_append_exact[of "Suc (length pre)" "pre @ [?n]" "Suc (length pre + length s)" s ?rest] by simp
  moreover have "read_txt ((pre @ ?n # s) @ ?rest) (length (pre @ ?n # s)) (acc @ [s]) = (acc @ [s]) @ strs"
    using Cons.prems by (intro Cons.IH) simp
  ultimately show ?case
    using u by (subst read_txt.simps) (simp add: nth_append)
qed

definition good_data :: "record_data \<Rightarrow> bool" where
  "good_data d \<longleftrightarrow>
     length (data_bytes d) < 65536 \<and>
     (case d of
        A ip \<Rightarrow> length ip = 4
      | Ptr n \<Rightarrow> good_name n
      | Txt strs \<Rightarrow> (\<forall>s \<in> set strs. length s \<le> 255)
      | Srv _ _ _ target \<Rightarrow> good_name target)"

lemma read_data_written:
  assumes "good_data d" "p = length pre"
  shows "read_data (pre @ data_bytes d @ post) p (data_type d) (data_bytes d) = Ret (Some d)"
proof (cases d)
  case (A ip)
  then have "length ip = 4" using assms(1) by (simp add: good_data_def)
  then obtain a b c e where "ip = [a, b, c, e]"
    by (auto simp: length_Suc_conv numeral_eq_Suc)
  then show ?thesis by (simp add: A read_data_def data_bytes_def data_type_def qtype_defs panicfree)
next
  case (Ptr n)
  then show ?thesis using assms read_name_written[of n p pre post]
    by (simp add: read_data_def data_bytes_def data_type_def qtype_defs good_data_def)
next
  case (Txt strs)
  then show ?thesis using assms read_txt_written[of strs "[]" "[]"]
    by (simp add: read_data_def data_bytes_def data_type_def qtype_defs good_data_def)
next
  case (Srv pr w po t)
  have "read_name ((pre @ be16 pr @ be16 w @ be16 po) @ name_bytes t @ post) (p + 6) =
      Some (t, p + 6 + length (name_bytes t))"
    using assms by (intro read_name_written) (simp_all add: Srv good_data_def)
  moreover have "rd16 (be16 pr @ be16 w @ be16 po @ name_bytes t) 0 = Ret pr"
    "rd16 (be16 pr @ be16 w @ be16 po @ name_bytes t) 2 = Ret w"
    "rd16 (be16 pr @ be16 w @ be16 po @ name_bytes t) 4 = Ret po"
    using rd16_written[of 0 "[]"] rd16_written[of 2 "be16 pr" w] rd16_written[of 4 "be16 pr @ be16 w" po]
    by simp_all
  ultimately show ?thesis
    by (simp add: Srv read_data_def data_bytes_def data_type_def qtype_defs)
qed

definition good_record :: "dns_record \<Rightarrow> bool" where
  "good_record r \<longleftrightarrow> good_name (r_name r) \<and> good_data (r_data r) \<and> r_rtype r = data_type (r_data r)"

lemma read_record_written:
  assumes "good_record r" "p = length pre"
  shows "read_record (pre @ record_bytes r @ post) p = Ret (Some (r, p + length (record_bytes r)))"
proof -
  let ?n = "name_bytes (r_name r)" and ?t = "be16 (data_type (r_data r))" and ?c = "be16 (r_class r)"
    and ?l = "be32 (r_ttl r)" and ?k = "be16 (of_nat (length (data_bytes (r_data r))))"
    and ?d = "data_bytes (r_data r)"
  let ?msg = "pre @ record_bytes r @ post" and ?q = "p + length ?n"
  have g: "good_name (r_name r)" "good_data (r_data r)" "length ?d < 65536"
    using assms(1) by (auto simp: good_record_def good_data_def)
  have u: "unat (of_nat (length ?d) :: u16) = length ?d" by (rule unat_of_nat_u16[OF g(3)])
  have name: "read_name ?msg p = Some (r_name r, ?q)"
    using read_name_written[OF g(1) assms(2), of "?t @ ?c @ ?l @ ?k @ ?d @ post"] by (simp add: record_bytes_def)
  have f: "get16 ?msg ?q = Some (data_type (r_data r))" "get16 ?msg (?q + 2) = Some (r_class r)"
    "get32 ?msg (?q + 4) = Some (r_ttl r)" "get16 ?msg (?q + 8) = Some (of_nat (length ?d))"
    "get_rng ?msg (?q + 10) (?q + 10 + length ?d) = Some ?d"
    using get16_written[of ?q "pre @ ?n" "data_type (r_data r)"] get16_written[of "?q + 2" "pre @ ?n @ ?t" "r_class r"]
      get32_written[of "?q + 4" "pre @ ?n @ ?t @ ?c" "r_ttl r"]
      get16_written[of "?q + 8" "pre @ ?n @ ?t @ ?c @ ?l" "of_nat (length ?d)"]
      get_rng_written[of "?q + 10" "pre @ ?n @ ?t @ ?c @ ?l @ ?k" "?q + 10 + length ?d" ?d post] assms(2)
    by (simp_all add: record_bytes_def)
  have data: "read_data ?msg (?q + 10) (data_type (r_data r)) ?d = Ret (Some (r_data r))"
    using read_data_written[OF g(2), of "?q + 10" "pre @ ?n @ ?t @ ?c @ ?l @ ?k" post] assms(2)
    by (simp add: record_bytes_def)
  have "r = \<lparr>r_name = r_name r, r_rtype = data_type (r_data r), r_class = r_class r, r_ttl = r_ttl r,
             r_data = r_data r\<rparr>"
    using assms(1) by (simp add: good_record_def)
  moreover have "length (record_bytes r) = length ?n + 10 + length ?d" by (simp add: record_bytes_def)
  ultimately show ?thesis
    using name f data u by (simp add: read_record_def Let_def add.assoc)
qed

section \<open>Messages\<close>

definition good_message :: "message \<Rightarrow> bool" where
  "good_message m \<longleftrightarrow>
     length (m_questions m) < 65536 \<and> length (m_answers m) < 65536 \<and> length (m_additionals m) < 65536 \<and>
     list_all (\<lambda>q. good_name (q_name q)) (m_questions m) \<and> list_all good_record (m_answers m) \<and>
     list_all good_record (m_additionals m)"

lemma read_questions_written:
  "list_all (\<lambda>q. good_name (q_name q)) qs \<Longrightarrow> p = length pre \<Longrightarrow>
   read_questions (pre @ concat (map question_bytes qs) @ post) (length qs) p out =
     Some (out @ qs, p + length (concat (map question_bytes qs)))"
proof (induction qs arbitrary: pre p out)
  case (Cons q qs)
  let ?rest = "be16 (q_qtype q) @ be16 CLASS_IN @ concat (map question_bytes qs) @ post"
  let ?p = "p + length (name_bytes (q_name q))"
  define M where "M = pre @ concat (map question_bytes (q # qs)) @ post"
  have "M = pre @ name_bytes (q_name q) @ ?rest"
    unfolding M_def list.map concat.simps question_bytes_def[of q] by simp
  moreover have "read_name (pre @ name_bytes (q_name q) @ ?rest) p = Some (q_name q, ?p)"
    using Cons.prems by (intro read_name_written) simp_all
  moreover have "get16 (pre @ name_bytes (q_name q) @ ?rest) ?p = Some (q_qtype q)"
    using get16_written[of ?p "pre @ name_bytes (q_name q)" "q_qtype q"] Cons.prems(2) by simp
  ultimately have 1: "read_name M p = Some (q_name q, ?p)" "get16 M ?p = Some (q_qtype q)"
    by (simp_all only:)
  have eta: "\<lparr>q_name = q_name q, q_qtype = q_qtype q\<rparr> = q" by (cases q) simp
  have len: "length (question_bytes q) = length (name_bytes (q_name q)) + 4"
    by (simp add: question_bytes_def)
  have "read_questions ((pre @ question_bytes q) @ concat (map question_bytes qs) @ post) (length qs)
      (p + length (question_bytes q)) (out @ [q]) =
      Some ((out @ [q]) @ qs, p + length (question_bytes q) + length (concat (map question_bytes qs)))"
    using Cons.prems by (intro Cons.IH) simp_all
  then have "read_questions M (length qs) (?p + 4) (out @ [q]) =
      Some (out @ q # qs, p + length (concat (map question_bytes (q # qs))))"
    by (simp add: M_def len add.assoc)
  then have "read_questions M (length qs) (?p + 4) (out @ [\<lparr>q_name = q_name q, q_qtype = q_qtype q\<rparr>]) =
      Some (out @ q # qs, p + length (concat (map question_bytes (q # qs))))"
    unfolding eta .
  then show ?case
    unfolding M_def[symmetric] using 1 by simp
qed simp

lemma read_records_written:
  "list_all good_record rs \<Longrightarrow> p = length pre \<Longrightarrow>
   read_records (pre @ concat (map record_bytes rs) @ post) (length rs) p out =
     Ret (Some (out @ rs, p + length (concat (map record_bytes rs))))"
proof (induction rs arbitrary: pre p out)
  case (Cons r rs)
  have "read_record (pre @ record_bytes r @ concat (map record_bytes rs) @ post) p =
      Ret (Some (r, p + length (record_bytes r)))"
    using Cons.prems by (intro read_record_written) simp_all
  moreover have "read_records ((pre @ record_bytes r) @ concat (map record_bytes rs) @ post) (length rs)
      (p + length (record_bytes r)) (out @ [r]) =
      Ret (Some ((out @ [r]) @ rs, p + length (record_bytes r) + length (concat (map record_bytes rs))))"
    using Cons.prems by (intro Cons.IH) simp_all
  ultimately show ?case by (simp add: add.assoc)
qed simp

lemma mdns_decode_encode:
  assumes "good_message m"
  shows "mdns_decode (message_bytes m) = Ret (Some m)"
proof -
  let ?hd = "be16 (m_id m) @ be16 (m_flags m) @ be16 (of_nat (length (m_questions m))) @
     be16 (of_nat (length (m_answers m))) @ be16 0 @ be16 (of_nat (length (m_additionals m)))"
  let ?q = "concat (map question_bytes (m_questions m))" and ?a = "concat (map record_bytes (m_answers m))"
    and ?d = "concat (map record_bytes (m_additionals m))"
  have msg: "message_bytes m = ?hd @ ?q @ ?a @ ?d" by (simp add: message_bytes_def)
  have n: "unat (of_nat (length (m_questions m)) :: u16) = length (m_questions m)"
    "unat (of_nat (length (m_answers m)) :: u16) = length (m_answers m)"
    "unat (of_nat (length (m_additionals m)) :: u16) = length (m_additionals m)"
    using assms by (simp_all only: good_message_def unat_of_nat_u16)
  have h: "rd16 (message_bytes m) 0 = Ret (m_id m)" "rd16 (message_bytes m) 2 = Ret (m_flags m)"
    "rd16 (message_bytes m) 4 = Ret (of_nat (length (m_questions m)))"
    "rd16 (message_bytes m) 6 = Ret (of_nat (length (m_answers m)))"
    "rd16 (message_bytes m) 8 = Ret 0" "rd16 (message_bytes m) 10 = Ret (of_nat (length (m_additionals m)))"
    using rd16_written[of 0 "[]" "m_id m"] rd16_written[of 2 "be16 (m_id m)" "m_flags m"]
      rd16_written[of 4 "be16 (m_id m) @ be16 (m_flags m)" "of_nat (length (m_questions m))"]
      rd16_written[of 6 "be16 (m_id m) @ be16 (m_flags m) @ be16 (of_nat (length (m_questions m)))"
        "of_nat (length (m_answers m))"]
      rd16_written[of 8 "be16 (m_id m) @ be16 (m_flags m) @ be16 (of_nat (length (m_questions m))) @
        be16 (of_nat (length (m_answers m)))" 0]
      rd16_written[of 10 "be16 (m_id m) @ be16 (m_flags m) @ be16 (of_nat (length (m_questions m))) @
        be16 (of_nat (length (m_answers m))) @ be16 0" "of_nat (length (m_additionals m))"]
    by (simp_all add: message_bytes_def)
  have q: "read_questions (message_bytes m) (length (m_questions m)) 12 [] = Some (m_questions m, 12 + length ?q)"
    using read_questions_written[of "m_questions m" 12 ?hd "?a @ ?d" "[]"] assms
    by (simp add: msg good_message_def)
  have a: "read_records (message_bytes m) (length (m_answers m)) (12 + length ?q) [] =
      Ret (Some (m_answers m, 12 + length ?q + length ?a))"
    using read_records_written[of "m_answers m" "12 + length ?q" "?hd @ ?q" ?d "[]"] assms
    by (simp add: msg good_message_def)
  have d: "read_records (message_bytes m) (length (m_additionals m)) (12 + length ?q + length ?a) [] =
      Ret (Some (m_additionals m, 12 + length ?q + length ?a + length ?d))"
    using read_records_written[of "m_additionals m" "12 + length ?q + length ?a" "?hd @ ?q @ ?a" "[]" "[]"] assms
    by (simp add: msg good_message_def)
  have "12 \<le> length (message_bytes m)" by (simp add: message_bytes_def)
  then show ?thesis using h n q a d by (simp add: mdns_decode_def not_less)
qed

text \<open>
  C40: a well-formed message survives the wire: encoding it does not panic, and decoding the
  bytes gives it back: names of nonempty UTF-8 labels of at most 63 bytes, TXT strings of at
  most 255, data of at most 65535.
\<close>

theorem mdns_roundtrip:
  assumes "good_message m"
  shows "\<exists>bs. mdns_encode m = Ret bs \<and> mdns_decode bs = Ret (Some m)"
  using mdns_decode_encode[OF assms] by (simp add: mdns_encode_eq)

section \<open>Every packet\<close>

lemma read_data_no_panic: "read_data msg pos rtype rdata \<noteq> Panic"
  by (simp add: read_data_def panicfree)

lemma read_record_no_panic: "read_record msg pos \<noteq> Panic"
proof -
  have "\<exists>o1. read_data msg p t d = Ret o1" for p t d
    using read_data_no_panic not_Panic_iff by metis
  then have "otry (read_data msg p t d) (\<lambda>v. Ret (f v)) \<noteq> Panic" for p t d and f :: "_ \<Rightarrow> (dns_record \<times> nat) option"
    by (metis (no_types, lifting) option.case_eq_if otry.simps(2) outcome.distinct(1))
  then show ?thesis
    by (simp add: read_record_def Let_def split: option.split prod.split)
qed

lemma read_records_no_panic: "read_records msg k pos out \<noteq> Panic"
proof (induction k arbitrary: pos out)
  case (Suc k)
  obtain v where "read_record msg pos = Ret v" using read_record_no_panic not_Panic_iff by metis
  then show ?case using Suc by (auto split: option.split)
qed simp

lemma mdns_decode_ok: "\<exists>r. mdns_decode bs = Ret r"
proof (cases "length bs < 12")
  case False
  have r: "\<exists>v. read_records msg k pos out = Ret v" for msg k pos out
    using read_records_no_panic not_Panic_iff by metis
  have "otry (read_records msg k pos out) f \<noteq> Panic" if "\<And>v. f v \<noteq> Panic" for msg k pos out
    and f :: "_ \<Rightarrow> message option outcome"
    using r[of msg k pos out] that by (auto split: option.split_asm)
  then have "mdns_decode bs \<noteq> Panic"
    using False by (auto simp: mdns_decode_def panicfree split: option.split prod.split)
  then show ?thesis by (simp add: not_Panic_iff)
qed (simp add: mdns_decode_def)

text \<open>
  Decoding any packet returns: no index, range or arithmetic of the decoder is out of
  bounds, whatever the counts, lengths and compression pointers of the packet say (the loop
  over the pointers is the total function \<open>read_name_loop\<close>).
\<close>

theorem mdns_decode_total: "\<exists>r. mdns_decode bs = Ret r"
  by (rule mdns_decode_ok)

section \<open>Services, the announcement and the probe\<close>

definition service_instance :: "rstr \<Rightarrow> rstr \<Rightarrow> rstr" where
  "service_instance hostname service = hostname @ dot # service"

definition ARC_SERVICE :: rstr where "ARC_SERVICE = lit ''_netaudio-arc._udp.local''"
definition CMC_SERVICE :: rstr where "CMC_SERVICE = lit ''_netaudio-cmc._udp.local''"
definition CHAN_SERVICE :: rstr where "CHAN_SERVICE = lit ''_netaudio-chan._udp.local''"

definition txt_kv :: "rstr \<Rightarrow> rstr \<Rightarrow> bytes" where
  "txt_kv k v = k @ 61 # v"

definition host_local :: "rstr \<Rightarrow> rstr" where
  "host_local hostname = hostname @ lit ''.local''"

definition arc_txt :: "rstr \<Rightarrow> rstr \<Rightarrow> rstr \<Rightarrow> bytes list" where
  "arc_txt board manufacturer model =
     [txt_kv (lit ''arcp_vers'') (lit ''2.7.41''), txt_kv (lit ''arcp_min'') (lit ''0.2.4''),
      txt_kv (lit ''router_vers'') (lit ''4.0.2''), txt_kv (lit ''router_info'') board,
      txt_kv (lit ''mf'') manufacturer, txt_kv (lit ''model'') model]"

definition cmc_txt :: "rstr \<Rightarrow> u16 \<Rightarrow> rstr \<Rightarrow> rstr \<Rightarrow> bytes list" where
  "cmc_txt device_id_hex process_id manufacturer model =
     [txt_kv (lit ''id'') device_id_hex, txt_kv (lit ''process'') (show_dec (unat process_id)),
      txt_kv (lit ''cmcp_vers'') (lit ''1.2.0''), txt_kv (lit ''cmcp_min'') (lit ''1.0.0''),
      txt_kv (lit ''server_vers'') (lit ''4.0.2''), txt_kv (lit ''channels'') (lit ''0x6000004d''),
      txt_kv (lit ''mf'') manufacturer, txt_kv (lit ''model'') model, [], []]"

definition build_announcement ::
  "rstr \<Rightarrow> bytes \<Rightarrow> u16 \<Rightarrow> u16 \<Rightarrow> rstr \<Rightarrow> u16 \<Rightarrow> rstr \<Rightarrow> rstr \<Rightarrow> rstr \<Rightarrow> message" where
  "build_announcement hostname ip arc_port cmc_port device_id_hex process_id board manufacturer model =
     (let hl = host_local hostname;
          arc_inst = service_instance hostname ARC_SERVICE;
          cmc_inst = service_instance hostname CMC_SERVICE;
          rec = (\<lambda>name rtype class data.
            \<lparr>r_name = name, r_rtype = rtype, r_class = class, r_ttl = TTL_HOST, r_data = data\<rparr>)
      in \<lparr>m_id = 0, m_flags = FLAGS_RESPONSE, m_questions = [],
          m_answers = [rec ARC_SERVICE QTYPE_PTR CLASS_IN (Ptr arc_inst),
                       rec CMC_SERVICE QTYPE_PTR CLASS_IN (Ptr cmc_inst)],
          m_additionals =
            [rec arc_inst QTYPE_SRV CLASS_FLUSH (Srv 0 0 arc_port hl),
             rec arc_inst QTYPE_TXT CLASS_FLUSH (Txt (arc_txt board manufacturer model)),
             rec cmc_inst QTYPE_SRV CLASS_FLUSH (Srv 0 0 cmc_port hl),
             rec cmc_inst QTYPE_TXT CLASS_FLUSH (Txt (cmc_txt device_id_hex process_id manufacturer model)),
             rec hl QTYPE_A CLASS_FLUSH (A ip)]\<rparr>)"

definition build_probe :: "rstr \<Rightarrow> message" where
  "build_probe hostname =
     \<lparr>m_id = 0, m_flags = FLAGS_QUERY,
      m_questions = [\<lparr>q_name = host_local hostname, q_qtype = QTYPE_ANY\<rparr>,
                     \<lparr>q_name = service_instance hostname ARC_SERVICE, q_qtype = QTYPE_ANY\<rparr>,
                     \<lparr>q_name = service_instance hostname CMC_SERVICE, q_qtype = QTYPE_ANY\<rparr>],
      m_answers = [], m_additionals = []\<rparr>"

fun txt_get :: "bytes list \<Rightarrow> rstr \<Rightarrow> rstr option" where
  "txt_get [] key = None"
| "txt_get (s # strs) key =
     (case (case from_utf8 s of Some t \<Rightarrow> strip_prefix (key @ [61]) t | None \<Rightarrow> None) of
        Some v \<Rightarrow> Some v
      | None \<Rightarrow> txt_get strs key)"

definition chan_instance :: "rstr \<Rightarrow> rstr \<Rightarrow> rstr" where
  "chan_instance tx_channel tx_hostname = tx_channel @ 64 # tx_hostname @ dot # CHAN_SERVICE"

definition parse_fpp :: "rstr \<Rightarrow> u16 \<times> u16" where
  "parse_fpp v =
     (let parts = split_on 44 v;
          part = (\<lambda>i d. case get_idx parts i of
                     Some s \<Rightarrow> (case parse_u16 (str_trim s) of Some n \<Rightarrow> n | None \<Rightarrow> d)
                   | None \<Rightarrow> d)
      in (part 0 16, part 1 2))"

definition names_match :: "rstr \<Rightarrow> rstr \<Rightarrow> bool" where
  "names_match a b \<longleftrightarrow> eq_ignore_ascii_case (trim_end_byte dot a) (trim_end_byte dot b)"

text \<open>The responder of \<open>src/net/mdns.rs\<close>: which queries a device answers.\<close>

definition should_answer :: "message \<Rightarrow> rstr \<Rightarrow> bool" where
  "should_answer msg hostname =
     (if m_flags msg AND 0x8000 \<noteq> 0 then False
      else
        (let arc = service_instance hostname ARC_SERVICE;
             cmc = service_instance hostname CMC_SERVICE;
             host = host_local hostname
         in list_ex (\<lambda>q. names_match (q_name q) ARC_SERVICE \<or> names_match (q_name q) CMC_SERVICE \<or>
                          names_match (q_name q) arc \<or> names_match (q_name q) cmc \<or>
                          names_match (q_name q) host) (m_questions msg)))"

definition query_message :: "rstr \<Rightarrow> u16 \<Rightarrow> message" where
  "query_message name qtype =
     \<lparr>m_id = 0, m_flags = FLAGS_QUERY, m_questions = [\<lparr>q_name = name, q_qtype = qtype\<rparr>],
      m_answers = [], m_additionals = []\<rparr>"

section \<open>The announcement is well-formed\<close>

text \<open>A host label: what a valid device name is.\<close>

definition host_label :: "rstr \<Rightarrow> bool" where
  "host_label h \<longleftrightarrow> good_label h \<and> dot \<notin> set h"

lemma good_name_prepend:
  assumes "host_label h" "good_name n" "n \<noteq> []"
  shows "good_name (h @ dot # n)"
  using assms by (simp add: good_name_def host_label_def split_on_append)

lemma services_good:
  "good_name ARC_SERVICE" "good_name CMC_SERVICE" "good_name (lit ''local'')" "good_label (lit ''local'')"
  by code_simp+

lemma host_local_good: "host_label h \<Longrightarrow> good_name (host_local h)"
  using good_name_prepend[of h "lit ''local''"] services_good(3)
  by (simp add: host_local_def lit_def dot_def)

lemma service_instance_good:
  "host_label h \<Longrightarrow> good_name (service_instance h ARC_SERVICE)"
  "host_label h \<Longrightarrow> good_name (service_instance h CMC_SERVICE)"
  unfolding service_instance_def using services_good
  by (auto intro!: good_name_prepend simp: ARC_SERVICE_def CMC_SERVICE_def lit_def)

lemma length_label_bytes: "ls \<noteq> [] \<Longrightarrow> length (label_bytes ls) = length (join_with dot ls) + 2"
  unfolding label_bytes_def by (induction dot ls rule: join_with.induct) auto

lemma length_name_bytes: "good_name n \<Longrightarrow> length (name_bytes n) \<le> length n + 2"
  using length_label_bytes[of "split_on dot n"]
  by (auto simp: name_bytes_def trim_good_name Let_def label_bytes_def)

lemma length_txt_bytes: "\<forall>s \<in> set strs. length s \<le> 255 \<Longrightarrow>
  length (concat (map (\<lambda>s. of_nat (length s) # s) strs)) \<le> 256 * length strs"
  by (induction strs) auto

lemma good_txt:
  "\<forall>s \<in> set strs. length s \<le> 255 \<Longrightarrow> length strs \<le> 10 \<Longrightarrow> good_data (Txt strs)"
  using length_txt_bytes[of strs] by (simp add: good_data_def data_bytes_def)

lemma length_show_dec: "n < 10 ^ Suc k \<Longrightarrow> length (show_dec n) \<le> Suc k"
proof (induction k arbitrary: n)
  case (Suc k)
  then have "length (show_dec (n div 10)) \<le> Suc k" by (intro Suc.IH) (simp add: div_less_iff_less_mult)
  then show ?case by (subst show_dec.simps) simp
qed (simp add: show_dec.simps)

lemma length_show_u16: "length (show_dec (unat (w :: u16))) \<le> 5"
  using length_show_dec[of "unat w" 4] unat_less_u16[of w] by simp

lemma announcement_good:
  assumes "host_label h" "length h \<le> 31" "length ip = 4" "length hex \<le> 200"
    and "length board \<le> 243" "length mf \<le> 252" "length model \<le> 249"
  shows "good_message (build_announcement h ip arc cmc hex pid board mf model)"
proof -
  have l: "length (host_local h) \<le> 40" "length (service_instance h ARC_SERVICE) \<le> 60"
    "length (service_instance h CMC_SERVICE) \<le> 60"
    using assms(2) by (simp_all add: host_local_def service_instance_def ARC_SERVICE_def CMC_SERVICE_def lit_def)
  have srv: "good_data (Srv 0 0 p (host_local h))" for p
    using length_name_bytes[OF host_local_good[OF assms(1)]] l(1) host_local_good[OF assms(1)]
    by (simp add: good_data_def data_bytes_def)
  have ptr: "good_data (Ptr n)" if "good_name n" "length n \<le> 60" for n
    using length_name_bytes[OF that(1)] that by (simp add: good_data_def data_bytes_def)
  have texts: "good_data (Txt (arc_txt board mf model))" "good_data (Txt (cmc_txt hex pid mf model))"
    using assms(4-) length_show_u16[of pid]
    by (intro good_txt; auto simp: arc_txt_def cmc_txt_def txt_kv_def lit_def)+
  have a: "good_data (A ip)" using assms(3) by (simp add: good_data_def data_bytes_def)
  show ?thesis
    using srv ptr[OF service_instance_good(1)[OF assms(1)] l(2)] ptr[OF service_instance_good(2)[OF assms(1)] l(3)]
      texts a services_good service_instance_good[OF assms(1)] host_local_good[OF assms(1)]
    by (simp add: good_message_def build_announcement_def Let_def good_record_def data_type_def)
qed

lemma probe_good: "host_label h \<Longrightarrow> good_message (build_probe h)"
  by (simp add: good_message_def build_probe_def host_local_good service_instance_good)

text \<open>What a resolver finds under a key is the first entry with that key.\<close>

lemma txt_get_kv:
  "valid_utf8 (txt_kv k v) \<Longrightarrow> txt_get (txt_kv k v # strs) k = Some v"
  using strip_prefix_append[of "k @ [61]" v] by (simp add: from_utf8_def txt_kv_def)

text \<open>
  A device's announcement says what it is: for a host name that is a DNS label, and
  board, manufacturer and model names of at most 243, 252 and 249 bytes, encoding the
  announcement and decoding the packet gives it back, and the device's own probe makes a
  device of the same name answer.
\<close>

theorem announcement_reads_back:
  assumes "host_label h" "length h \<le> 31" "length ip = 4" "length hex \<le> 200"
    and "length board \<le> 243" "length mf \<le> 252" "length model \<le> 249"
  shows "\<exists>bs pr m. mdns_encode (build_announcement h ip arc cmc hex pid board mf model) = Ret bs \<and>
           mdns_decode bs = Ret (Some (build_announcement h ip arc cmc hex pid board mf model)) \<and>
           mdns_encode (build_probe h) = Ret pr \<and> mdns_decode pr = Ret (Some m) \<and> should_answer m h \<and>
           \<not> should_answer (build_announcement h ip arc cmc hex pid board mf model) h"
proof -
  have "should_answer (build_probe h) h"
    by (simp add: should_answer_def build_probe_def FLAGS_QUERY_def names_match_def eq_ignore_ascii_case_def)
  moreover have "\<not> should_answer (build_announcement h ip arc cmc hex pid board mf model) h"
    by (simp add: should_answer_def build_announcement_def Let_def FLAGS_RESPONSE_def)
  ultimately show ?thesis
    using mdns_decode_encode[OF announcement_good[OF assms]] mdns_decode_encode[OF probe_good[OF assms(1)]]
    by (simp add: mdns_encode_eq)
qed

theorem announcement_reads_back_witness:
  "\<exists>bs. mdns_encode (build_announcement (lit ''netaudio'') [192, 168, 1, 10] 4440 8800
          (lit ''0001020304050607'') 1 (lit ''netaudio-rs'') (lit ''Mikansei'') (lit ''netaudio'')) = Ret bs \<and>
        mdns_decode bs = Ret (Some (build_announcement (lit ''netaudio'') [192, 168, 1, 10] 4440 8800
          (lit ''0001020304050607'') 1 (lit ''netaudio-rs'') (lit ''Mikansei'') (lit ''netaudio'')))"
proof -
  have "host_label (lit ''netaudio'')" by code_simp
  from announcement_reads_back[OF this, of "[192, 168, 1, 10]" "lit ''0001020304050607''"
      "lit ''netaudio-rs''" "lit ''Mikansei''" "lit ''netaudio''" 4440 8800 1]
  show ?thesis by (auto simp: lit_def)
qed

theorem mdns_roundtrip_witness:
  "\<exists>bs. mdns_encode (build_probe (lit ''netaudio'')) = Ret bs \<and>
        mdns_decode bs = Ret (Some (build_probe (lit ''netaudio'')))"
proof -
  have "host_label (lit ''netaudio'')" by code_simp
  then show ?thesis by (intro mdns_roundtrip probe_good)
qed

end
