(* ===== verification/Media_Proto.thy ===== *)
theory Media_Proto
  imports Buf
begin

text \<open>
  \<open>src/src/protocol/media.rs\<close>: the 9-byte media header, its sample index and its
  nanosecond time; and the sample/nanosecond conversions of \<open>src/src/device/mod.rs\<close>.
\<close>

definition MEDIA_HEADER_LEN :: nat where "MEDIA_HEADER_LEN = 9"

definition KEEPALIVE :: bytes where "KEEPALIVE = [0x13, 0x37]"

record media_header =
  m_seconds :: u32
  m_index :: u32

definition sample_index :: "media_header \<Rightarrow> u32 \<Rightarrow> u64" where
  "sample_index h sample_rate = ucast (m_seconds h) * ucast sample_rate + ucast (m_index h)"

definition t1_ns :: "media_header \<Rightarrow> u32 \<Rightarrow> u64 outcome" where
  \<comment> \<open>the \<open>u128\<close> product cannot overflow; dividing by a zero rate panics\<close>
  "t1_ns h sample_rate =
     (if sample_rate = 0 then Panic
      else Ret (ucast (m_seconds h) * 1000000000 +
                of_nat (unat (m_index h) * 1000000000 div unat sample_rate)))"

definition media_decode :: "bytes \<Rightarrow> (media_header \<times> bytes) option outcome" where
  "media_decode packet =
     (if length packet < MEDIA_HEADER_LEN then Ret None
      else case do {
          (byte0, r) \<leftarrow> bs_u8 (bs_new packet);
          (seconds, r) \<leftarrow> bs_u32 r;
          (index, r) \<leftarrow> bs_u32 r;
          Some \<lparr>m_seconds = seconds, m_index = index\<rparr> } of
        None \<Rightarrow> Ret None
      | Some h \<Rightarrow> obind (rng packet MEDIA_HEADER_LEN (length packet)) (\<lambda>p. Ret (Some (h, p))))"

definition media_encode :: "u32 \<Rightarrow> u32 \<Rightarrow> bytes \<Rightarrow> bytes" where
  "media_encode seconds index pcm = [0x02] @ be32 seconds @ be32 index @ pcm"

definition split_timestamp :: "u64 \<Rightarrow> u32 \<Rightarrow> (u32 \<times> u32) outcome" where
  "split_timestamp si sample_rate =
     (let rate = ucast sample_rate :: u64
      in if rate = 0 then Panic else Ret (ucast (si div rate), ucast (si mod rate)))"

text \<open>\<open>latency_samples\<close>, \<open>ns_to_samples\<close> and \<open>samples_to_ns\<close> of \<open>device/mod.rs\<close>.\<close>

definition latency_samples :: "nat \<Rightarrow> u32 \<Rightarrow> u64" where
  \<comment> \<open>\<open>d\<close> is \<open>Duration::as_nanos\<close>; \<open>saturating_mul\<close> stops at \<open>u64::MAX\<close>\<close>
  "latency_samples d rate =
     (let ns = unat (of_nat d :: u64)
      in of_nat (min (ns * unat rate) (2 ^ 64 - 1) div 1000000000))"

definition ns_to_samples :: "u64 \<Rightarrow> u32 \<Rightarrow> u64" where
  "ns_to_samples ns rate = of_nat (unat ns * unat rate div 1000000000)"

definition samples_to_ns :: "u64 \<Rightarrow> u32 \<Rightarrow> u64 outcome" where
  "samples_to_ns s rate =
     (if rate = 0 then Panic else Ret (of_nat (unat s * 1000000000 div unat rate)))"

section \<open>The header\<close>

lemma media_decode_eq:
  "media_decode p = Ret
    (if 9 \<le> length p
     then Some (\<lparr>m_seconds = from_be32 (p ! 1) (p ! 2) (p ! 3) (p ! 4),
                 m_index = from_be32 (p ! 5) (p ! 6) (p ! 7) (p ! 8)\<rparr>, drop 9 p)
     else None)"
proof (cases "9 \<le> length p")
  case True
  then show ?thesis
    by (simp add: media_decode_def MEDIA_HEADER_LEN_def bs_new_def wire panicfree slice_def
        eval_nat_numeral)
qed (simp add: media_decode_def MEDIA_HEADER_LEN_def)

lemma media_decode_encode:
  "media_decode (media_encode s i pcm) = Ret (Some (\<lparr>m_seconds = s, m_index = i\<rparr>, pcm))"
  by (simp add: media_decode_eq media_encode_def be32_def)

section \<open>Time\<close>

lemma unat_sample_index:
  assumes "unat (m_index h) < unat rate"
  shows "unat (sample_index h rate) = unat (m_seconds h) * unat rate + unat (m_index h)"
proof -
  have s: "unat (m_seconds h) < 2 ^ 32" and r: "unat rate < 2 ^ 32"
    using unat_less_u32[of "m_seconds h"] unat_less_u32[of rate] by simp_all
  have "unat (m_seconds h) * unat rate \<le> (2 ^ 32 - 1) * (2 ^ 32 - 1)"
    using s r by (intro mult_le_mono) simp_all
  then have "unat (m_seconds h) * unat rate + unat (m_index h) < 2 ^ 64"
    using assms r by simp
  then show ?thesis
    by (simp add: sample_index_def unat_word_ariths)
qed

text \<open>
  Scaling a count to nanoseconds and back, rounding down twice, loses at most one.
\<close>

lemma scale_back:
  fixes r i D :: nat
  assumes "0 < r" "r \<le> D"
  shows "i * D div r * r div D \<le> i" "i \<le> i * D div r * r div D + 1"
proof -
  have le: "i * D div r * r \<le> i * D" by simp
  from div_le_mono[OF this, of D] assms show "i * D div r * r div D \<le> i" by simp
  have "i * D < i * D div r * r + r"
    using assms(1) by (metis dividend_less_div_times add.commute)
  with assms(2) have "i * D < (i * D div r * r) + D" by simp
  then have "i * D div D \<le> (i * D div r * r + D) div D"
    by (intro div_le_mono) simp
  also have "\<dots> = i * D div r * r div D + 1"
    using assms div_add_self2[of D] by simp
  finally show "i \<le> i * D div r * r div D + 1" using assms by simp
qed

text \<open>
  Splitting a sample index into a media header's seconds and index and reading it
  back is the identity, as long as the seconds fit 32 bits; the index part is below the
  sample rate.
\<close>

theorem split_timestamp_roundtrip:
  assumes "rate \<noteq> 0" "unat n div unat rate < 2 ^ 32"
  shows "\<exists>s i. split_timestamp n rate = Ret (s, i) \<and>
     sample_index \<lparr>m_seconds = s, m_index = i\<rparr> rate = n \<and> i < rate"
proof -
  let ?s = "ucast (n div ucast rate) :: u32" and ?i = "ucast (n mod ucast rate) :: u32"
  have r: "unat rate \<noteq> 0" using assms(1) by (simp add: unat_eq_zero)
  have r32: "unat rate < 2 ^ 32" using unat_less_u32[of rate] by simp
  have s: "unat ?s = unat n div unat rate"
    using assms(2)
    by (simp add: unsigned_ucast_eq[of "n div ucast rate"] unat_div_distrib take_bit_nat_eq_self)
  have ilt: "unat n mod unat rate < unat rate" using r by simp
  then have i: "unat ?i = unat n mod unat rate"
    using r32
    by (simp add: unsigned_ucast_eq[of "n mod ucast rate"] unat_mod_distrib take_bit_nat_eq_self)
  have "unat (sample_index \<lparr>m_seconds = ?s, m_index = ?i\<rparr> rate) = unat n"
    using ilt i s by (subst unat_sample_index) simp_all
  then have "sample_index \<lparr>m_seconds = ?s, m_index = ?i\<rparr> rate = n"
    by (simp add: word_unat_eq_iff)
  moreover have "?i < rate" using ilt i by (simp add: word_less_nat_alt)
  moreover have "unat (ucast rate :: u64) \<noteq> 0" using r by simp
  then have "(ucast rate :: u64) \<noteq> 0" by (metis unat_0)
  ultimately show ?thesis by (simp add: split_timestamp_def Let_def)
qed

theorem split_timestamp_roundtrip_witness:
  "\<exists>s i. split_timestamp 123456789 48000 = Ret (s, i) \<and>
     sample_index \<lparr>m_seconds = s, m_index = i\<rparr> 48000 = 123456789 \<and> i < 48000"
  by (rule split_timestamp_roundtrip) simp_all

text \<open>
  The time of a media packet and its sample index agree: for a packet whose index is
  below the rate, the nanosecond time fed to the clock converts back to the packet's
  sample index or to the one before it, never further away, and nothing wraps.
\<close>

theorem t1_ns_matches_sample_index:
  assumes "unat (m_index h) < unat rate" "unat rate \<le> 1000000000"
  shows "\<exists>t. t1_ns h rate = Ret t \<and>
     unat (ns_to_samples t rate) \<le> unat (sample_index h rate) \<and>
     unat (sample_index h rate) \<le> unat (ns_to_samples t rate) + 1"
proof -
  let ?s = "unat (m_seconds h)" and ?i = "unat (m_index h)" and ?r = "unat rate"
  let ?D = "1000000000 :: nat"
  have r: "0 < ?r" using assms(1) by simp
  have s: "?s < 2 ^ 32" using unat_less_u32[of "m_seconds h"] by simp
  define q where "q = ?i * ?D div ?r"
  have q: "q * ?r div ?D \<le> ?i" "?i \<le> q * ?r div ?D + 1"
    using scale_back[OF r assms(2), of ?i] by (simp_all add: q_def)
  have "q \<le> ?D"
    using assms(1) div_le_mono[of "?i * ?D" "?r * ?D" ?r] r by (simp add: q_def)
  then have t: "?s * ?D + q < 2 ^ 64" using s by simp
  let ?t = "ucast (m_seconds h) * 1000000000 + of_nat q :: u64"
  have ut: "unat ?t = ?s * ?D + q"
    using t \<open>q \<le> ?D\<close> by (simp add: unat_word_ariths unat_of_nat take_bit_eq_mod)
  have "(?s * ?D + q) * ?r = (?s * ?r) * ?D + q * ?r"
    by (simp add: algebra_simps)
  then have d: "(?s * ?D + q) * ?r div ?D = ?s * ?r + q * ?r div ?D"
    by simp
  have si: "unat (sample_index h rate) = ?s * ?r + ?i"
    by (rule unat_sample_index[OF assms(1)])
  then have "?s * ?r + ?i < 2 ^ 64"
    using unat_less_u64[of "sample_index h rate"] by simp
  then have "?s * ?r + q * ?r div ?D < 2 ^ 64" using q(1) by simp
  then have "unat (ns_to_samples ?t rate) = ?s * ?r + q * ?r div ?D"
    by (simp only: ns_to_samples_def ut d) (rule unat_of_nat_small, simp)
  moreover have "t1_ns h rate = Ret ?t"
    using r by (auto simp: t1_ns_def q_def)
  ultimately show ?thesis using q si by auto
qed

theorem t1_ns_matches_sample_index_witness:
  "\<exists>t. t1_ns \<lparr>m_seconds = 7, m_index = 44099\<rparr> 44100 = Ret t \<and>
     unat (ns_to_samples t 44100) \<le> unat (sample_index \<lparr>m_seconds = 7, m_index = 44099\<rparr> 44100) \<and>
     unat (sample_index \<lparr>m_seconds = 7, m_index = 44099\<rparr> 44100) \<le> unat (ns_to_samples t 44100) + 1"
  by (rule t1_ns_matches_sample_index) simp_all

end
