(* ===== verification/Device.thy ===== *)
theory Device
  imports Arc Overlay Ring Net Mdns Media_Proto
begin

text \<open>
  The state the threads and tasks of a device share (\<open>Shared\<close> and \<open>Identity\<close> of
  \<open>src/device/mod.rs\<close>, with the types of \<open>subscribe.rs\<close>, \<open>media/rx.rs\<close> and
  \<open>info_mcast.rs\<close> it holds). Every mutex and atomic is a field; a channel is the queue of
  what was sent and not yet received. The wakeup callback is the application's: the state
  counts its calls. What was sent on a socket and is answered by nobody is logged in
  \<open>sh_sent\<close>.
\<close>

section \<open>Data\<close>

type_synonym sock_addr = "ipv4 \<times> u16"

record rx_sub =
  sub_tx_channel :: "rstr option"
  sub_tx_host :: "rstr option"
  sub_status :: u32
  sub_flow_id :: "u16 option"

definition rx_sub_default :: rx_sub where
  "rx_sub_default = \<lparr>sub_tx_channel = None, sub_tx_host = None, sub_status = 0, sub_flow_id = None\<rparr>"

record rx_flow_info =
  fi_flow_id :: u16
  fi_sample_rate :: u32
  fi_bits :: u16
  fi_channels :: "u16 list"
  fi_port :: u16
  fi_ip :: bytes
  fi_latency_ns :: u32
  fi_handle :: "bytes option"
  fi_tx_addr :: sock_addr

text \<open>A socket in a command is its local port.\<close>

datatype media_command =
    AddFlow (af_id: u16) (af_sock: u16) (af_map: "nat option list") (af_nchan: nat) (af_bytes: nat) (af_rate: u32)
  | RemoveFlow u16
  | Shutdown

datatype info_event = ChannelChange "nat list"

record identity =
  id_ip :: ipv4
  id_iface :: iface_info
  id_device_id :: bytes
  id_process_id :: u16
  id_friendly :: rstr
  id_factory :: rstr
  id_rx_names :: "rstr list"
  id_arc_port :: u16
  id_cmc_port :: u16
  id_flows_control_port :: u16
  id_info_port :: u16

record shared =
  sh_identity :: identity
  sh_settings :: settings
  sh_overlay :: overlay_clock
  sh_ring :: ring
  sh_wakeup :: bool
  sh_wakeups :: nat
  sh_rx_names :: "rstr list"
  sh_subs :: "rx_sub list"
  sh_rx_flows :: "rx_flow_info list"
  sh_stopped :: bool
  sh_media_tx :: "media_command list"
  sh_media_open :: bool
  sh_next_flow_id :: u16
  sh_flows_seq :: u16
  sh_override :: "sock_addr option"
  sh_info_tx :: "info_event list"
  sh_sent :: "(sock_addr \<times> bytes) list"

text \<open>The octets of an address, and a send on the media channel, which fails once its receiver is gone.\<close>

fun octets :: "ipv4 \<Rightarrow> bytes" where "octets (a, b, c, d) = [a, b, c, d]"

lemma length_octets [simp]: "length (octets ip) = 4"
  by (cases ip) simp

definition media_send :: "media_command \<Rightarrow> shared \<Rightarrow> shared \<times> bool" where
  "media_send cmd sh =
     (if sh_media_open sh then (sh\<lparr>sh_media_tx := sh_media_tx sh @ [cmd]\<rparr>, True) else (sh, False))"

section \<open>Starting a device\<close>

definition hex_id :: "bytes \<Rightarrow> rstr" where
  "hex_id bs = concat (map show_hex2 bs)"

definition device_id_of :: "settings \<Rightarrow> iface_info \<Rightarrow> u16 \<Rightarrow> bytes outcome" where
  "device_id_of s iface process_id =
     (case st_device_id s of
        Some i \<Rightarrow> Ret i
      | None \<Rightarrow>
          if if_mac iface \<noteq> replicate 6 0 then
            obind (idx (if_mac iface) 0) (\<lambda>a. obind (idx (if_mac iface) 1) (\<lambda>b.
            obind (idx (if_mac iface) 2) (\<lambda>c. obind (idx (if_mac iface) 3) (\<lambda>d.
            obind (idx (if_mac iface) 4) (\<lambda>e. obind (idx (if_mac iface) 5) (\<lambda>f.
            Ret [0, 0, a, b, c, d, e, f]))))))
          else (case if_ipv4 iface of (a, b, c, d) \<Rightarrow>
            Ret [0, 0, a, b, c, d, ucast (drop_bit 8 process_id), ucast process_id]))"

definition saturating_add16 :: "u16 \<Rightarrow> u16 \<Rightarrow> u16" where
  "saturating_add16 a b = (if unat a + unat b \<ge> 65536 then 65535 else a + b)"

definition device_ports :: "u16 option \<Rightarrow> u16 \<times> u16 \<times> u16 \<times> u16" where
  "device_ports alt =
     (case alt of
        Some a \<Rightarrow> (a, saturating_add16 a 1, saturating_add16 a 2, saturating_add16 a 3)
      | None \<Rightarrow> (4440, 8800, 4455, 8700))"

definition factory_name :: "bytes \<Rightarrow> rstr" where
  "factory_name device_id =
     (let factory = lit ''netaudio-'' @ hex_id device_id
      in if length factory > 31 then take 31 factory else factory)"

definition rx_names_of :: "settings \<Rightarrow> rstr list" where
  "rx_names_of s =
     (case st_rx_channel_names s of
        Some n \<Rightarrow> n
      | None \<Rightarrow> map (\<lambda>i. lit ''Rx '' @ show_dec i) [1..<Suc (unat (st_rx_channels s))])"

text \<open>
  The state \<open>start_inner\<close> creates for settings that validate on the interface they name:
  \<open>os_pid\<close> is the process id of the operating system. The threads it then starts are the
  steps of the other theories.
\<close>

definition start_shared :: "u32 \<Rightarrow> netdev_iface list \<Rightarrow> settings \<Rightarrow> (dev_error + shared) outcome" where
  "start_shared os_pid ifaces s =
     (case rtry (validate s) (\<lambda>_. resolve ifaces (st_bind s)) of
        Inl e \<Rightarrow> Ret (Inl e)
      | Inr iface \<Rightarrow>
          let process_id = (if st_process_id s = 0 then ucast os_pid else st_process_id s)
          in obind (device_id_of s iface process_id) (\<lambda>device_id.
             let (arc_port, cmc_port, flows_port, info_port) = device_ports (st_alt_port s);
                 rx_names = rx_names_of s;
                 latency = latency_samples (st_rx_latency s) (st_sample_rate s);
                 nchan = unat (st_rx_channels s);
                 identity =
                   \<lparr>id_ip = if_ipv4 iface, id_iface = iface, id_device_id = device_id, id_process_id = process_id,
                    id_friendly = st_name s, id_factory = factory_name device_id, id_rx_names = rx_names,
                    id_arc_port = arc_port, id_cmc_port = cmc_port, id_flows_control_port = flows_port,
                    id_info_port = info_port\<rparr>
             in Ret (Inr
               \<lparr>sh_identity = identity, sh_settings = s, sh_overlay = clock_new, sh_ring = ring_new nchan latency,
                sh_wakeup = False, sh_wakeups = 0, sh_rx_names = rx_names, sh_subs = replicate nchan rx_sub_default,
                sh_rx_flows = [], sh_stopped = False, sh_media_tx = [], sh_media_open = True,
                sh_next_flow_id = 1, sh_flows_seq = 1, sh_override = None, sh_info_tx = [], sh_sent = []\<rparr>)))"

text \<open>
  The sockets and threads of a start: the announcer, the media thread, the PTP listener (which
  binds two sockets) and the control sockets of \<open>run_control\<close>. Theory \<open>Launch\<close> composes them
  as \<open>start_inner\<close> does.
\<close>

datatype thread = Announcer | MediaLoop | PtpListener | ControlPlane

definition mdns_start :: "os \<Rightarrow> ipv4 \<Rightarrow> dev_error + unit" where
  "mdns_start os ip = rtry (bind_mdns os ip) (\<lambda>_. call (os_spawn os (lit ''netaudio-mdns'')))"

definition ptp_start :: "os \<Rightarrow> ipv4 \<Rightarrow> dev_error + unit" where
  "ptp_start os ip =
     rtry (bind_ptp os ip PTP_EVENT) (\<lambda>_.
     rtry (bind_ptp os ip PTP_GENERAL) (\<lambda>_. call (os_spawn os (lit ''netaudio-ptp''))))"

definition media_start :: "os \<Rightarrow> dev_error + unit" where
  "media_start os = call (os_spawn os (lit ''netaudio-media''))"

definition run_control :: "os \<Rightarrow> identity \<Rightarrow> dev_error + unit" where
  "run_control os i =
     (let ip = id_ip i;
          bnd = (\<lambda>port role. rtry (bind_unicast os ip port role) (std_to_tokio os))
      in rtry (bnd (id_arc_port i) (lit ''arc'')) (\<lambda>_.
         rtry (bnd (id_cmc_port i) (lit ''cmc'')) (\<lambda>_.
         rtry (bind_unicast os ip (id_info_port i) (lit ''info'')) (\<lambda>info_sock.
         rtry (set_multicast_if_v4 os ip) (\<lambda>_.
         rtry (std_to_tokio os info_sock) (\<lambda>_. Inr ()))))))"

section \<open>Operations of the application\<close>

record media_time =
  mt_sample_index :: u64
  mt_ns :: u64

record audio_frame =
  af_media_time :: media_time
  af_sample_rate :: u32
  af_channels :: u16
  af_samples :: "sample list"

text \<open>
  \<open>Device::try_read\<close>: the local clock is read once for the overlay (\<open>lcl\<close>) and once by the
  ring (\<open>now\<close>). The result is the count of frames, with the state and the frame as they are left.
\<close>

definition try_read ::
  "u64 \<Rightarrow> nat \<Rightarrow> audio_frame \<Rightarrow> shared \<Rightarrow> (shared \<times> audio_frame \<times> (dev_error + nat)) outcome" where
  "try_read lcl now dst sh =
     (if sh_stopped sh then Ret (sh, dst, Inl Stopped)
      else
        let rate = st_sample_rate (sh_settings sh);
            nchan = unat (st_rx_channels (sh_settings sh));
            latency = latency_samples (st_rx_latency (sh_settings sh)) rate;
            ns = now_ns (sh_overlay sh) lcl;
            due = ns_to_samples ns rate
        in if due < latency then Ret (sh, dst, Inr 0)
           else
             let read_pos = due - latency
             in if nchan = 0 then Panic
                else
                  let max_frames = length (af_samples dst) div nchan
                  in if max_frames = 0 then Ret (sh, dst, Inr 0)
                     else obind (ring_read now read_pos nchan max_frames (af_samples dst) (sh_ring sh))
                       (\<lambda>(r, samples, frames, first_index).
                          obind (samples_to_ns first_index rate) (\<lambda>t.
                          Ret (sh\<lparr>sh_ring := r\<rparr>,
                               dst\<lparr>af_samples := samples, af_sample_rate := rate,
                                   af_channels := st_rx_channels (sh_settings sh),
                                   af_media_time := \<lparr>mt_sample_index = first_index, mt_ns = t\<rparr>\<rparr>,
                               Inr frames))))"

definition set_rx_wakeup :: "shared \<Rightarrow> shared" where
  "set_rx_wakeup sh = sh\<lparr>sh_wakeup := True\<rparr>"

definition set_subscribe_override :: "ipv4 \<Rightarrow> u16 \<Rightarrow> shared \<Rightarrow> shared" where
  "set_subscribe_override ip flows_port sh = sh\<lparr>sh_override := Some (ip, flows_port)\<rparr>"

definition signal_stop :: "shared \<Rightarrow> shared" where
  "signal_stop sh = fst (media_send Shutdown (sh\<lparr>sh_stopped := True\<rparr>))"

record bound_ports =
  bp_arc :: u16
  bp_cmc :: u16
  bp_flows_control :: "u16 option"
  bp_info :: u16
  bp_mdns :: "u16 option"
  bp_ptp_event :: "u16 option"
  bp_ptp_general :: "u16 option"
  bp_media :: "u16 list"

definition bound_ports_of :: "bool \<Rightarrow> bool \<Rightarrow> shared \<Rightarrow> bound_ports" where
  \<comment> \<open>\<open>mdns\<close> and \<open>ptp\<close>: whether the device runs the announcer and the listener\<close>
  "bound_ports_of mdns ptp sh =
     \<lparr>bp_arc = id_arc_port (sh_identity sh), bp_cmc = id_cmc_port (sh_identity sh), bp_flows_control = None,
      bp_info = id_info_port (sh_identity sh), bp_mdns = (if mdns then Some 5353 else None),
      bp_ptp_event = (if ptp then Some PTP_EVENT else None), bp_ptp_general = (if ptp then Some PTP_GENERAL else None),
      bp_media = bound_media_ports (sh_ring sh)\<rparr>"

text \<open>The state of the clock as the application sees it.\<close>

datatype app_clock_status = AppUnlocked | AppMediaDriven | AppPtpLocked

definition device_clock_status :: "shared \<Rightarrow> app_clock_status" where
  "device_clock_status sh =
     (case status (sh_overlay sh) of
        Unlocked \<Rightarrow> AppUnlocked
      | MediaDriven \<Rightarrow> AppMediaDriven
      | PtpLocked \<Rightarrow> AppPtpLocked)"

end
