(* ===== verification/Subscribe.thy ===== *)
theory Subscribe
  imports Device Flows_Control
begin

text \<open>
  \<open>src/device/subscribe.rs\<close>: subscribing receive channels to transmitters. \<open>apply\<close> and the
  other operations of the ARC server change the shared state at once; \<open>establish\<close> is a task
  of its own that runs until the transmitter sends, so it is a machine with one phase per
  point at which it touches the shared state or waits, and \<open>establish_step\<close> takes it from
  one to the next. What it waits for (the mDNS answers, the socket, the transmitter's
  reply) is the argument \<open>outside\<close> of the step.
\<close>

section \<open>Operations\<close>

definition set_sub :: "nat \<Rightarrow> rx_sub \<Rightarrow> shared \<Rightarrow> shared" where
  "set_sub i sub sh = sh\<lparr>sh_subs := (sh_subs sh)[i := sub]\<rparr>"

text \<open>\<open>set_status\<close> and \<open>mark_flow_receiving\<close>.\<close>

definition set_status :: "nat \<Rightarrow> u32 \<Rightarrow> shared \<Rightarrow> shared" where
  "set_status i st sh =
     (if i < length (sh_subs sh) then set_sub i ((sh_subs sh ! i)\<lparr>sub_status := st\<rparr>) sh else sh)"

definition mark_flow_receiving :: "u16 \<Rightarrow> shared \<Rightarrow> shared" where
  "mark_flow_receiving flow_id sh =
     sh\<lparr>sh_subs := map (\<lambda>s. if sub_flow_id s = Some flow_id then s\<lparr>sub_status := STATUS_RX_UNICAST\<rparr> else s) (sh_subs sh)\<rparr>"

text \<open>
  \<open>stop_flow\<close>: the flow leaves the list, the media thread is told, and the transmitter is sent
  a stop when its handle is known; the thread that sends it is the packet it sends.
\<close>

fun remove_first :: "('a \<Rightarrow> bool) \<Rightarrow> 'a list \<Rightarrow> 'a option \<times> 'a list" where
  "remove_first P [] = (None, [])"
| "remove_first P (x # xs) =
     (if P x then (Some x, xs) else let (r, ys) = remove_first P xs in (r, x # ys))"

definition stop_flow :: "u16 \<Rightarrow> shared \<Rightarrow> shared" where
  "stop_flow flow_id sh =
     (let (info, flows) = remove_first (\<lambda>f. fi_flow_id f = flow_id) (sh_rx_flows sh);
          sh = sh\<lparr>sh_rx_flows := flows\<rparr>;
          sh = fst (media_send (RemoveFlow flow_id) sh)
      in case info of
           None \<Rightarrow> sh
         | Some f \<Rightarrow>
             (case fi_handle f of
                None \<Rightarrow> sh
              | Some h \<Rightarrow>
                  let sq = sh_flows_seq sh;
                      pkt = encode_stop sq h
                  in sh\<lparr>sh_flows_seq := sq + 1, sh_sent := sh_sent sh @ [(fi_tx_addr f, pkt)]\<rparr>))"

text \<open>
  One record of \<open>apply\<close>: the state and the tasks spawned. A record of id 0 or of a channel
  the device does not have is skipped; one that names neither a channel nor a host ends the
  subscription.
\<close>

definition apply_one :: "subscribe_req \<Rightarrow> shared \<times> subscribe_req list \<Rightarrow> shared \<times> subscribe_req list" where
  "apply_one rec st =
     (let (sh, tasks) = st
      in if sr_local_id rec = 0 then (sh, tasks)
         else
           let i = unat (sr_local_id rec) - 1;
               unsub = (sr_tx_channel rec = None \<and> sr_tx_host rec = None)
           in if i \<ge> length (sh_subs sh) then (sh, tasks)
              else if unsub then
                let old_flow = sub_flow_id (sh_subs sh ! i);
                    sh = set_sub i rx_sub_default sh;
                    sh = sh\<lparr>sh_ring := set_patched i False (sh_ring sh)\<rparr>
                in (case old_flow of None \<Rightarrow> sh | Some fid \<Rightarrow> stop_flow fid sh, tasks)
              else
                let sh = set_sub i ((sh_subs sh ! i)\<lparr>sub_tx_channel := sr_tx_channel rec,
                           sub_tx_host := sr_tx_host rec, sub_status := STATUS_UNRESOLVED\<rparr>) sh;
                    sh = sh\<lparr>sh_ring := set_patched i True (sh_ring sh)\<rparr>
                in (sh, tasks @ [rec]))"

definition apply_all :: "subscribe_req list \<Rightarrow> shared \<Rightarrow> shared \<times> subscribe_req list" where
  "apply_all recs sh = fold apply_one recs (sh, [])"

definition unsubscribe_one :: "u16 \<Rightarrow> shared \<Rightarrow> shared \<times> subscribe_req list" where
  "unsubscribe_one local_id sh =
     apply_all [\<lparr>sr_local_id = local_id, sr_tx_channel = None, sr_tx_host = None\<rparr>] sh"

fun rename_names :: "rename_req list \<Rightarrow> rstr list \<Rightarrow> nat list \<Rightarrow> rstr list \<times> nat list" where
  "rename_names [] names changed = (names, changed)"
| "rename_names (r # rs) names changed =
     (if rn_local_id r = 0 then rename_names rs names changed
      else
        let i = unat (rn_local_id r) - 1
        in if i < length names then rename_names rs (names[i := rn_new_name r]) (changed @ [i])
           else rename_names rs names changed)"

definition rename_rx :: "rename_req list \<Rightarrow> shared \<Rightarrow> shared" where
  "rename_rx recs sh =
     (let (names, changed) = rename_names recs (sh_rx_names sh) [];
          sh = sh\<lparr>sh_rx_names := names\<rparr>
      in if changed \<noteq> [] then sh\<lparr>sh_info_tx := sh_info_tx sh @ [ChannelChange changed]\<rparr> else sh)"

section \<open>Resolving the transmitter\<close>

datatype flow_error =
    QueryFailed rstr
  | NoARecord rstr
  | SocketFailed dev_error
  | ReplyTimeout
  | BadReply
  | ReplyMismatch
  | Refused u16
  | UnknownOpcode2 u16

record resolved_tx =
  rt_flows_addr :: sock_addr
  rt_sample_rate :: u32
  rt_tx_channel_id :: u16
  rt_fpp_max :: u16
  rt_fpp_min :: u16

text \<open>The variables the closure \<open>consider\<close> of \<open>resolve_tx\<close> updates.\<close>

record tx_facts =
  tf_flows_port :: u16
  tf_sample_rate :: u32
  tf_fpp_max :: u16
  tf_fpp_min :: u16
  tf_ipv4 :: "bytes option"
  tf_tx_channel_id :: u16

definition channel_number :: "rstr \<Rightarrow> u16" where
  "channel_number tx_ch = (case parse_u16 tx_ch of Some n \<Rightarrow> n | None \<Rightarrow> 1)"

definition txt_facts :: "bytes list \<Rightarrow> tx_facts \<Rightarrow> tx_facts" where
  "txt_facts strs f =
     (let f = (case Option.bind (txt_get strs (lit ''rate'')) parse_u32 of
                 Some r \<Rightarrow> f\<lparr>tf_sample_rate := r\<rparr> | None \<Rightarrow> f);
          f = (case txt_get strs (lit ''fpp'') of
                 Some v \<Rightarrow> (let (mx, mn) = parse_fpp v in f\<lparr>tf_fpp_max := mx, tf_fpp_min := mn\<rparr>)
               | None \<Rightarrow> f)
      in case Option.bind (txt_get strs (lit ''id'')) parse_u16 of
           Some n \<Rightarrow> f\<lparr>tf_tx_channel_id := n\<rparr> | None \<Rightarrow> f)"

definition consider_record :: "rstr \<Rightarrow> dns_record \<Rightarrow> tx_facts \<Rightarrow> tx_facts" where
  "consider_record chan_name r f =
     (case r_data r of
        Srv _ _ port _ \<Rightarrow> if names_match (r_name r) chan_name then f\<lparr>tf_flows_port := port\<rparr> else f
      | A a \<Rightarrow> f\<lparr>tf_ipv4 := Some a\<rparr>
      | Txt strs \<Rightarrow> txt_facts strs f
      | Ptr _ \<Rightarrow> f)"

definition consider_msg :: "rstr \<Rightarrow> message \<Rightarrow> tx_facts \<Rightarrow> tx_facts" where
  "consider_msg chan_name msg f = fold (consider_record chan_name) (m_answers msg @ m_additionals msg) f"

fun from_octets :: "bytes \<Rightarrow> ipv4" where
  "from_octets [a, b, c, d] = (a, b, c, d)"
| "from_octets _ = (0, 0, 0, 0)"

text \<open>An answer of \<open>net::mdns::query\<close>: an error, or the message that came in time.\<close>

type_synonym answer = "rstr + message option"

definition resolve_override :: "shared \<Rightarrow> rstr \<Rightarrow> resolved_tx option" where
  "resolve_override sh tx_ch =
     (case sh_override sh of
        Some addr \<Rightarrow> Some \<lparr>rt_flows_addr = addr, rt_sample_rate = st_sample_rate (sh_settings sh),
          rt_tx_channel_id = channel_number tx_ch, rt_fpp_max = 16, rt_fpp_min = 2\<rparr>
      | None \<Rightarrow> None)"

definition resolve_answers ::
  "u32 \<Rightarrow> rstr \<Rightarrow> rstr \<Rightarrow> answer \<Rightarrow> answer \<Rightarrow> flow_error + resolved_tx" where
  "resolve_answers own_rate tx_host tx_ch chan_msg arc_msg =
     (let chan_name = chan_instance tx_ch tx_host
      in case chan_msg of Inl e \<Rightarrow> Inl (QueryFailed e) | Inr cm \<Rightarrow>
         case arc_msg of Inl e \<Rightarrow> Inl (QueryFailed e) | Inr am \<Rightarrow>
         let f = \<lparr>tf_flows_port = 4455, tf_sample_rate = own_rate, tf_fpp_max = 16, tf_fpp_min = 2,
                  tf_ipv4 = None, tf_tx_channel_id = channel_number tx_ch\<rparr>;
             f = (case cm of Some m \<Rightarrow> consider_msg chan_name m f | None \<Rightarrow> f);
             f = (case am of Some m \<Rightarrow> consider_msg chan_name m f | None \<Rightarrow> f)
         in case tf_ipv4 f of
              None \<Rightarrow> Inl (NoARecord tx_host)
            | Some a \<Rightarrow> Inr \<lparr>rt_flows_addr = (from_octets a, tf_flows_port f), rt_sample_rate = tf_sample_rate f,
                rt_tx_channel_id = tf_tx_channel_id f, rt_fpp_max = tf_fpp_max f, rt_fpp_min = tf_fpp_min f\<rparr>)"

section \<open>The flow request\<close>

text \<open>\<open>choose_fpp\<close>: \<open>usize\<close> saturates, the casts to \<open>u16\<close> truncate.\<close>

definition choose_fpp :: "u32 \<Rightarrow> nat \<Rightarrow> nat \<Rightarrow> nat \<Rightarrow> u16 \<Rightarrow> u16 \<Rightarrow> u16" where
  "choose_fpp rate latency nchan bytes adv_max adv_min =
     (let stride = max (min (nchan * bytes) (2 ^ 64 - 1)) 1;
          mtu = of_nat ((1400 - 9) div stride) :: u16;
          lat = of_nat (unat rate * latency div 4 div 1000000000) :: u16;
          v = min (min (min adv_max mtu) lat) 32;
          mn = max adv_min 2;
          v = (if v < mn then mn else v)
      in max v 2)"

definition check_reply :: "u16 \<Rightarrow> bytes option \<Rightarrow> (flow_error + bytes option) outcome" where
  "check_reply sq reply =
     (case reply of
        None \<Rightarrow> Ret (Inl ReplyTimeout)
      | Some buf \<Rightarrow> obind (rr_decode (take 1500 buf)) (\<lambda>d. case d of
          None \<Rightarrow> Ret (Inl BadReply)
        | Some (h, content) \<Rightarrow>
            if h_seqnum h \<noteq> sq \<or> h_opcode1 h \<noteq> OP_REQUEST then Ret (Inl ReplyMismatch)
            else if h_opcode2 h = ERR_RATE \<or> h_opcode2 h = ERR_TOO_MANY \<or> h_opcode2 h = ERR_EXPIRED
            then Ret (Inl (Refused (h_opcode2 h)))
            else if h_opcode2 h \<noteq> 1 \<and> h_opcode2 h \<noteq> 0 then Ret (Inl (UnknownOpcode2 (h_opcode2 h)))
            else obind (parse_handle content) (\<lambda>hnd. Ret (Inr hnd))))"

section \<open>Establishing a flow\<close>

text \<open>
  The phases of \<open>establish\<close>, each named by what it does next: read the override, wait for
  the answers, decide, bind, number and send the request, wait for the reply, push the flow,
  link the subscription, hand the socket to the media thread.
\<close>

datatype phase =
    Resolving
  | Querying
  | Resolved "flow_error + resolved_tx"
  | Binding resolved_tx
  | Numbering resolved_tx u16
  | Requesting resolved_tx u16 u16 u16
  | Granted resolved_tx u16 u16 "bytes option"
  | Linking u16 u16
  | Handing u16 u16
  | Failed
  | Finished

record task =
  tk_rec :: subscribe_req
  tk_phase :: phase

text \<open>What the outside gives a step: the two answers, the port of the media socket, the reply.\<close>

record outside =
  ou_chan :: answer
  ou_arc :: answer
  ou_bind :: "dev_error + u16"
  ou_local :: "io_kind + u16"
  ou_querier :: "dev_error option"
  ou_reply :: "bytes option"

definition establish_step :: "outside \<Rightarrow> shared \<Rightarrow> task \<Rightarrow> (shared \<times> task) outcome" where
  "establish_step ou sh tk =
     (let rec = tk_rec tk;
          goto = (\<lambda>p. tk\<lparr>tk_phase := p\<rparr>);
          st = sh_settings sh;
          i = unat (sr_local_id rec) - 1
      in case (sr_tx_channel rec, sr_tx_host rec) of
        (Some tx_ch, Some tx_host) \<Rightarrow>
          if sr_local_id rec = 0 then Panic
          else (case tk_phase tk of
            Resolving \<Rightarrow>
              (case resolve_override sh tx_ch of
                 Some r \<Rightarrow> Ret (sh, goto (Resolved (Inr r)))
               | None \<Rightarrow> Ret (sh, goto Querying))
          | Querying \<Rightarrow>
              Ret (sh, goto (Resolved (resolve_answers (st_sample_rate st) tx_host tx_ch (ou_chan ou) (ou_arc ou))))
          | Resolved (Inl e) \<Rightarrow> Ret (set_status i STATUS_UNRESOLVED sh, goto Failed)
          | Resolved (Inr r) \<Rightarrow>
              if rt_sample_rate r \<noteq> st_sample_rate st then Ret (set_status i STATUS_UNRESOLVED sh, goto Failed)
              else Ret (set_status i STATUS_ESTABLISHING sh, goto (Binding r))
          | Binding r \<Rightarrow>
              (case (ou_bind ou, ou_local ou) of
                 (Inr _, Inr port) \<Rightarrow> Ret (sh, goto (Numbering r port))
               | _ \<Rightarrow> Ret (set_status i STATUS_UNRESOLVED sh, goto Failed))
          | Numbering r port \<Rightarrow>
              let flow_id = sh_next_flow_id sh;
                  fpp = choose_fpp (st_sample_rate st) (st_rx_latency st) 1 (bytes_of (st_bits st)) (rt_fpp_max r) (rt_fpp_min r);
                  sq = sh_flows_seq sh;
                  sh' = sh\<lparr>sh_next_flow_id := flow_id + 1, sh_flows_seq := sq + 1\<rparr>
              in obind (encode_request_flow sq (st_sample_rate st) (ucast (bits_of (st_bits st))) fpp [rt_tx_channel_id r]
                          (id_friendly (sh_identity sh)) (show_dec (unat flow_id)) port (octets (id_ip (sh_identity sh))))
                   (\<lambda>pkt. case ou_querier ou of
                      Some e \<Rightarrow> Ret (set_status i STATUS_UNRESOLVED sh', goto Failed)
                    | None \<Rightarrow> Ret (sh'\<lparr>sh_sent := sh_sent sh' @ [(rt_flows_addr r, pkt)]\<rparr>,
                                   goto (Requesting r port flow_id sq)))
          | Requesting r port flow_id sq \<Rightarrow>
              obind (check_reply sq (ou_reply ou)) (\<lambda>res. case res of
                Inl e \<Rightarrow> Ret (set_status i STATUS_UNRESOLVED sh, goto Failed)
              | Inr hnd \<Rightarrow> Ret (sh, goto (Granted r port flow_id hnd)))
          | Granted r port flow_id hnd \<Rightarrow>
              Ret (sh\<lparr>sh_rx_flows := sh_rx_flows sh @
                     [\<lparr>fi_flow_id = flow_id, fi_sample_rate = st_sample_rate st, fi_bits = bits_of (st_bits st),
                       fi_channels = [sr_local_id rec], fi_port = port, fi_ip = octets (id_ip (sh_identity sh)),
                       fi_latency_ns = of_nat (st_rx_latency st), fi_handle = hnd, fi_tx_addr = rt_flows_addr r\<rparr>]\<rparr>,
                   goto (Linking port flow_id))
          | Linking port flow_id \<Rightarrow>
              Ret (if i < length (sh_subs sh)
                   then set_sub i ((sh_subs sh ! i)\<lparr>sub_flow_id := Some flow_id, sub_status := STATUS_ESTABLISHING\<rparr>) sh
                   else sh, goto (Handing port flow_id))
          | Handing port flow_id \<Rightarrow>
              (case media_send (AddFlow flow_id port [Some i] 1 (bytes_of (st_bits st)) (st_sample_rate st)) sh of
                 (sh', True) \<Rightarrow> Ret (sh', goto Finished)
               | (sh', False) \<Rightarrow> Ret (set_status i STATUS_UNRESOLVED sh', goto Failed))
          | Failed \<Rightarrow> Ret (sh, tk)
          | Finished \<Rightarrow> Ret (sh, tk))
      | _ \<Rightarrow> Ret (sh, goto Finished))"

section \<open>Frames per packet\<close>

text \<open>
  C22: the frames a device asks for per packet are at least two and at least the
  transmitter's minimum; unless it is that minimum, the count is also within the
  transmitter's maximum and 32, and a packet of so many frames with its 9-byte header fits
  1400 bytes.
\<close>

theorem choose_fpp_bounds:
  "let v = choose_fpp rate latency nchan bytes adv_max adv_min in
     2 \<le> v \<and> adv_min \<le> v \<and>
     (v = max adv_min 2 \<or> v \<le> adv_max \<and> v \<le> 32 \<and> 9 + unat v * (nchan * bytes) \<le> 1400)"
proof -
  define stride where "stride = max (min (nchan * bytes) (2 ^ 64 - 1)) 1"
  define mtu where "mtu = (of_nat ((1400 - 9) div stride) :: u16)"
  define lat where "lat = (of_nat (unat rate * latency div 4 div 1000000000) :: u16)"
  define v where "v = min (min (min adv_max mtu) lat) 32"
  define mn where "mn = max adv_min 2"
  have c: "choose_fpp rate latency nchan bytes adv_max adv_min = (if v < mn then mn else v)"
    unfolding choose_fpp_def Let_def stride_def[symmetric] mtu_def[symmetric] lat_def[symmetric]
      v_def[symmetric] mn_def[symmetric]
    by (auto simp: mn_def max_def not_less dest: order_trans)
  have "9 + unat v * (nchan * bytes) \<le> 1400" if "\<not> v < mn"
  proof -
    have "1391 div stride \<le> 1391" by (rule div_le_dividend)
    then have "1391 div stride < 65536" by linarith
    from unat_of_nat_u16[OF this] have m: "unat mtu = 1391 div stride" by (simp add: mtu_def)
    have "v \<le> mtu" by (simp add: v_def min_le_iff_disj)
    then have v: "unat v \<le> 1391 div stride" using m by (simp add: word_le_nat_alt)
    have "2 \<le> v" using that by (simp add: mn_def not_less)
    then have "0 < unat v" by (simp add: word_le_nat_alt)
    with v have "stride \<le> 1391" by (cases "stride \<le> 1391") simp_all
    then have "nchan * bytes \<le> stride" by (auto simp: stride_def max_def min_def split: if_splits)
    then have "unat v * (nchan * bytes) \<le> 1391 div stride * stride" using v by (intro mult_le_mono)
    also have "\<dots> \<le> 1391" by (rule div_times_less_eq_dividend)
    finally show ?thesis by simp
  qed
  then show ?thesis
    unfolding Let_def c by (auto simp: mn_def v_def not_less min_le_iff_disj)
qed

end
