(* ===== verification/Media_Rx.thy ===== *)
theory Media_Rx
  imports Subscribe Pcm
begin

text \<open>
  \<open>src/media/rx.rs\<close>: the media thread, which owns the sockets of the flows, feeds the clock
  and the ring with what they receive and keeps the transmitters sending. A turn of its loop
  takes at most one command, drains every socket, sends the keepalives that are due and
  checks the clock. What the sockets hold, the times read and the order in which the
  \<open>HashMap\<close> yields the flows are arguments.
\<close>

record media_flow =
  mf_id :: u16
  mf_sock :: u16
  mf_map :: "nat option list"
  mf_nchan :: nat
  mf_bytes :: nat
  mf_rate :: u32
  mf_last_source :: "sock_addr option"
  mf_next_keepalive :: nat
  mf_saw_packet :: bool

type_synonym flow_table = "u16 \<rightharpoonup> media_flow"

definition INTERVAL_NS :: nat where "INTERVAL_NS = 250 * 1000000"

text \<open>
  The command of a turn: \<open>None\<close> means the thread ends. A socket whose address cannot be
  read (\<open>addr\<close>) is not noted.
\<close>

definition media_command_step ::
  "nat \<Rightarrow> (u16 \<Rightarrow> u16 option) \<Rightarrow> shared \<times> flow_table \<Rightarrow> (shared \<times> flow_table) option" where
  "media_command_step now addr st =
     (let (sh, flows) = st
      in if sh_stopped sh then None
         else case sh_media_tx sh of
           [] \<Rightarrow> Some (sh, flows)
         | cmd # q \<Rightarrow>
             let sh = sh\<lparr>sh_media_tx := q\<rparr>
             in case cmd of
                  Shutdown \<Rightarrow> None
                | AddFlow i sock chmap nchan bps rate \<Rightarrow>
                    let sh = (case addr sock of Some p \<Rightarrow> sh\<lparr>sh_ring := note_port p (sh_ring sh)\<rparr> | None \<Rightarrow> sh)
                    in Some (sh, flows(i \<mapsto>
                         \<lparr>mf_id = i, mf_sock = sock, mf_map = chmap, mf_nchan = nchan, mf_bytes = bps, mf_rate = rate,
                          mf_last_source = None, mf_next_keepalive = now + INTERVAL_NS, mf_saw_packet = False\<rparr>))
                | RemoveFlow i \<Rightarrow> Some (sh, flows(i := None)))"

text \<open>A packet received: its source, its bytes and the three times read while it is handled.\<close>

record arrival =
  ar_src :: sock_addr
  ar_bytes :: bytes
  ar_t2 :: u64
  ar_now_ns :: u64
  ar_instant :: nat

definition wake :: "shared \<Rightarrow> shared" where
  "wake sh = (if sh_wakeup sh then sh\<lparr>sh_wakeups := sh_wakeups sh + 1\<rparr> else sh)"

definition media_packet :: "shared \<times> media_flow \<Rightarrow> arrival \<Rightarrow> (shared \<times> media_flow) outcome" where
  "media_packet st ar =
     (let (sh, flow) = st;
          rate = st_sample_rate (sh_settings sh);
          latency = latency_samples (st_rx_latency (sh_settings sh)) rate;
          buf = take 2048 (ar_bytes ar);
          flow = flow\<lparr>mf_last_source := Some (ar_src ar)\<rparr>
      in if buf = [0x13, 0x37] then Ret (sh, flow)
         else obind (media_decode buf) (\<lambda>d. case d of
           None \<Rightarrow> Ret (sh, flow)
         | Some (hdr, pcm_bytes) \<Rightarrow>
             obind (t1_ns hdr (mf_rate flow)) (\<lambda>t1.
             let clk = observe t1 (ar_t2 ar) Media (sh_overlay sh);
                 overlay_now = now_ns clk (ar_now_ns ar);
                 read_pos = ns_to_samples overlay_now rate - latency;
                 ts = sample_index hdr (mf_rate flow)
             in obind (promote_interleaved pcm_bytes (mf_nchan flow) (mf_bytes flow)) (\<lambda>samples.
                obind (write_packet (ar_instant ar) ts read_pos (mf_map flow) samples (mf_nchan flow) (sh_ring sh)) (\<lambda>r.
                let sh = sh\<lparr>sh_overlay := clk, sh_ring := r\<rparr>;
                    (sh, flow) = (if \<not> mf_saw_packet flow
                                  then (mark_flow_receiving (mf_id flow) sh, flow\<lparr>mf_saw_packet := True\<rparr>)
                                  else (sh, flow))
                in Ret (wake sh, flow))))))"

definition media_keepalive :: "nat \<Rightarrow> shared \<Rightarrow> media_flow \<Rightarrow> shared \<times> media_flow" where
  "media_keepalive now sh flow =
     (if now \<ge> mf_next_keepalive flow then
        ((case mf_last_source flow of Some src \<Rightarrow> sh\<lparr>sh_sent := sh_sent sh @ [(src, KEEPALIVE)]\<rparr> | None \<Rightarrow> sh),
         flow\<lparr>mf_next_keepalive := now + INTERVAL_NS\<rparr>)
      else (sh, flow))"

text \<open>One flow's turn: its socket is drained, then its keepalive is sent if it is due.\<close>

definition flow_turn ::
  "nat \<Rightarrow> (u16 \<Rightarrow> arrival list) \<Rightarrow> shared \<times> flow_table \<Rightarrow> u16 \<Rightarrow> (shared \<times> flow_table) outcome" where
  "flow_turn now socks st i =
     (let (sh, flows) = st
      in case flows i of
           None \<Rightarrow> Ret st
         | Some flow \<Rightarrow>
             obind (ofold media_packet (sh, flow) (socks (mf_sock flow))) (\<lambda>(sh, flow).
             let (sh, flow) = media_keepalive now sh flow in Ret (sh, flows(i \<mapsto> flow))))"

record turn =
  tn_recv :: nat
  tn_addr :: "u16 \<Rightarrow> u16 option"
  tn_now :: nat
  tn_order :: "u16 list"
  tn_socks :: "u16 \<Rightarrow> arrival list"
  tn_stale :: u64

definition media_turn :: "turn \<Rightarrow> shared \<times> flow_table \<Rightarrow> (shared \<times> flow_table) option outcome" where
  "media_turn tn st =
     (case media_command_step (tn_recv tn) (tn_addr tn) st of
        None \<Rightarrow> Ret None
      | Some st \<Rightarrow>
          obind (ofold (flow_turn (tn_now tn) (tn_socks tn)) st (tn_order tn)) (\<lambda>(sh, flows).
          Ret (Some (sh\<lparr>sh_overlay := mark_unlocked_if_stale (tn_stale tn) 1000000000 (sh_overlay sh)\<rparr>, flows))))"

end
