(* ===== verification/Info_Mcast.thy ===== *)
theory Info_Mcast
  imports Req_Resp
begin

text \<open>
  The info-multicast packets of \<open>src/protocol/info_mcast.rs\<close>: the 32-byte header, the
  request opcodes, and the payloads a device sends (board, product, clock, network,
  channel change).
\<close>

definition START_INFO :: u16 where "START_INFO = 0xFFFF"
definition START_HEARTBEAT :: u16 where "START_HEARTBEAT = 0xFFFE"
definition OPCODE_BOARD :: bytes where "OPCODE_BOARD = [0x07, 0x2a, 0x00, 0x60, 0, 0, 0, 0]"
definition OPCODE_PRODUCT :: bytes where "OPCODE_PRODUCT = [0x07, 0x2a, 0x00, 0xc0, 0, 0, 0, 0]"
definition OPCODE_CLOCK :: bytes where "OPCODE_CLOCK = [0x07, 0x2a, 0x00, 0x20, 0, 0, 0, 0]"
definition OPCODE_NET :: bytes where "OPCODE_NET = [0x07, 0x2a, 0x00, 0x11, 0, 0, 0, 0]"
definition OPCODE_HEARTBEAT :: bytes where "OPCODE_HEARTBEAT = [0x00, 0x08, 0x00, 0x01, 0x10, 0, 0, 0]"
definition OPCODE_CH_CHANGE :: bytes where "OPCODE_CH_CHANGE = [0x07, 0x2a, 0x01, 0x02, 0, 0, 0, 0]"

lemmas opcode_defs = OPCODE_BOARD_def OPCODE_PRODUCT_def OPCODE_CLOCK_def OPCODE_NET_def
  OPCODE_HEARTBEAT_def OPCODE_CH_CHANGE_def

record mcast_header =
  mc_start_code :: u16
  mc_total_length :: u16
  mc_seqnum :: u16
  mc_process :: u16
  mc_device_id :: bytes
  mc_vendor :: bytes
  mc_opcode :: bytes

section \<open>Packets\<close>

definition mcast_encode :: "u16 \<Rightarrow> u16 \<Rightarrow> u16 \<Rightarrow> bytes \<Rightarrow> bytes \<Rightarrow> bytes \<Rightarrow> bytes \<Rightarrow> bytes" where
  "mcast_encode start_code seqnum process device_id vendor opcode content =
     (let total = HEADER_MCAST + length content
      in bw_bytes content (bw_bytes opcode (bw_bytes vendor (bw_bytes device_id
           (bw_u16 process (bw_u16 seqnum (bw_u16 (of_nat total) (bw_u16 start_code []))))))))"

definition mcast_decode :: "bytes \<Rightarrow> (mcast_header \<times> bytes) option outcome" where
  "mcast_decode packet =
     (if length packet < HEADER_MCAST then Ret None
      else obind (rd16 packet 0) (\<lambda>start_code. obind (rd16 packet 2) (\<lambda>total_length.
           obind (rd16 packet 4) (\<lambda>seqnum. obind (rd16 packet 6) (\<lambda>process.
           obind (rng packet 8 16) (\<lambda>device_id. obind (rng packet 16 24) (\<lambda>vendor.
           obind (rng packet 24 32) (\<lambda>opcode.
           let e = min (unat total_length) (length packet)
           in obind (rng packet HEADER_MCAST e) (\<lambda>content.
              Ret (Some (\<lparr>mc_start_code = start_code, mc_total_length = total_length,
                mc_seqnum = seqnum, mc_process = process, mc_device_id = device_id,
                mc_vendor = vendor, mc_opcode = opcode\<rparr>, content)))))))))))"

definition reply_opcode :: "bytes \<Rightarrow> bytes option outcome" where
  "reply_opcode request =
     (if length request < HEADER_MCAST then Ret None
      else obind (idx request 24) (\<lambda>b24.
        if b24 \<noteq> 0x07 then Ret None
        else obind (idx request 27) (\<lambda>b27.
          Ret (if b27 = 0x61 then Some OPCODE_BOARD
               else if b27 = 0xC1 then Some OPCODE_PRODUCT
               else if b27 = 0x21 then Some OPCODE_CLOCK
               else if b27 = 0x13 then Some OPCODE_NET
               else None))))"

section \<open>Payloads\<close>

definition pad_field :: "bytes \<Rightarrow> nat \<Rightarrow> nat \<Rightarrow> rstr \<Rightarrow> bytes outcome" where
  \<comment> \<open>\<open>write_ascii_padded(&mut b[i..j], s)\<close>\<close>
  "pad_field b i j s = obind (rng b i j) (\<lambda>dst. set_rng b i (write_ascii_padded (length dst) s))"

definition board_payload :: "rstr \<Rightarrow> bytes outcome" where
  "board_payload board =
     (let b = replicate 200 0 in
      obind (set_rng b 0 [0x04, 0x01, 0x00, 0x06]) (\<lambda>b.
      obind (set_rng b 4 [0x04, 0x01, 0x00, 0x03]) (\<lambda>b.
      obind (set_rng b 0x14 [0x00, 0x00, 0x10, 0x00]) (\<lambda>b.
      obind (set_idx b 0x23 2) (\<lambda>b.
      obind (set_idx b 0x27 1) (\<lambda>b.
      obind (set_rng b 0x28 [0x01, 0x00, 0x00, 0x00]) (\<lambda>b.
      obind (set_idx b 0xBB 0x1F) (\<lambda>b.
      obind (pad_field b 12 20 board) (\<lambda>b.
      pad_field b 0x38 0x48 board)))))))))"

definition product_payload :: "rstr \<Rightarrow> rstr \<Rightarrow> rstr \<Rightarrow> bytes outcome" where
  "product_payload manufacturer board model =
     (let b = replicate 336 0 in
      obind (pad_field b 0 8 manufacturer) (\<lambda>b.
      obind (pad_field b 8 16 board) (\<lambda>b.
      obind (pad_field b 0x2C 0x3C manufacturer) (\<lambda>b.
      obind (pad_field b 0xAC 0xBC model) (\<lambda>b.
      set_rng b 0x1C [0, 0, 0, 0])))))"

definition heartbeat_clock_ppm :: "u16 \<Rightarrow> u32 \<Rightarrow> bytes" where
  "heartbeat_clock_ppm sq ppb =
     bw_u32 ppb (bw_u16 0 (bw_u16 sq (bw_u16 4 (bw_u16 4 (bw_u16 0x8001 (bw_u16 16 []))))))"

definition network_info :: "u16 \<Rightarrow> bytes \<Rightarrow> bytes \<Rightarrow> bytes \<Rightarrow> bytes \<Rightarrow> bytes" where
  "network_info link_mbps mac ip netmask gw =
     bw_zeros 4 (bw_bytes gw (bw_bytes netmask (bw_bytes ip (bw_bytes mac (bw_u16 1
       (bw_u16 link_mbps (bw_bytes [0x00, 0x01, 0x00, 0x00, 0x00, 0x00] [])))))))"

definition mark_channel :: "bytes \<Rightarrow> nat \<Rightarrow> bytes outcome" where
  "mark_channel content ch =
     (let byte = ch div 8; bt = ch mod 8;
          content = (if byte + 2 \<ge> length content
                     then content @ replicate (byte + 3 - length content) 0 else content)
      in obind (idx content (byte + 2)) (\<lambda>old. set_idx content (byte + 2) (old OR push_bit bt 1)))"

definition channel_change :: "nat list \<Rightarrow> bytes outcome" where
  "channel_change indices =
     (if indices = [] then Ret [0x00, 0x01, 0x00]
      else obind (ofold mark_channel (replicate 3 0) indices) (\<lambda>content.
        let mask_len = of_nat (length content - 2) :: u16
        in set_rng content 0 (be16 mask_len)))"

section \<open>Correctness\<close>

lemma mcast_encode_layout:
  "mcast_encode start_code seqnum process device_id vendor opcode content =
     be16 start_code @ be16 (of_nat (32 + length content)) @ be16 seqnum @ be16 process @
     device_id @ vendor @ opcode @ content"
  by (simp add: mcast_encode_def wire HEADER_MCAST_def)

text \<open>
  A packet of up to 65503 bytes of content reads back: encoding and decoding gives the
  header's fields, the length and the content.
\<close>

theorem mcast_roundtrip:
  assumes "length device_id = 8" "length vendor = 8" "length opcode = 8" "length content < 65504"
  shows "mcast_decode (mcast_encode start_code seqnum process device_id vendor opcode content) =
    Ret (Some (\<lparr>mc_start_code = start_code, mc_total_length = of_nat (32 + length content),
      mc_seqnum = seqnum, mc_process = process, mc_device_id = device_id, mc_vendor = vendor,
      mc_opcode = opcode\<rparr>, content))"
proof -
  define T where "T = (of_nat (32 + length content) :: u16)"
  define P where "P = be16 start_code @ be16 T @ be16 seqnum @ be16 process @ device_id @ vendor @ opcode @ content"
  have u: "unat T = 32 + length content"
    unfolding T_def using assms(4) by (intro unat_of_nat_u16) simp
  have r: "rd16 P 0 = Ret start_code" "rd16 P 2 = Ret T" "rd16 P 4 = Ret seqnum" "rd16 P 6 = Ret process"
    using rd16_written[of 0 "[]" start_code] rd16_written[of 2 "be16 start_code" T]
      rd16_written[of 4 "be16 start_code @ be16 T" seqnum]
      rd16_written[of 6 "be16 start_code @ be16 T @ be16 seqnum" process]
    by (simp_all add: P_def)
  let ?h = "be16 start_code @ be16 T @ be16 seqnum @ be16 process"
  have "rng (?h @ device_id @ vendor @ opcode @ content) 8 16 = Ret device_id"
    by (rule rng_written) (simp_all add: assms)
  moreover have "rng ((?h @ device_id) @ vendor @ opcode @ content) 16 24 = Ret vendor"
    by (rule rng_written) (simp_all add: assms)
  moreover have "rng ((?h @ device_id @ vendor) @ opcode @ content) 24 32 = Ret opcode"
    by (rule rng_written) (simp_all add: assms)
  moreover have "rng ((?h @ device_id @ vendor @ opcode) @ content @ []) 32 (32 + length content) = Ret content"
    by (rule rng_written) (simp_all add: assms)
  ultimately have g: "rng P 8 16 = Ret device_id" "rng P 16 24 = Ret vendor" "rng P 24 32 = Ret opcode"
    "rng P 32 (32 + length content) = Ret content"
    by (simp_all only: append_assoc P_def append_Nil2)
  have l: "length P = 32 + length content" using assms by (simp add: P_def)
  have "mcast_encode start_code seqnum process device_id vendor opcode content = P"
    by (simp only: mcast_encode_layout P_def T_def)
  then show ?thesis
    using r g l u by (simp add: mcast_decode_def HEADER_MCAST_def) (simp add: T_def)
qed

theorem mcast_roundtrip_witness:
  "mcast_decode (mcast_encode START_INFO 7 1 (replicate 8 5) (lit ''Audinate'') OPCODE_CLOCK [1, 2, 3]) =
    Ret (Some (\<lparr>mc_start_code = START_INFO, mc_total_length = 35, mc_seqnum = 7, mc_process = 1,
      mc_device_id = replicate 8 5, mc_vendor = lit ''Audinate'', mc_opcode = OPCODE_CLOCK\<rparr>, [1, 2, 3]))"
  using mcast_roundtrip[of "replicate 8 5" "lit ''Audinate''" OPCODE_CLOCK "[1, 2, 3]" START_INFO 7 1]
  by (simp add: lit_def OPCODE_CLOCK_def)

text \<open>
  Decoding does panic on some packets: exactly those of at least 32 bytes whose length
  field is below 32, for which the content's range is reversed.
\<close>

theorem mcast_decode_panics_iff:
  "mcast_decode p = Panic \<longleftrightarrow> 32 \<le> length p \<and> unat (from_be16 (p ! 2) (p ! 3)) < 32"
  by (auto simp: mcast_decode_def HEADER_MCAST_def panicfree rng_def Let_def min_def)

lemma reply_opcode_eq:
  "reply_opcode p = Ret
     (if 32 \<le> length p \<and> p ! 24 = 0x07
      then (if p ! 27 = 0x61 then Some OPCODE_BOARD else if p ! 27 = 0xC1 then Some OPCODE_PRODUCT
            else if p ! 27 = 0x21 then Some OPCODE_CLOCK else if p ! 27 = 0x13 then Some OPCODE_NET else None)
      else None)"
  by (simp add: reply_opcode_def HEADER_MCAST_def panicfree)

lemma set_rng_ok: "a + length ys \<le> n \<Longrightarrow> length xs = n \<Longrightarrow> \<exists>zs. set_rng xs a ys = Ret zs \<and> length zs = n"
  by (simp add: set_rng_def)

lemma set_idx_ok: "i < n \<Longrightarrow> length xs = n \<Longrightarrow> \<exists>zs. set_idx xs i v = Ret zs \<and> length zs = n"
  by (simp add: set_idx_def)

lemma pad_field_ok: "i \<le> j \<Longrightarrow> j \<le> n \<Longrightarrow> length b = n \<Longrightarrow> \<exists>zs. pad_field b i j s = Ret zs \<and> length zs = n"
  by (simp add: pad_field_def panicfree set_rng_def)

lemma obind_okI:
  "\<exists>x. m = Ret x \<and> length x = n \<Longrightarrow> (\<And>x. length x = n \<Longrightarrow> \<exists>y. f x = Ret y \<and> Q y) \<Longrightarrow>
   \<exists>y. obind m f = Ret y \<and> Q y"
  by auto

lemmas field_ok = obind_okI set_rng_ok set_idx_ok pad_field_ok

lemma board_payload_ok: "\<exists>b. board_payload s = Ret b \<and> length b = 200"
  unfolding board_payload_def Let_def by (intro field_ok) simp_all

lemma product_payload_ok: "\<exists>b. product_payload mf bd md = Ret b \<and> length b = 336"
  unfolding product_payload_def Let_def by (intro field_ok) simp_all

section \<open>Channel changes\<close>

definition marked :: "bytes \<Rightarrow> nat \<Rightarrow> bool" where
  "marked c ch \<longleftrightarrow> ch div 8 + 2 < length c \<and> bit (c ! (ch div 8 + 2)) (ch mod 8)"

lemma mark_channel_spec:
  assumes "3 \<le> length c"
  shows "\<exists>c'. mark_channel c ch = Ret c' \<and> length c' = max (length c) (ch div 8 + 3) \<and>
           (\<forall>d. marked c' d \<longleftrightarrow> marked c d \<or> d = ch)"
proof -
  let ?byte = "ch div 8" and ?bt = "ch mod 8"
  define e where "e = (if ?byte + 2 \<ge> length c then c @ replicate (?byte + 3 - length c) 0 else c)"
  have len: "length e = max (length c) (?byte + 3)" by (auto simp: e_def)
  have e: "marked e d \<longleftrightarrow> marked c d" for d
    by (auto simp: marked_def e_def nth_append)
  let ?v = "e ! (?byte + 2) OR push_bit ?bt 1"
  have "mark_channel c ch = Ret (e[?byte + 2 := ?v])"
    using len by (simp add: mark_channel_def Let_def panicfree del: add_2_eq_Suc' flip: e_def)
  moreover have "marked (e[?byte + 2 := ?v]) d \<longleftrightarrow> marked c d \<or> d = ch" for d
  proof (cases "d div 8 = ?byte")
    case True
    then have "d = ch \<longleftrightarrow> d mod 8 = ?bt" by (metis div_mult_mod_eq)
    moreover have "bit (push_bit ?bt (1 :: u8)) (d mod 8) \<longleftrightarrow> d mod 8 = ?bt"
      by (auto simp: bit_simps)
    ultimately show ?thesis
      using len unfolding e[symmetric] by (auto simp: marked_def True bit_or_iff)
  next
    case False
    then have "d \<noteq> ch" by auto
    then show ?thesis using False unfolding e[symmetric] by (auto simp: marked_def nth_list_update)
  qed
  ultimately show ?thesis using len by auto
qed

lemma mark_channels_spec:
  assumes "3 \<le> length c"
  shows "\<exists>c'. ofold mark_channel c chs = Ret c' \<and> 3 \<le> length c' \<and>
           (\<forall>d. marked c' d \<longleftrightarrow> marked c d \<or> d \<in> set chs)"
  using assms
proof (induction chs arbitrary: c)
  case (Cons ch chs)
  obtain c1 where c1: "mark_channel c ch = Ret c1" "length c1 = max (length c) (ch div 8 + 3)"
      "\<forall>d. marked c1 d \<longleftrightarrow> marked c d \<or> d = ch"
    using mark_channel_spec[OF Cons.prems] by blast
  then have "3 \<le> length c1" using Cons.prems by simp
  then obtain c2 where c2: "ofold mark_channel c1 chs = Ret c2" "3 \<le> length c2"
      "\<forall>d. marked c2 d \<longleftrightarrow> marked c1 d \<or> d \<in> set chs"
    using Cons.IH by blast
  then show ?case using c1 by auto
qed simp

lemma channel_change_ok: "\<exists>c. channel_change chs = Ret c"
proof (cases "chs = []")
  case False
  obtain c where "ofold mark_channel (replicate 3 0) chs = Ret c" "3 \<le> length c"
    using mark_channels_spec[of "replicate 3 0" chs] by auto
  with False show ?thesis by (simp add: channel_change_def set_rng_def)
qed (simp add: channel_change_def)

text \<open>
  A channel-change notice names exactly the channels that changed: bit \<open>ch mod 8\<close> of
  byte \<open>ch div 8\<close> of the mask is set for the indices given and for no other, and the
  notice starts with the mask's length. It never panics.
\<close>

theorem channel_change_marks:
  assumes "chs \<noteq> []"
  shows "\<exists>c. channel_change chs = Ret c \<and> (\<forall>d. marked c d \<longleftrightarrow> d \<in> set chs) \<and>
           rd16 c 0 = Ret (of_nat (length c - 2))"
proof -
  obtain c where c: "ofold mark_channel (replicate 3 0) chs = Ret c" "3 \<le> length c"
      "\<forall>d. marked c d \<longleftrightarrow> marked (replicate 3 0) d \<or> d \<in> set chs"
    using mark_channels_spec[of "replicate 3 0" chs] by auto
  let ?n = "of_nat (length c - 2) :: u16"
  let ?c = "be16 ?n @ drop 2 c"
  have "set_rng c 0 (be16 ?n) = Ret ?c" using c(2) by (simp add: set_rng_def numeral_2_eq_2)
  then have "channel_change chs = Ret ?c" using c(1) assms by (simp add: channel_change_def)
  moreover have len: "length ?c = length c" using c(2) by simp
  have "marked ?c d \<longleftrightarrow> d \<in> set chs" for d
  proof -
    have "marked ?c d \<longleftrightarrow> marked c d" by (auto simp: marked_def len nth_append)
    moreover have "\<not> marked (replicate 3 0) d" by (auto simp: marked_def nth_Cons' numeral_3_eq_3)
    ultimately show ?thesis using c(3) by blast
  qed
  moreover have "rd16 ?c 0 = Ret (of_nat (length ?c - 2))"
    using rd16_written[of 0 "[]" ?n "drop 2 c"] len by simp
  ultimately show ?thesis by blast
qed

theorem channel_change_marks_witness:
  "\<exists>c. channel_change [0, 9] = Ret c \<and> marked c 9 \<and> \<not> marked c 1 \<and> rd16 c 0 = Ret (of_nat (length c - 2))"
  using channel_change_marks[of "[0, 9]"] by auto

end
