(* ===== verification/Servers.thy ===== *)
theory Servers
  imports Subscribe Cmc Info_Mcast
begin

text \<open>
  The servers of a device: what each answers to a packet and what it changes.
  \<open>src/device/arc.rs\<close> (controllers), \<open>src/device/cmc.rs\<close> (advertisement),
  \<open>src/device/info_mcast.rs\<close> (multicast info) and the responder of \<open>src/net/mdns.rs\<close>.
  Log messages are not modelled; a packet is at most the server's buffer long.
\<close>

section \<open>ARC\<close>

definition encode_rx_page :: "shared \<Rightarrow> header \<Rightarrow> bytes \<Rightarrow> bytes outcome" where
  "encode_rx_page sh hdr content =
     obind (pagination_start content) (\<lambda>p.
       let start = (case p of Some n \<Rightarrow> n | None \<Rightarrow> 0);
           subs = sh_subs sh;
           chans = map (\<lambda>(i, name).
             \<lparr>rc_id = of_nat i + 1, rc_friendly = name,
              rc_tx_channel = Option.bind (get_idx subs i) sub_tx_channel,
              rc_tx_host = Option.bind (get_idx subs i) sub_tx_host,
              rc_status = (case get_idx subs i of Some s \<Rightarrow> sub_status s | None \<Rightarrow> STATUS_NONE)\<rparr>)
             (enumerate 0 (sh_rx_names sh))
       in encode_rx_channels hdr start (st_sample_rate (sh_settings sh)) (bits_of (st_bits (sh_settings sh))) chans)"

definition flow_view :: "rx_flow_info \<Rightarrow> rx_flow_view" where
  "flow_view f =
     \<lparr>fv_flow_id = fi_flow_id f, fv_sample_rate = fi_sample_rate f, fv_bits = fi_bits f,
      fv_channels = fi_channels f, fv_port = fi_port f, fv_ip = fi_ip f, fv_latency_ns = fi_latency_ns f\<rparr>"

definition encode_rx_flows_page :: "shared \<Rightarrow> header \<Rightarrow> bytes \<Rightarrow> bytes outcome" where
  "encode_rx_flows_page sh hdr content =
     obind (pagination_start content) (\<lambda>p.
       let start = (case p of Some n \<Rightarrow> n | None \<Rightarrow> 0)
       in if sh_rx_flows sh = [] then Ret (encode_empty_page hdr)
          else encode_rx_flows hdr start (map flow_view (sh_rx_flows sh)))"

text \<open>\<open>handle\<close>: the reply, the state and the \<open>establish\<close> tasks it spawns.\<close>

definition arc_handle :: "shared \<Rightarrow> bytes \<Rightarrow> (bytes option \<times> shared \<times> subscribe_req list) outcome" where
  "arc_handle sh packet =
     obind (rr_decode packet) (\<lambda>d. case d of
       None \<Rightarrow> Ret (None, sh, [])
     | Some (hdr, content) \<Rightarrow>
         let op = h_opcode1 hdr;
             reply = (\<lambda>r. Ret (Some r, sh, []));
             st = sh_settings sh
         in if op = OP_COUNTS then reply (encode_counts hdr (st_tx_channels st) (st_rx_channels st))
            else if op = OP_GET_NAME then reply (encode_device_name hdr (id_friendly (sh_identity sh)))
            else if op = OP_SET_NAME then reply (rr_encode_ok hdr [])
            else if op = OP_NAMES then
              obind (encode_names hdr \<lparr>dn_board = st_board st, dn_revision = lit ''0.0.0'',
                       dn_friendly = id_friendly (sh_identity sh), dn_factory = id_factory (sh_identity sh)\<rparr>) reply
            else if op = OP_1100 then reply (encode_zeros hdr 110)
            else if op = OP_1102 then reply (encode_zeros hdr 94)
            else if op = OP_TX_CH \<or> op = OP_TX_FRIENDLY \<or> op = OP_TX_FLOWS then reply (encode_empty_page hdr)
            else if op = OP_RENAME_TX \<or> op = OP_CREATE_MCAST \<or> op = OP_DELETE_MCAST then reply (encode_fail hdr)
            else if op = OP_2320 then reply (encode_unsupported hdr)
            else if op = OP_RX_CH then obind (encode_rx_page sh hdr content) reply
            else if op = OP_RENAME_RX then
              obind (parse_rename_rx packet content) (\<lambda>recs. Ret (Some (rr_encode_ok hdr []), rename_rx recs sh, []))
            else if op = OP_SUBSCRIBE then
              obind (parse_subscribe packet content) (\<lambda>recs.
              let (sh', tasks) = apply_all recs sh in Ret (Some (rr_encode_ok hdr []), sh', tasks))
            else if op = OP_UNSUB_ONE then
              obind (parse_unsub_one content) (\<lambda>i.
              let (sh', tasks) = (case i of Some i \<Rightarrow> unsubscribe_one i sh | None \<Rightarrow> (sh, []))
              in Ret (Some (rr_encode_ok hdr []), sh', tasks))
            else if op = OP_RX_FLOWS then obind (encode_rx_flows_page sh hdr content) reply
            else if op = OP_PORT_RANGES then reply (encode_port_ranges hdr)
            else Ret (None, sh, []))"

section \<open>CMC\<close>

definition cmc_handle :: "shared \<Rightarrow> bytes \<Rightarrow> bytes option outcome" where
  "cmc_handle sh packet =
     obind (rr_decode packet) (\<lambda>d. case d of
       None \<Rightarrow> Ret None
     | Some (hdr, _) \<Rightarrow>
         if h_opcode1 hdr = OP_ADVERTISEMENT then
           Ret (Some (encode_advertisement hdr (id_process_id (sh_identity sh)) (id_device_id (sh_identity sh))
             (octets (id_ip (sh_identity sh))) (id_info_port (sh_identity sh))))
         else Ret None)"

text \<open>
  A turn of the loops of the two servers: what \<open>recv_from\<close> gives, cut to the buffer, is
  handled and the reply goes back to its sender; an error is logged and nothing else.
\<close>

datatype received = Packet bytes sock_addr | RecvFailed io_kind

definition reply_to :: "sock_addr \<Rightarrow> bytes option \<Rightarrow> (sock_addr \<times> bytes) list" where
  "reply_to src reply = (case reply of Some r \<Rightarrow> [(src, r)] | None \<Rightarrow> [])"

fun arc_turn :: "received \<Rightarrow> shared \<Rightarrow> (shared \<times> subscribe_req list \<times> (sock_addr \<times> bytes) list) outcome" where
  "arc_turn (Packet buf src) sh =
     obind (arc_handle sh (take 2048 buf)) (\<lambda>(reply, sh, recs). Ret (sh, recs, reply_to src reply))"
| "arc_turn (RecvFailed _) sh = Ret (sh, [], [])"

fun cmc_turn :: "received \<Rightarrow> shared \<Rightarrow> (sock_addr \<times> bytes) list outcome" where
  "cmc_turn (Packet buf src) sh = obind (cmc_handle sh (take 2048 buf)) (\<lambda>reply. Ret (reply_to src reply))"
| "cmc_turn (RecvFailed _) sh = Ret []"

section \<open>Multicast info\<close>

text \<open>\<open>next_seq\<close> and \<open>wrap\<close>; the sequence number of the server is threaded through.\<close>

definition next_seq :: "u16 \<Rightarrow> u16 \<times> u16" where "next_seq sq = (sq, sq + 1)"

definition wrap :: "shared \<Rightarrow> u16 \<Rightarrow> u16 \<Rightarrow> bytes \<Rightarrow> bytes \<Rightarrow> bytes" where
  "wrap sh sq start opcode content =
     mcast_encode start sq (id_process_id (sh_identity sh)) (id_device_id (sh_identity sh))
       (st_vendor_tag (sh_settings sh)) opcode content"

definition INFO_DEST :: sock_addr where "INFO_DEST = ((224, 0, 0, 231), 8702)"
definition HB_DEST :: sock_addr where "HB_DEST = ((224, 0, 0, 233), 8708)"

text \<open>Each sender: what it sends and the sequence number left.\<close>

definition send_board :: "shared \<Rightarrow> u16 \<Rightarrow> ((sock_addr \<times> bytes) list \<times> u16) outcome" where
  "send_board sh sq =
     obind (board_payload (st_board (sh_settings sh))) (\<lambda>content.
     let (n, sq) = next_seq sq in Ret ([(INFO_DEST, wrap sh n START_INFO OPCODE_BOARD content)], sq))"

definition send_product :: "shared \<Rightarrow> u16 \<Rightarrow> ((sock_addr \<times> bytes) list \<times> u16) outcome" where
  "send_product sh sq =
     obind (product_payload (st_manufacturer (sh_settings sh)) (st_board (sh_settings sh)) (st_model (sh_settings sh))) (\<lambda>content.
     let (n, sq) = next_seq sq in Ret ([(INFO_DEST, wrap sh n START_INFO OPCODE_PRODUCT content)], sq))"

definition send_heartbeat :: "shared \<Rightarrow> u16 \<Rightarrow> ((sock_addr \<times> bytes) list \<times> u16) outcome" where
  "send_heartbeat sh sq =
     (let (content, sq) =
            (if status (sh_overlay sh) \<noteq> Unlocked
             then let (n, sq) = next_seq sq in (heartbeat_clock_ppm n (freq_scale_ppb (sh_overlay sh)), sq)
             else ([], sq));
          (n, sq) = next_seq sq
      in Ret ([(HB_DEST, wrap sh n START_HEARTBEAT OPCODE_HEARTBEAT content)], sq))"

definition send_channel_change :: "shared \<Rightarrow> nat list \<Rightarrow> u16 \<Rightarrow> ((sock_addr \<times> bytes) list \<times> u16) outcome" where
  "send_channel_change sh changed sq =
     obind (channel_change changed) (\<lambda>content.
     let (n, sq) = next_seq sq in Ret ([(INFO_DEST, wrap sh n START_INFO OPCODE_CH_CHANGE content)], sq))"

definition reply_request :: "shared \<Rightarrow> bytes \<Rightarrow> u16 \<Rightarrow> (bytes option \<times> u16) outcome" where
  "reply_request sh packet sq =
     obind (reply_opcode packet) (\<lambda>oc. case oc of
       None \<Rightarrow> Ret (None, sq)
     | Some opcode \<Rightarrow>
         let st = sh_settings sh;
             finish = (\<lambda>(content, sq). let (n, sq) = next_seq sq in Ret (Some (wrap sh n START_INFO opcode content), sq));
             iface = id_iface (sh_identity sh)
         in if opcode = OPCODE_BOARD then obind (board_payload (st_board st)) (\<lambda>c. finish (c, sq))
            else if opcode = OPCODE_PRODUCT then
              obind (product_payload (st_manufacturer st) (st_board st) (st_model st)) (\<lambda>c. finish (c, sq))
            else if opcode = OPCODE_NET then
              finish (network_info (if_link_mbps iface) (if_mac iface) (octets (id_ip (sh_identity sh)))
                (octets (if_netmask iface)) (octets (if_gateway iface)), sq)
            else if opcode = OPCODE_CLOCK then
              let (n, sq) = next_seq sq in finish (heartbeat_clock_ppm n (freq_scale_ppb (sh_overlay sh)), sq)
            else Ret (None, sq))"

text \<open>The loop of \<open>run\<close> after its two first packets: the events it selects on.\<close>

datatype info_input =
    Tick
  | InfoEvent
  | InfoRequest sock_addr bytes

definition info_start :: "shared \<Rightarrow> ((sock_addr \<times> bytes) list \<times> u16) outcome" where
  "info_start sh =
     obind (send_board sh 1) (\<lambda>(p, sq). obind (send_product sh sq) (\<lambda>(q, sq). Ret (p @ q, sq)))"

fun info_step :: "info_input \<Rightarrow> shared \<Rightarrow> u16 \<Rightarrow> (shared \<times> (sock_addr \<times> bytes) list \<times> u16) outcome" where
  "info_step Tick sh sq = obind (send_heartbeat sh sq) (\<lambda>(p, sq). Ret (sh, p, sq))"
| "info_step InfoEvent sh sq =
     (case sh_info_tx sh of
        [] \<Rightarrow> Ret (sh, [], sq)
      | ChannelChange changed # q \<Rightarrow>
          obind (send_channel_change sh changed sq) (\<lambda>(p, sq). Ret (sh\<lparr>sh_info_tx := q\<rparr>, p, sq)))"
| "info_step (InfoRequest src packet) sh sq =
     obind (reply_request sh (take 2048 packet) sq) (\<lambda>(r, sq). case r of
       None \<Rightarrow> Ret (sh, [], sq)
     | Some pkt \<Rightarrow> Ret (sh, [(src, pkt), (INFO_DEST, pkt)], sq))"

section \<open>The mDNS responder\<close>

definition MDNS_DEST :: sock_addr where "MDNS_DEST = (MDNS_GROUP, 5353)"

definition announce :: "shared \<Rightarrow> bytes outcome" where
  "announce sh =
     (let i = sh_identity sh; st = sh_settings sh
      in mdns_encode (build_announcement (id_friendly i) (octets (id_ip i)) (id_arc_port i) (id_cmc_port i)
           (hex_id (id_device_id i)) (id_process_id i) (st_board st) (st_manufacturer st) (st_model st)))"

text \<open>
  What the announcer sends before it listens: three probes and two announcements. It looks at
  its own \<open>stop\<close> before each; \<open>k\<close> is how often it finds it unset. The result says whether it
  goes on to its loop.
\<close>

definition mdns_prologue :: "shared \<Rightarrow> nat \<Rightarrow> ((sock_addr \<times> bytes) list \<times> bool) outcome" where
  "mdns_prologue sh k =
     obind (mdns_encode (build_probe (id_friendly (sh_identity sh)))) (\<lambda>probe.
     obind (announce sh) (\<lambda>ann.
     Ret (take k (replicate 3 (MDNS_DEST, probe) @ replicate 2 (MDNS_DEST, ann)), 5 \<le> k)))"

text \<open>A packet from \<open>src\<close>: its answers; a querier that is not on the mDNS port gets its own copy.\<close>

definition mdns_respond :: "shared \<Rightarrow> sock_addr \<Rightarrow> bytes \<Rightarrow> (sock_addr \<times> bytes) list outcome" where
  "mdns_respond sh src packet =
     obind (mdns_decode (take 1500 packet)) (\<lambda>d. case d of
       None \<Rightarrow> Ret []
     | Some msg \<Rightarrow>
         if should_answer msg (id_friendly (sh_identity sh)) then
           obind (announce sh) (\<lambda>pkt. Ret ((MDNS_DEST, pkt) # (if snd src \<noteq> 5353 then [(src, pkt)] else [])))
         else Ret [])"

text \<open>
  A turn of the loop: the \<open>stop\<close> it finds, the time at which it looks how old its last
  announcement is, the time it notes for a new one, and what it receives.
\<close>

record mdns_input =
  mi_stop :: bool
  mi_now :: nat
  mi_after :: nat
  mi_recv :: received

definition mdns_turn :: "mdns_input \<Rightarrow> shared \<Rightarrow> nat \<Rightarrow> ((sock_addr \<times> bytes) list \<times> nat) option outcome" where
  "mdns_turn i sh last_announce =
     (if mi_stop i \<or> sh_stopped sh then Ret None
      else
        obind (if 60 * 1000000000 < mi_now i - last_announce
               then obind (announce sh) (\<lambda>pkt. Ret ([(MDNS_DEST, pkt)], mi_after i))
               else Ret ([], last_announce)) (\<lambda>(out, last_announce).
        case mi_recv i of
          Packet buf src \<Rightarrow> obind (mdns_respond sh src buf) (\<lambda>answers. Ret (Some (out @ answers, last_announce)))
        | RecvFailed _ \<Rightarrow> Ret (Some (out, last_announce))))"

section \<open>What a controller is answered\<close>

definition ARC_OPCODES :: "u16 list" where
  "ARC_OPCODES = [OP_COUNTS, OP_GET_NAME, OP_SET_NAME, OP_NAMES, OP_1100, OP_1102, OP_TX_CH, OP_TX_FRIENDLY,
     OP_TX_FLOWS, OP_RENAME_TX, OP_CREATE_MCAST, OP_DELETE_MCAST, OP_2320, OP_RX_CH, OP_RENAME_RX, OP_SUBSCRIBE,
     OP_UNSUB_ONE, OP_RX_FLOWS, OP_PORT_RANGES]"

text \<open>A reply to a request: its header repeats the request's but for the length and the code.\<close>

definition replies_to :: "header \<Rightarrow> bytes \<Rightarrow> bool" where
  "replies_to hdr r \<longleftrightarrow> (\<exists>code c. r = rr_encode_code hdr code c)"

lemma rr_encode_ok_code: "rr_encode_ok hdr c = rr_encode_code hdr OPCODE2_OK c"
  by (simp add: rr_encode_ok_def rr_encode_code_def)

lemma replies_toI [intro]: "replies_to hdr (rr_encode_code hdr code c)" "replies_to hdr (rr_encode_ok hdr c)"
  by (auto simp: replies_to_def rr_encode_ok_code)

lemma fixed_replies:
  "replies_to hdr (encode_counts hdr tx rx)" "replies_to hdr (encode_device_name hdr n)"
  "replies_to hdr (encode_zeros hdr k)" "replies_to hdr (encode_empty_page hdr)" "replies_to hdr (encode_fail hdr)"
  "replies_to hdr (encode_unsupported hdr)" "replies_to hdr (encode_port_ranges hdr)"
  by (auto simp: encode_counts_def encode_device_name_def encode_zeros_def encode_empty_page_def encode_fail_def
        encode_unsupported_def encode_port_ranges_def Let_def)

lemma encode_names_ok: "\<exists>r. encode_names hdr n = Ret r \<and> replies_to hdr r"
  by (auto simp: encode_names_layout Let_def)

lemma pages_reply:
  "\<exists>r. encode_rx_channels hdr start rate bits chs = Ret r \<and> replies_to hdr r"
  "\<exists>r. encode_rx_flows hdr start fs = Ret r \<and> replies_to hdr r"
  using encode_rx_channels_ok[of hdr start rate bits chs] encode_rx_flows_ok[of hdr start fs]
  by (auto simp: replies_to_def)

lemma encode_rx_page_ok: "\<exists>r. encode_rx_page sh hdr content = Ret r \<and> replies_to hdr r"
  unfolding encode_rx_page_def pagination_start_eq obind.simps Let_def by (rule pages_reply)

lemma encode_rx_flows_page_ok: "\<exists>r. encode_rx_flows_page sh hdr content = Ret r \<and> replies_to hdr r"
  unfolding encode_rx_flows_page_def pagination_start_eq obind.simps Let_def
  using pages_reply(2) fixed_replies(4) by (auto split: if_split)

text \<open>What \<open>handle\<close> does, by its opcode.\<close>

definition arc_change :: "bytes \<Rightarrow> header \<Rightarrow> bytes \<Rightarrow> shared \<Rightarrow> shared \<times> subscribe_req list" where
  "arc_change packet hdr content sh =
     (if h_opcode1 hdr = OP_RENAME_RX then (rename_rx (the_ret (parse_rename_rx packet content)) sh, [])
      else if h_opcode1 hdr = OP_SUBSCRIBE then apply_all (the_ret (parse_subscribe packet content)) sh
      else if h_opcode1 hdr = OP_UNSUB_ONE then
        (case the_ret (parse_unsub_one content) of Some i \<Rightarrow> unsubscribe_one i sh | None \<Rightarrow> (sh, []))
      else (sh, []))"

lemmas arc_op_defs = OP_COUNTS_def OP_GET_NAME_def OP_SET_NAME_def OP_NAMES_def OP_1100_def OP_1102_def OP_TX_CH_def
  OP_TX_FRIENDLY_def OP_TX_FLOWS_def OP_RENAME_TX_def OP_CREATE_MCAST_def OP_DELETE_MCAST_def OP_2320_def OP_RX_CH_def
  OP_RENAME_RX_def OP_SUBSCRIBE_def OP_UNSUB_ONE_def OP_RX_FLOWS_def OP_PORT_RANGES_def

lemma arc_handle_eq:
  assumes "rr_decode p = Ret (Some (hdr, content))"
  shows "\<exists>reply. arc_handle sh p = Ret (reply, arc_change p hdr content sh) \<and>
    (case reply of None \<Rightarrow> h_opcode1 hdr \<notin> set ARC_OPCODES
     | Some r \<Rightarrow> h_opcode1 hdr \<in> set ARC_OPCODES \<and> replies_to hdr r)"
proof (cases "h_opcode1 hdr \<in> set ARC_OPCODES")
  case True
  obtain n where n: "encode_names hdr \<lparr>dn_board = st_board (sh_settings sh), dn_revision = lit ''0.0.0'',
      dn_friendly = id_friendly (sh_identity sh), dn_factory = id_factory (sh_identity sh)\<rparr> = Ret n" "replies_to hdr n"
    using encode_names_ok by blast
  obtain q where q: "encode_rx_page sh hdr content = Ret q" "replies_to hdr q" using encode_rx_page_ok by blast
  obtain f where f: "encode_rx_flows_page sh hdr content = Ret f" "replies_to hdr f" using encode_rx_flows_page_ok by blast
  obtain rn where rn: "parse_rename_rx p content = Ret rn" using parse_rename_rx_spec by blast
  obtain sb where sb: "parse_subscribe p content = Ret sb" using parse_subscribe_eq by blast
  obtain us where us: "parse_unsub_one content = Ret us" using parse_unsub_one_eq by blast
  note step = arc_handle_def arc_change_def assms arc_op_defs Let_def case_prod_beta
  note replies = fixed_replies replies_toI n q f rn sb us
  from True have "\<exists>r. arc_handle sh p = Ret (Some r, arc_change p hdr content sh) \<and> replies_to hdr r"
    unfolding ARC_OPCODES_def list.set insert_iff empty_iff
    by (elim disjE FalseE) (simp_all add: step replies split: option.split)
  then show ?thesis using True by auto
next
  case False
  then have "arc_handle sh p = Ret (None, arc_change p hdr content sh)"
    by (simp add: arc_handle_def arc_change_def assms ARC_OPCODES_def Let_def)
  with False show ?thesis by auto
qed

text \<open>
  C16: the ARC server answers every packet without a panic: one that is not a request gets no
  reply and changes nothing; a request with a known operation gets a reply that repeats its
  start code, sequence number and operation, and one with an unknown operation none; the
  state changes only by renaming, subscribing and unsubscribing, as \<open>arc_change\<close> says.
\<close>

theorem arc_answers:
  "\<exists>reply sh' recs. arc_handle sh p = Ret (reply, sh', recs) \<and>
     (case the_ret (rr_decode p) of
        None \<Rightarrow> reply = None \<and> sh' = sh \<and> recs = []
      | Some (hdr, content) \<Rightarrow>
          (sh', recs) = arc_change p hdr content sh \<and>
          (case reply of None \<Rightarrow> h_opcode1 hdr \<notin> set ARC_OPCODES
           | Some r \<Rightarrow> h_opcode1 hdr \<in> set ARC_OPCODES \<and> replies_to hdr r))"
proof -
  obtain d where d: "rr_decode p = Ret d" using rr_decode_no_panic by (auto simp: not_Panic_iff)
  show ?thesis
  proof (cases d)
    case (Some hc)
    obtain hdr content where hc: "hc = (hdr, content)" by (cases hc)
    obtain sh' recs where "arc_change p hdr content sh = (sh', recs)" by fastforce
    then show ?thesis using arc_handle_eq[of p hdr content sh] d Some hc by auto
  qed (use d in \<open>simp add: arc_handle_def\<close>)
qed

section \<open>No server panics\<close>

lemma cmc_handle_ok: "\<exists>r. cmc_handle sh p = Ret r"
proof -
  obtain d where "rr_decode p = Ret d" using rr_decode_no_panic by (auto simp: not_Panic_iff)
  then show ?thesis by (cases d) (auto simp: cmc_handle_def)
qed

lemma reply_request_ok: "\<exists>r sq'. reply_request sh p sq = Ret (r, sq')"
proof -
  obtain b where b: "board_payload (st_board (sh_settings sh)) = Ret b" using board_payload_ok by blast
  obtain q where q: "product_payload (st_manufacturer (sh_settings sh)) (st_board (sh_settings sh))
      (st_model (sh_settings sh)) = Ret q" using product_payload_ok by blast
  obtain oc where oc: "reply_opcode p = Ret oc" using reply_opcode_eq by blast
  show ?thesis
    by (cases oc) (auto simp: reply_request_def b q oc Let_def next_seq_def)
qed

lemma info_step_ok: "\<exists>sh' out sq'. info_step i sh sq = Ret (sh', out, sq') \<and>
    (\<exists>q. sh' = sh\<lparr>sh_info_tx := q\<rparr>)"
proof -
  have same: "\<exists>q. sh = sh\<lparr>sh_info_tx := q\<rparr>" by (rule exI[of _ "sh_info_tx sh"]) simp
  show ?thesis
  proof (cases i)
    case Tick
    then show ?thesis using same by (auto simp: send_heartbeat_def Let_def next_seq_def)
  next
    case InfoEvent
    show ?thesis
    proof (cases "sh_info_tx sh")
      case (Cons e q)
      obtain ch where e: "e = ChannelChange ch" by (cases e)
      obtain c where "channel_change ch = Ret c" using channel_change_ok by blast
      then show ?thesis using InfoEvent Cons e by (auto simp: send_channel_change_def next_seq_def)
    qed (use InfoEvent same in auto)
  next
    case (InfoRequest src p)
    obtain r sq' where "reply_request sh (take 2048 p) sq = Ret (r, sq')" using reply_request_ok by blast
    then show ?thesis using InfoRequest same by (cases r) auto
  qed
qed

lemma announce_ok: "\<exists>b. announce sh = Ret b"
  by (simp add: announce_def Let_def mdns_encode_eq)

lemma mdns_respond_ok: "\<exists>out. mdns_respond sh src p = Ret out"
proof -
  obtain d where d: "mdns_decode (take 1500 p) = Ret d" using mdns_decode_ok by blast
  obtain b where "announce sh = Ret b" using announce_ok by blast
  then show ?thesis by (cases d) (simp_all add: mdns_respond_def d)
qed

lemma cmc_turn_ok: "\<exists>out. cmc_turn rc sh = Ret out"
proof (cases rc)
  case (Packet buf src)
  obtain r where "cmc_handle sh (take 2048 buf) = Ret r" using cmc_handle_ok by blast
  then show ?thesis by (simp add: Packet)
qed simp

lemma send_board_ok: "\<exists>out sq'. send_board sh sq = Ret (out, sq') \<and> sq' = sq + 1"
  using board_payload_ok[of "st_board (sh_settings sh)"] by (auto simp: send_board_def next_seq_def)

lemma send_product_ok: "\<exists>out sq'. send_product sh sq = Ret (out, sq') \<and> sq' = sq + 1"
  using product_payload_ok[of "st_manufacturer (sh_settings sh)" "st_board (sh_settings sh)" "st_model (sh_settings sh)"]
  by (auto simp: send_product_def next_seq_def)

lemma info_start_ok: "\<exists>out. info_start sh = Ret (out, 3)"
  using send_board_ok[of sh 1] send_product_ok[of sh 2] by (auto simp: info_start_def)

lemma mdns_prologue_ok: "\<exists>out. mdns_prologue sh k = Ret (out, 5 \<le> k)"
proof -
  obtain b where "announce sh = Ret b" using announce_ok by blast
  then show ?thesis by (simp add: mdns_prologue_def mdns_encode_eq)
qed

lemma mdns_turn_ok: "\<exists>r. mdns_turn i sh last_announce = Ret r"
proof -
  obtain b where b: "announce sh = Ret b" using announce_ok by blast
  have "\<exists>out. mdns_respond sh src buf = Ret out" for src buf by (rule mdns_respond_ok)
  then show ?thesis by (cases "mi_recv i") (auto simp: mdns_turn_def b obind_eq_Ret_iff)
qed

end
