(* ===== verification/Ptp_V1.thy ===== *)
theory Ptp_V1
  imports Buf
begin

text \<open>
  \<open>src/src/protocol/ptp_v1.rs\<close>: the PTPv1 common header, the Sync origin timestamp
  and the Follow_Up timestamp.
\<close>

definition PTP_HEADER_LEN :: nat where "PTP_HEADER_LEN = 40"
definition CONTROL_SYNC :: u8 where "CONTROL_SYNC = 0"
definition CONTROL_FOLLOW_UP :: u8 where "CONTROL_FOLLOW_UP = 2"

record ptp_header =
  ptp_version :: u16
  ptp_subdomain_of :: bytes
  ptp_source_uuid :: bytes
  ptp_sequence_id :: u16
  ptp_control :: u8

text \<open>The nanoseconds are an \<open>i32\<close>, kept as its word.\<close>

record timestamp =
  ts_seconds :: u32
  ts_nanoseconds :: u32

definition as_ns :: "timestamp \<Rightarrow> u64" where
  "as_ns t = ucast (ts_seconds t) * 1000000000 + ucast (ts_nanoseconds t)"

definition is_zero :: "timestamp \<Rightarrow> bool" where
  "is_zero t \<longleftrightarrow> ts_seconds t = 0 \<and> ts_nanoseconds t = 0"

definition decode_header :: "bytes \<Rightarrow> ptp_header option outcome" where
  "decode_header packet =
     (if length packet < PTP_HEADER_LEN then Ret None
      else obind (rd16 packet 0) (\<lambda>version_ptp.
        if version_ptp \<noteq> 1 then Ret None
        else obind (rng packet 4 20) (\<lambda>subdomain.
        obind (rng packet 22 28) (\<lambda>source_uuid.
        obind (rd16 packet 30) (\<lambda>sequence_id.
        obind (idx packet 32) (\<lambda>control.
        Ret (Some \<lparr>ptp_version = version_ptp, ptp_subdomain_of = subdomain,
          ptp_source_uuid = source_uuid, ptp_sequence_id = sequence_id,
          ptp_control = control\<rparr>)))))))"

definition origin_timestamp :: "bytes \<Rightarrow> timestamp option outcome" where
  "origin_timestamp packet =
     (if length packet < PTP_HEADER_LEN + 8 then Ret None
      else obind (rd32 packet 40) (\<lambda>seconds.
        obind (rd32 packet 44) (\<lambda>nanoseconds.
        Ret (Some \<lparr>ts_seconds = seconds, ts_nanoseconds = nanoseconds\<rparr>))))"

definition follow_up :: "bytes \<Rightarrow> (u16 \<times> timestamp) option outcome" where
  "follow_up packet =
     (if length packet < PTP_HEADER_LEN + 12 then Ret None
      else obind (rd16 packet 40) (\<lambda>assoc.
        obind (rd32 packet 44) (\<lambda>seconds.
        obind (rd32 packet 48) (\<lambda>nanoseconds.
        Ret (Some (assoc, \<lparr>ts_seconds = seconds, ts_nanoseconds = nanoseconds\<rparr>))))))"

definition subdomain_matches :: "bytes \<Rightarrow> bytes \<Rightarrow> bool" where
  "subdomain_matches got want \<longleftrightarrow> got = want"

section \<open>Lemmas\<close>

lemma decode_header_eq:
  "decode_header p = Ret
    (if 40 \<le> length p \<and> from_be16 (p ! 0) (p ! 1) = 1
     then Some \<lparr>ptp_version = 1, ptp_subdomain_of = slice p 4 20, ptp_source_uuid = slice p 22 28,
       ptp_sequence_id = from_be16 (p ! 30) (p ! 31), ptp_control = p ! 32\<rparr>
     else None)"
  by (simp add: decode_header_def PTP_HEADER_LEN_def panicfree)

lemma origin_timestamp_eq:
  "origin_timestamp p = Ret
    (if 48 \<le> length p
     then Some \<lparr>ts_seconds = from_be32 (p ! 40) (p ! 41) (p ! 42) (p ! 43),
       ts_nanoseconds = from_be32 (p ! 44) (p ! 45) (p ! 46) (p ! 47)\<rparr>
     else None)"
  by (simp add: origin_timestamp_def PTP_HEADER_LEN_def panicfree)

lemma follow_up_eq:
  "follow_up p = Ret
    (if 52 \<le> length p
     then Some (from_be16 (p ! 40) (p ! 41),
       \<lparr>ts_seconds = from_be32 (p ! 44) (p ! 45) (p ! 46) (p ! 47),
        ts_nanoseconds = from_be32 (p ! 48) (p ! 49) (p ! 50) (p ! 51)\<rparr>)
     else None)"
  by (simp add: follow_up_def PTP_HEADER_LEN_def panicfree)

end
