(* ===== verification/Ptp_Thread.thy ===== *)
theory Ptp_Thread
  imports Ptp_V1 Overlay
begin

text \<open>
  The PTP listener of \<open>src/clock/ptp.rs\<close>: the handlers of the event and the general port,
  which feed the overlay clock with the time of a Sync message (one-step masters) or of the
  Follow_Up that belongs to it (two-step masters). The thread's loop alternates between the
  two sockets; the messages it takes, in order, are the events of the machine here. Sockets
  and read timeouts are the operating system's.
\<close>

record pending_sync =
  pn_uuid :: bytes
  pn_seq :: u16
  pn_t2 :: u64

definition handle_event ::
  "u64 \<Rightarrow> bytes \<Rightarrow> bytes \<Rightarrow> overlay_clock \<times> pending_sync option \<Rightarrow>
   (overlay_clock \<times> pending_sync option) outcome" where
  "handle_event lcl subdomain pkt st =
     (let (clk, pending) = st in
      obind (decode_header pkt) (\<lambda>hdr. case hdr of
        None \<Rightarrow> Ret st
      | Some h \<Rightarrow>
          if \<not> subdomain_matches (ptp_subdomain_of h) subdomain then Ret st
          else if ptp_control h \<noteq> CONTROL_SYNC then Ret st
          else obind (origin_timestamp pkt) (\<lambda>ts.
            let wait = (clk, Some \<lparr>pn_uuid = ptp_source_uuid h, pn_seq = ptp_sequence_id h, pn_t2 = lcl\<rparr>)
            in case ts of
                 Some t \<Rightarrow> if \<not> is_zero t then Ret (observe (as_ns t) lcl Ptp clk, None) else Ret wait
               | None \<Rightarrow> Ret wait)))"

definition handle_general ::
  "bytes \<Rightarrow> bytes \<Rightarrow> overlay_clock \<times> pending_sync option \<Rightarrow>
   (overlay_clock \<times> pending_sync option) outcome" where
  "handle_general subdomain pkt st =
     (let (clk, pending) = st in
      obind (decode_header pkt) (\<lambda>hdr. case hdr of
        None \<Rightarrow> Ret st
      | Some h \<Rightarrow>
          if \<not> subdomain_matches (ptp_subdomain_of h) subdomain then Ret st
          else if ptp_control h \<noteq> CONTROL_FOLLOW_UP then Ret st
          else obind (follow_up pkt) (\<lambda>fu. case fu of
            None \<Rightarrow> Ret st
          | Some (assoc, ts) \<Rightarrow>
              (case pending of
                 None \<Rightarrow> Ret (clk, None)
               | Some p \<Rightarrow>
                   if pn_uuid p \<noteq> ptp_source_uuid h \<or> pn_seq p \<noteq> assoc then Ret (clk, Some p)
                   else Ret (observe (as_ns ts) (pn_t2 p) Ptp clk, None)))))"

text \<open>The loop of \<open>start\<close>: one message of either socket at a time, the first with its arrival time.\<close>

datatype ptp_message =
    EventMsg u64 bytes
  | GeneralMsg bytes

fun ptp_step ::
  "bytes \<Rightarrow> overlay_clock \<times> pending_sync option \<Rightarrow> ptp_message \<Rightarrow>
   (overlay_clock \<times> pending_sync option) outcome" where
  "ptp_step subdomain st (EventMsg lcl pkt) = handle_event lcl subdomain pkt st"
| "ptp_step subdomain st (GeneralMsg pkt) = handle_general subdomain pkt st"

section \<open>Correctness\<close>

text \<open>A packet that is a Sync or a Follow_Up of this subdomain, and what it says.\<close>

definition header_of :: "bytes \<Rightarrow> bytes \<Rightarrow> u8 \<Rightarrow> ptp_header option" where
  "header_of subdomain pkt ctl =
     (case the_ret (decode_header pkt) of
        Some h \<Rightarrow> if ptp_subdomain_of h = subdomain \<and> ptp_control h = ctl then Some h else None
      | None \<Rightarrow> None)"

definition sync_of :: "bytes \<Rightarrow> bytes \<Rightarrow> (bytes \<times> u16 \<times> u64 option) option" where
  \<comment> \<open>the source, the sequence number and the time of a Sync, no time if it has none or zero\<close>
  "sync_of subdomain pkt =
     map_option (\<lambda>h. (ptp_source_uuid h, ptp_sequence_id h,
       (case the_ret (origin_timestamp pkt) of
          Some t \<Rightarrow> if is_zero t then None else Some (as_ns t) | None \<Rightarrow> None)))
     (header_of subdomain pkt CONTROL_SYNC)"

definition follow_up_of :: "bytes \<Rightarrow> bytes \<Rightarrow> (bytes \<times> u16 \<times> u64) option" where
  "follow_up_of subdomain pkt =
     (case header_of subdomain pkt CONTROL_FOLLOW_UP of
        Some h \<Rightarrow> map_option (\<lambda>(assoc, t). (ptp_source_uuid h, assoc, as_ns t)) (the_ret (follow_up pkt))
      | None \<Rightarrow> None)"

definition pend :: "bytes \<times> u16 \<Rightarrow> u64 \<Rightarrow> pending_sync" where
  "pend us t2 = \<lparr>pn_uuid = fst us, pn_seq = snd us, pn_t2 = t2\<rparr>"

lemma handle_event_eq:
  "handle_event lcl subdomain pkt (clk, pending) = Ret
     (case sync_of subdomain pkt of
        None \<Rightarrow> (clk, pending)
      | Some (u, s, Some t1) \<Rightarrow> (observe t1 lcl Ptp clk, None)
      | Some (u, s, None) \<Rightarrow> (clk, Some (pend (u, s) lcl)))"
  by (simp add: handle_event_def sync_of_def header_of_def decode_header_eq origin_timestamp_eq
        subdomain_matches_def pend_def split: option.splits)

lemma handle_general_eq:
  "handle_general subdomain pkt (clk, pending) = Ret
     (case follow_up_of subdomain pkt of
        Some (u, s, t1) \<Rightarrow>
          (case pending of
             Some p \<Rightarrow> if pn_uuid p = u \<and> pn_seq p = s then (observe t1 (pn_t2 p) Ptp clk, None)
                       else (clk, Some p)
           | None \<Rightarrow> (clk, None))
      | None \<Rightarrow> (clk, pending))"
  by (simp add: handle_general_def follow_up_of_def header_of_def decode_header_eq follow_up_eq
        subdomain_matches_def split: option.splits)

text \<open>
  Where an observation of the clock comes from: a Sync with a time of its own, at its
  arrival; or a Follow_Up whose source and sequence number are those of an earlier Sync
  without a time, at the arrival of that Sync.
\<close>

definition from_messages :: "bytes \<Rightarrow> ptp_message list \<Rightarrow> clock_event \<Rightarrow> bool" where
  "from_messages subdomain ms e \<longleftrightarrow>
     (\<exists>t1 t2 pkt u s. e = Observe t1 t2 Ptp \<and> EventMsg t2 pkt \<in> set ms \<and>
        sync_of subdomain pkt = Some (u, s, Some t1)) \<or>
     (\<exists>t1 t2 pkt pkt' u s pre post. e = Observe t1 t2 Ptp \<and> ms = pre @ GeneralMsg pkt' # post \<and>
        EventMsg t2 pkt \<in> set pre \<and> sync_of subdomain pkt = Some (u, s, None) \<and>
        follow_up_of subdomain pkt' = Some (u, s, t1))"

definition waiting_from :: "bytes \<Rightarrow> ptp_message list \<Rightarrow> pending_sync option \<Rightarrow> bool" where
  "waiting_from subdomain ms pending \<longleftrightarrow>
     (\<forall>p. pending = Some p \<longrightarrow>
        (\<exists>pkt u s t2. p = pend (u, s) t2 \<and> EventMsg t2 pkt \<in> set ms \<and> sync_of subdomain pkt = Some (u, s, None)))"

lemma ptp_step_ok: "\<exists>clk' p'. ptp_step subdomain (clk, p) m = Ret (clk', p')"
  by (cases m) (auto simp: handle_event_eq handle_general_eq split: option.split prod.split)

lemma from_messages_more: "from_messages sd ms e \<Longrightarrow> from_messages sd (ms @ [m]) e"
  unfolding from_messages_def by (elim disjE exE conjE) (fastforce, fastforce)

lemma waiting_from_more: "waiting_from sd ms p \<Longrightarrow> waiting_from sd (ms @ [m]) p"
  unfolding waiting_from_def by fastforce

lemma clock_run_snoc: "clock_run c (es @ [Observe t1 t2 s]) = observe t1 t2 s (clock_run c es)"
  by (simp add: clock_run_def)

lemma ptp_run_justified:
  "\<exists>clk pending obs. ofold (ptp_step sd) (c, None) ms = Ret (clk, pending) \<and>
     clk = clock_run c obs \<and> list_all (from_messages sd ms) obs \<and> waiting_from sd ms pending"
proof (induction ms rule: rev_induct)
  case Nil
  show ?case by (intro exI[of _ c] exI[of _ None] exI[of _ "[]"]) (simp add: clock_run_def waiting_from_def)
next
  case (snoc m ms)
  then obtain clk pending obs where run: "ofold (ptp_step sd) (c, None) ms = Ret (clk, pending)"
    and clk: "clk = clock_run c obs" and obs: "list_all (from_messages sd ms) obs"
    and w: "waiting_from sd ms pending" by blast
  have old: "list_all (from_messages sd (ms @ [m])) obs"
    using obs by (simp add: list_all_iff from_messages_more)
  note keep = clk old waiting_from_more[OF w, of m]
  have none: "waiting_from sd l None" for l by (simp add: waiting_from_def)
  show ?case
  proof (cases m)
    case (EventMsg lcl pkt)
    consider "sync_of sd pkt = None" | u s t1 where "sync_of sd pkt = Some (u, s, Some t1)"
      | u s where "sync_of sd pkt = Some (u, s, None)"
      by (metis not_None_eq prod_cases3)
    then show ?thesis
    proof cases
      case 1
      then show ?thesis using run keep
        by (intro exI[of _ clk] exI[of _ pending] exI[of _ obs])
           (simp add: ofold_append EventMsg handle_event_eq)
    next
      case 2
      then have "from_messages sd (ms @ [m]) (Observe t1 lcl Ptp)"
        unfolding from_messages_def EventMsg by fastforce
      then show ?thesis using 2 run keep none
        by (intro exI[of _ "observe t1 lcl Ptp clk"] exI[of _ None] exI[of _ "obs @ [Observe t1 lcl Ptp]"])
           (simp add: ofold_append EventMsg handle_event_eq clock_run_snoc)
    next
      case 3
      then have "waiting_from sd (ms @ [m]) (Some (pend (u, s) lcl))"
        unfolding waiting_from_def EventMsg by fastforce
      then show ?thesis using 3 run keep
        by (intro exI[of _ clk] exI[of _ "Some (pend (u, s) lcl)"] exI[of _ obs])
           (simp add: ofold_append EventMsg handle_event_eq)
    qed
  next
    case (GeneralMsg pkt)
    show ?thesis
    proof (cases "\<exists>p u s t1. pending = Some p \<and> follow_up_of sd pkt = Some (u, s, t1) \<and> pn_uuid p = u \<and> pn_seq p = s")
      case True
      then obtain p t1 where p: "pending = Some p" "follow_up_of sd pkt = Some (pn_uuid p, pn_seq p, t1)" by auto
      then obtain pkt0 where "EventMsg (pn_t2 p) pkt0 \<in> set ms" "sync_of sd pkt0 = Some (pn_uuid p, pn_seq p, None)"
        using w by (auto simp: waiting_from_def pend_def)
      then have "from_messages sd (ms @ [m]) (Observe t1 (pn_t2 p) Ptp)"
        unfolding from_messages_def GeneralMsg using p(2) by blast
      then show ?thesis using p run keep none
        by (intro exI[of _ "observe t1 (pn_t2 p) Ptp clk"] exI[of _ None]
              exI[of _ "obs @ [Observe t1 (pn_t2 p) Ptp]"])
           (simp add: ofold_append GeneralMsg handle_general_eq clock_run_snoc)
    next
      case False
      then have "handle_general sd pkt (clk, pending) = Ret (clk, pending)"
        by (auto simp: handle_general_eq split: option.splits)
      then show ?thesis using run keep
        by (intro exI[of _ clk] exI[of _ pending] exI[of _ obs]) (simp add: ofold_append GeneralMsg)
    qed
  qed
qed

text \<open>
  C38: whatever packets arrive on the two PTP ports, the listener never panics, and its clock
  is the clock of a run of observations each of which is justified by the messages: the time
  a Sync carries with the arrival of that Sync, or the time of a Follow_Up with the arrival
  of an earlier Sync of the same source and sequence number, all of the device's subdomain.
\<close>

theorem ptp_observations_justified:
  "\<exists>clk pending obs. ofold (ptp_step subdomain) (clock_new, None) ms = Ret (clk, pending) \<and>
     clk = clock_run clock_new obs \<and> list_all (from_messages subdomain ms) obs"
  using ptp_run_justified[of subdomain clock_new ms] by blast

text \<open>A message that leaves a Sync waiting for its Follow_Up.\<close>

definition unrelated :: "bytes \<Rightarrow> bytes \<times> u16 \<Rightarrow> ptp_message \<Rightarrow> bool" where
  "unrelated subdomain us m =
     (case m of
        EventMsg lcl pkt \<Rightarrow> sync_of subdomain pkt = None
      | GeneralMsg pkt \<Rightarrow>
          (case follow_up_of subdomain pkt of Some (u, s, t) \<Rightarrow> (u, s) \<noteq> us | None \<Rightarrow> True))"

lemma unrelated_run:
  "list_all (unrelated sd us) ms \<Longrightarrow>
   ofold (ptp_step sd) (clk, Some (pend us t2)) ms = Ret (clk, Some (pend us t2))"
proof (induction ms)
  case (Cons m ms)
  then have "ptp_step sd (clk, Some (pend us t2)) m = Ret (clk, Some (pend us t2))"
    by (cases m) (auto simp: unrelated_def handle_event_eq handle_general_eq pend_def split: option.splits)
  with Cons show ?case by simp
qed simp

text \<open>
  C39: a two-step Sync is observed: after a Sync without a time, the Follow_Up of the same
  source and sequence number feeds the clock its time with the arrival of the Sync, however
  many unrelated messages (no other Sync, no Follow_Up of that Sync) come between, and
  however late it comes.
\<close>

theorem two_step_sync_observed:
  assumes "sync_of subdomain pkt = Some (u, s, None)" "follow_up_of subdomain pkt' = Some (u, s, t1)"
    and "list_all (unrelated subdomain (u, s)) ms"
  shows "ofold (ptp_step subdomain) (clk, pending) (EventMsg t2 pkt # ms @ [GeneralMsg pkt']) =
           Ret (observe t1 t2 Ptp clk, None)"
  using assms
  by (simp add: handle_event_eq handle_general_eq ofold_append unrelated_run) (simp add: pend_def)

definition demo_ptp :: "u8 \<Rightarrow> u8 \<Rightarrow> bytes \<Rightarrow> bytes" where
  "demo_ptp sq ctl body =
     [0, 1, 0, 0] @ replicate 16 7 @ [0, 0] @ [1, 2, 3, 4, 5, 6] @ [0, 0] @ [0, sq] @ [ctl] @ replicate 7 0 @ body"

theorem two_step_sync_observed_witness:
  "ofold (ptp_step (replicate 16 7)) (clock_new, None)
     [EventMsg 1000 (demo_ptp 5 0 []), GeneralMsg (demo_ptp 6 2 [0, 4, 0, 0, 0, 0, 0, 8, 0, 0, 0, 9]),
      GeneralMsg (demo_ptp 6 2 [0, 5, 0, 0, 0, 0, 0, 8, 0, 0, 0, 9])] =
   Ret (observe 8000000009 1000 Ptp clock_new, None)"
proof -
  let ?sd = "replicate 16 7 :: bytes"
  have "sync_of ?sd (demo_ptp 5 0 []) = Some ([1, 2, 3, 4, 5, 6], 5, None)" by code_simp
  moreover have "follow_up_of ?sd (demo_ptp 6 2 [0, 5, 0, 0, 0, 0, 0, 8, 0, 0, 0, 9]) =
      Some ([1, 2, 3, 4, 5, 6], 5, 8000000009)" by code_simp
  moreover have "list_all (unrelated ?sd ([1, 2, 3, 4, 5, 6], 5))
      [GeneralMsg (demo_ptp 6 2 [0, 4, 0, 0, 0, 0, 0, 8, 0, 0, 0, 9])]" by code_simp
  ultimately show ?thesis
    using two_step_sync_observed[of ?sd "demo_ptp 5 0 []" "[1, 2, 3, 4, 5, 6]" 5
        "demo_ptp 6 2 [0, 5, 0, 0, 0, 0, 0, 8, 0, 0, 0, 9]" 8000000009
        "[GeneralMsg (demo_ptp 6 2 [0, 4, 0, 0, 0, 0, 0, 8, 0, 0, 0, 9])]" clock_new None 1000] by simp
qed

end
