(* ===== verification/Device_Run.thy ===== *)
theory Device_Run
  imports Media_Rx Servers Ptp_Thread
begin

text \<open>
  A device as one machine: the shared state with the tasks and threads around it, and an
  event for everything that makes one of them move. An event is the critical section of one
  component, or several of one component in a row; the order of events is arbitrary, so a
  list of events is an interleaving.
\<close>

section \<open>The machine\<close>

text \<open>
  The announcer before, in and after its loop, with the time of its last announcement; what
  the servers and the announcer have sent is logged in \<open>dv_out\<close>.
\<close>

datatype announcer = NotAnnounced | Announcing nat | Silent

record device =
  dv_shared :: shared
  dv_tasks :: "task list"
  dv_flows :: flow_table
  dv_media :: bool
  dv_pending :: "pending_sync option"
  dv_info :: "u16 option"
  dv_mdns :: announcer
  dv_out :: "(sock_addr \<times> bytes) list"

datatype device_event =
    ArcTurn received
  | CmcTurn received
  | InfoStart
  | InfoTurn info_input
  | MdnsStart nat nat
  | MdnsTurn mdns_input
  | TaskStep nat outside
  | MediaTurn turn
  | PtpPacket ptp_message
  | AppRead u64 nat audio_frame
  | AppWakeup
  | AppOverride ipv4 u16
  | AppStop

definition spawn :: "subscribe_req \<Rightarrow> task" where
  "spawn rec = \<lparr>tk_rec = rec, tk_phase = Resolving\<rparr>"

definition sends :: "(sock_addr \<times> bytes) list \<Rightarrow> device \<Rightarrow> device" where
  "sends out d = d\<lparr>dv_out := dv_out d @ out\<rparr>"

text \<open>
  The media thread ends when it is told to or finds the device stopped; its end of the
  channel is dropped with it, so later sends fail. A turn of a thread that has ended, or has
  not begun, is none.
\<close>

definition device_step :: "device \<Rightarrow> device_event \<Rightarrow> device outcome" where
  "device_step d ev =
     (let sh = dv_shared d in case ev of
        ArcTurn rc \<Rightarrow>
          obind (arc_turn rc sh) (\<lambda>(sh, recs, out).
          Ret (sends out (d\<lparr>dv_shared := sh, dv_tasks := dv_tasks d @ map spawn recs\<rparr>)))
      | CmcTurn rc \<Rightarrow> obind (cmc_turn rc sh) (\<lambda>out. Ret (sends out d))
      | InfoStart \<Rightarrow>
          if dv_info d = None then obind (info_start sh) (\<lambda>(out, sq). Ret (sends out (d\<lparr>dv_info := Some sq\<rparr>)))
          else Ret d
      | InfoTurn i \<Rightarrow>
          (case dv_info d of
             None \<Rightarrow> Ret d
           | Some sq \<Rightarrow>
               obind (info_step i sh sq) (\<lambda>(sh, out, sq). Ret (sends out (d\<lparr>dv_shared := sh, dv_info := Some sq\<rparr>))))
      | MdnsStart k now \<Rightarrow>
          if dv_mdns d = NotAnnounced then
            obind (mdns_prologue sh k) (\<lambda>(out, on).
            Ret (sends out (d\<lparr>dv_mdns := (if on then Announcing now else Silent)\<rparr>)))
          else Ret d
      | MdnsTurn i \<Rightarrow>
          (case dv_mdns d of
             Announcing t \<Rightarrow>
               obind (mdns_turn i sh t) (\<lambda>res. case res of
                 None \<Rightarrow> Ret (d\<lparr>dv_mdns := Silent\<rparr>)
               | Some (out, t) \<Rightarrow> Ret (sends out (d\<lparr>dv_mdns := Announcing t\<rparr>)))
           | _ \<Rightarrow> Ret d)
      | TaskStep k ou \<Rightarrow>
          if k \<ge> length (dv_tasks d) then Ret d
          else obind (establish_step ou sh (dv_tasks d ! k)) (\<lambda>(sh, tk).
               Ret (d\<lparr>dv_shared := sh, dv_tasks := (dv_tasks d)[k := tk]\<rparr>))
      | MediaTurn tn \<Rightarrow>
          if \<not> dv_media d then Ret d
          else obind (media_turn tn (sh, dv_flows d)) (\<lambda>res. case res of
                 None \<Rightarrow> Ret (d\<lparr>dv_media := False, dv_flows := Map.empty,
                                dv_shared := sh\<lparr>sh_media_open := False, sh_media_tx := []\<rparr>\<rparr>)
               | Some (sh, flows) \<Rightarrow> Ret (d\<lparr>dv_shared := sh, dv_flows := flows\<rparr>))
      | PtpPacket m \<Rightarrow>
          obind (ptp_step (st_ptp_subdomain (sh_settings sh)) (sh_overlay sh, dv_pending d) m) (\<lambda>(clk, pending).
          Ret (d\<lparr>dv_shared := sh\<lparr>sh_overlay := clk\<rparr>, dv_pending := pending\<rparr>))
      | AppRead lcl now dst \<Rightarrow> obind (try_read lcl now dst sh) (\<lambda>(sh, _, _). Ret (d\<lparr>dv_shared := sh\<rparr>))
      | AppWakeup \<Rightarrow> Ret (d\<lparr>dv_shared := set_rx_wakeup sh\<rparr>)
      | AppOverride ip port \<Rightarrow> Ret (d\<lparr>dv_shared := set_subscribe_override ip port sh\<rparr>)
      | AppStop \<Rightarrow> Ret (d\<lparr>dv_shared := signal_stop sh\<rparr>))"

definition device_run :: "device \<Rightarrow> device_event list \<Rightarrow> device outcome" where
  "device_run = ofold device_step"

definition device_new :: "shared \<Rightarrow> device" where
  "device_new sh = \<lparr>dv_shared = sh, dv_tasks = [], dv_flows = Map.empty, dv_media = True, dv_pending = None,
     dv_info = None, dv_mdns = NotAnnounced, dv_out = []\<rparr>"

lemma sends_simps [simp]:
  "dv_shared (sends out d) = dv_shared d" "dv_tasks (sends out d) = dv_tasks d" "dv_flows (sends out d) = dv_flows d"
  "dv_media (sends out d) = dv_media d" "dv_out (sends out d) = dv_out d @ out"
  by (simp_all add: sends_def)

section \<open>The invariant of the shared state\<close>

definition subscribed :: "rx_sub \<Rightarrow> bool" where
  "subscribed s \<longleftrightarrow> sub_tx_channel s \<noteq> None \<or> sub_tx_host s \<noteq> None"

text \<open>What a started device never changes.\<close>

definition config_ok :: "identity \<Rightarrow> settings \<Rightarrow> bool" where
  "config_ok i s \<longleftrightarrow> 0 < unat (st_rx_channels s) \<and> st_sample_rate s \<noteq> 0"

text \<open>A flow as the media thread gets it: one channel of the device, in the device's format.\<close>

definition flow_ok :: "settings \<Rightarrow> nat option list \<Rightarrow> nat \<Rightarrow> nat \<Rightarrow> u32 \<Rightarrow> bool" where
  "flow_ok s chmap nchan bps rate \<longleftrightarrow>
     (\<exists>i < unat (st_rx_channels s). chmap = [Some i]) \<and> nchan = 1 \<and> bps = bytes_of (st_bits s) \<and>
     rate = st_sample_rate s"

fun command_ok :: "settings \<Rightarrow> media_command \<Rightarrow> bool" where
  "command_ok s (AddFlow i sock chmap nchan bps rate) = flow_ok s chmap nchan bps rate"
| "command_ok s _ = True"

definition channels_ok :: "settings \<Rightarrow> rx_flow_info \<Rightarrow> bool" where
  "channels_ok s f \<longleftrightarrow> (\<exists>k. fi_channels f = [k] \<and> 0 < unat k \<and> unat k \<le> unat (st_rx_channels s))"

definition shared_ok :: "shared \<Rightarrow> bool" where
  "shared_ok sh \<longleftrightarrow>
     (let s = sh_settings sh; n = unat (st_rx_channels s); r = sh_ring sh in
      config_ok (sh_identity sh) s \<and> ring_ok r \<and> ring_nchan r = n \<and>
      length (sh_subs sh) = n \<and> length (sh_rx_names sh) = n \<and>
      patched r = map subscribed (sh_subs sh) \<and>
      list_all (command_ok s) (sh_media_tx sh) \<and> list_all (channels_ok s) (sh_rx_flows sh))"

definition task_ok :: "settings \<Rightarrow> task \<Rightarrow> bool" where
  "task_ok s tk \<longleftrightarrow> 0 < unat (sr_local_id (tk_rec tk)) \<and> unat (sr_local_id (tk_rec tk)) \<le> unat (st_rx_channels s)"

definition flows_ok :: "settings \<Rightarrow> flow_table \<Rightarrow> bool" where
  "flows_ok s flows \<longleftrightarrow> (\<forall>i f. flows i = Some f \<longrightarrow>
     mf_id f = i \<and> flow_ok s (mf_map f) (mf_nchan f) (mf_bytes f) (mf_rate f))"

definition device_ok :: "device \<Rightarrow> bool" where
  "device_ok d \<longleftrightarrow> shared_ok (dv_shared d) \<and>
     list_all (task_ok (sh_settings (dv_shared d))) (dv_tasks d) \<and>
     flows_ok (sh_settings (dv_shared d)) (dv_flows d)"

text \<open>
  The fields the invariant reads; a step that leaves them alone keeps it.
\<close>

definition same_core :: "shared \<Rightarrow> shared \<Rightarrow> bool" where
  "same_core a b \<longleftrightarrow> sh_identity b = sh_identity a \<and> sh_settings b = sh_settings a \<and>
     sh_ring b = sh_ring a \<and> length (sh_subs b) = length (sh_subs a) \<and>
     map subscribed (sh_subs b) = map subscribed (sh_subs a) \<and>
     length (sh_rx_names b) = length (sh_rx_names a) \<and>
     sh_media_tx b = sh_media_tx a \<and> sh_rx_flows b = sh_rx_flows a"

lemma same_core_ok: "same_core a b \<Longrightarrow> shared_ok a \<Longrightarrow> shared_ok b"
  by (simp only: same_core_def shared_ok_def Let_def)

lemma map_subscribed_update:
  "i < length subs \<Longrightarrow> subscribed x = subscribed (subs ! i) \<Longrightarrow> map subscribed (subs[i := x]) = map subscribed subs"
  by (simp add: map_update list_update_same_conv)

lemma set_status_core: "same_core sh (set_status i st sh)"
  by (simp add: set_status_def set_sub_def same_core_def map_subscribed_update subscribed_def)

lemma mark_flow_receiving_core: "same_core sh (mark_flow_receiving f sh)"
  by (auto simp: mark_flow_receiving_def same_core_def subscribed_def)

lemma remove_first_set: "remove_first P xs = (r, ys) \<Longrightarrow> set ys \<subseteq> set xs"
  by (induction xs arbitrary: r ys) (auto split: if_splits prod.splits)

lemma set_patched_ok:
  "ring_ok r \<Longrightarrow> ring_ok (set_patched i b r)" "ring_nchan (set_patched i b r) = ring_nchan r"
  "i < length (patched r) \<Longrightarrow> patched (set_patched i b r) = (patched r)[i := b]"
  by (simp_all add: set_patched_def ring_ok_def)

lemma note_port_ok:
  "ring_ok r \<Longrightarrow> ring_ok (note_port p r)" "ring_nchan (note_port p r) = ring_nchan r"
  "patched (note_port p r) = patched r"
  by (simp_all add: note_port_def ring_ok_def)

lemma media_send_settings [simp]:
  "sh_settings (fst (media_send c sh)) = sh_settings sh" "sh_identity (fst (media_send c sh)) = sh_identity sh"
  "sh_ring (fst (media_send c sh)) = sh_ring sh" "sh_subs (fst (media_send c sh)) = sh_subs sh"
  "sh_rx_names (fst (media_send c sh)) = sh_rx_names sh" "sh_rx_flows (fst (media_send c sh)) = sh_rx_flows sh"
  by (simp_all add: media_send_def)

lemma media_send_ok: "shared_ok sh \<Longrightarrow> command_ok (sh_settings sh) c \<Longrightarrow> shared_ok (fst (media_send c sh))"
  by (simp add: media_send_def shared_ok_def Let_def)

lemma shared_okD:
  assumes "shared_ok sh"
  defines "n \<equiv> unat (st_rx_channels (sh_settings sh))"
  shows "0 < n" "st_sample_rate (sh_settings sh) \<noteq> 0" "ring_ok (sh_ring sh)" "ring_nchan (sh_ring sh) = n"
    "length (sh_subs sh) = n" "length (sh_rx_names sh) = n" "patched (sh_ring sh) = map subscribed (sh_subs sh)"
    "list_all (command_ok (sh_settings sh)) (sh_media_tx sh)" "list_all (channels_ok (sh_settings sh)) (sh_rx_flows sh)"
  using assms by (simp_all only: shared_ok_def Let_def config_ok_def simp_thms)

text \<open>Two states of one device: what is fixed at its start is the same.\<close>

definition same_config :: "shared \<Rightarrow> shared \<Rightarrow> bool" where
  "same_config a b \<longleftrightarrow> sh_settings b = sh_settings a \<and> sh_identity b = sh_identity a"

lemma same_config_refl [simp]: "same_config a a"
  by (simp add: same_config_def)

lemma same_config_trans: "same_config a b \<Longrightarrow> same_config b c \<Longrightarrow> same_config a c"
  by (simp add: same_config_def)

section \<open>Subscriptions keep it\<close>

lemma patch_ok:
  assumes "shared_ok sh" "i < length (sh_subs sh)"
  shows "shared_ok ((set_sub i x sh)\<lparr>sh_ring := set_patched i (subscribed x) (sh_ring sh)\<rparr>)"
proof -
  note d = shared_okD[OF assms(1)]
  have i: "i < length (patched (sh_ring sh))" using d(7) assms(2) by simp
  have p: "patched (set_patched i (subscribed x) (sh_ring sh)) = map subscribed ((sh_subs sh)[i := x])"
    using set_patched_ok(3)[OF i] d(7) by (simp add: map_update)
  show ?thesis
    unfolding shared_ok_def Let_def set_sub_def
    using d assms p set_patched_ok(1)[OF d(3)] set_patched_ok(2)[of i _ "sh_ring sh"]
    by (simp add: config_ok_def)
qed

lemma stop_flow_ok:
  assumes "shared_ok sh"
  shows "shared_ok (stop_flow fid sh)" "same_config sh (stop_flow fid sh)"
proof -
  obtain r ys where f: "remove_first (\<lambda>f. fi_flow_id f = fid) (sh_rx_flows sh) = (r, ys)" by fastforce
  define sh1 where "sh1 = sh\<lparr>sh_rx_flows := ys\<rparr>"
  define sh2 where "sh2 = fst (media_send (RemoveFlow fid) sh1)"
  have "list_all (channels_ok (sh_settings sh)) ys"
    using shared_okD(9)[OF assms] remove_first_set[OF f] by (auto simp: list_all_iff)
  then have "shared_ok sh1"
    using assms by (simp add: sh1_def shared_ok_def Let_def)
  then have ok2: "shared_ok sh2" by (simp add: sh2_def media_send_ok)
  have cfg: "same_config sh sh2" by (simp add: sh2_def sh1_def same_config_def)
  have "stop_flow fid sh = sh2 \<or> (\<exists>q l. stop_flow fid sh = sh2\<lparr>sh_flows_seq := q, sh_sent := l\<rparr>)"
    unfolding stop_flow_def f Let_def prod.case sh1_def[symmetric] sh2_def[symmetric]
    by (auto split: option.splits)
  then show "shared_ok (stop_flow fid sh)" "same_config sh (stop_flow fid sh)"
    using ok2 cfg by (auto simp: shared_ok_def Let_def same_config_def)
qed

definition recs_ok :: "settings \<Rightarrow> subscribe_req list \<Rightarrow> bool" where
  "recs_ok s recs \<longleftrightarrow> (\<forall>r \<in> set recs. 0 < unat (sr_local_id r) \<and> unat (sr_local_id r) \<le> unat (st_rx_channels s))"

lemma apply_one_ok:
  assumes "shared_ok sh" "recs_ok (sh_settings sh) ts" "apply_one rec (sh, ts) = (sh', ts')"
  shows "shared_ok sh'" "same_config sh sh'" "recs_ok (sh_settings sh) ts'"
proof -
  define i where "i = unat (sr_local_id rec) - 1"
  note d = shared_okD[OF assms(1)]
  have "shared_ok sh' \<and> same_config sh sh' \<and> recs_ok (sh_settings sh) ts'"
  proof (cases "sr_local_id rec = 0 \<or> i \<ge> length (sh_subs sh)")
    case True
    then have "sh' = sh \<and> ts' = ts" using assms(3) by (auto simp: apply_one_def Let_def i_def split: if_splits)
    then show ?thesis using assms(1,2) by simp
  next
    case False
    then have id: "sr_local_id rec \<noteq> 0" and i: "i < length (sh_subs sh)" by simp_all
    show ?thesis
    proof (cases "sr_tx_channel rec = None \<and> sr_tx_host rec = None")
      case True
      define sh1 where "sh1 = (set_sub i rx_sub_default sh)\<lparr>sh_ring := set_patched i False (sh_ring sh)\<rparr>"
      have ok1: "shared_ok sh1" "same_config sh sh1"
        using patch_ok[OF assms(1) i, of rx_sub_default]
        by (simp_all add: sh1_def subscribed_def rx_sub_default_def same_config_def set_sub_def)
      have "sh' = (case sub_flow_id (sh_subs sh ! i) of None \<Rightarrow> sh1 | Some fid \<Rightarrow> stop_flow fid sh1)" "ts' = ts"
        using assms(3) id i True
        by (cases "sub_flow_id (sh_subs sh ! i)";
            simp add: apply_one_def Let_def set_sub_def sh1_def flip: i_def del: One_nat_def)+
      then show ?thesis
        using ok1 stop_flow_ok[OF ok1(1)] assms(2) by (auto split: option.splits intro: same_config_trans)
    next
      case False
      define x where "x = (sh_subs sh ! i)\<lparr>sub_tx_channel := sr_tx_channel rec, sub_tx_host := sr_tx_host rec,
        sub_status := STATUS_UNRESOLVED\<rparr>"
      have x: "subscribed x = True" using False by (auto simp: subscribed_def x_def)
      have "sh' = (set_sub i x sh)\<lparr>sh_ring := set_patched i (subscribed x) (sh_ring sh)\<rparr>" "ts' = ts @ [rec]"
        using assms(3) id i False unfolding x
        by (simp_all add: apply_one_def Let_def set_sub_def x_def flip: i_def del: One_nat_def)
      moreover have "unat (sr_local_id rec) \<le> unat (st_rx_channels (sh_settings sh))" "0 < unat (sr_local_id rec)"
        using i id d(5) by (simp_all add: i_def unat_gt_0)
      ultimately show ?thesis
        using patch_ok[OF assms(1) i, of x] assms(2)
        by (auto simp: recs_ok_def same_config_def set_sub_def)
    qed
  qed
  then show "shared_ok sh'" "same_config sh sh'" "recs_ok (sh_settings sh) ts'" by simp_all
qed

lemma apply_fold_ok:
  assumes "shared_ok sh" "recs_ok (sh_settings sh) ts" "fold apply_one recs (sh, ts) = (sh', ts')"
  shows "shared_ok sh' \<and> same_config sh sh' \<and> recs_ok (sh_settings sh) ts'"
  using assms
proof (induction recs arbitrary: sh ts)
  case (Cons rec recs)
  obtain sh1 ts1 where one: "apply_one rec (sh, ts) = (sh1, ts1)" by fastforce
  note ok = apply_one_ok[OF Cons.prems(1,2) one]
  have "sh_settings sh1 = sh_settings sh" using ok(2) by (simp add: same_config_def)
  with Cons.IH[of sh1 ts1] ok one Cons.prems(3) show ?case
    by (auto intro: same_config_trans)
qed simp

lemma apply_all_ok:
  assumes "shared_ok sh" "apply_all recs sh = (sh', ts')"
  shows "shared_ok sh'" "same_config sh sh'" "recs_ok (sh_settings sh) ts'"
  using apply_fold_ok[of sh "[]" recs sh' ts'] assms by (simp_all add: apply_all_def recs_ok_def)

lemma length_rename_names: "rename_names rs names ch = (names', ch') \<Longrightarrow> length names' = length names"
  by (induction rs names ch rule: rename_names.induct) (auto simp: Let_def split: if_splits)

lemma rename_rx_ok:
  assumes "shared_ok sh"
  shows "shared_ok (rename_rx recs sh)" "same_config sh (rename_rx recs sh)"
proof -
  obtain names ch where r: "rename_names recs (sh_rx_names sh) [] = (names, ch)" by fastforce
  have "same_core sh (rename_rx recs sh)"
    using length_rename_names[OF r] by (simp add: rename_rx_def r same_core_def Let_def)
  then show "shared_ok (rename_rx recs sh)" "same_config sh (rename_rx recs sh)"
    using same_core_ok[OF _ assms] by (simp_all add: same_core_def same_config_def)
qed

section \<open>Tasks keep it\<close>

lemma encode_request_flow_ok: "\<exists>pkt. encode_request_flow sq rate bits fpp ids host fname port ip = Ret pkt"
  using encode_request_flow_layout[OF refl] by blast

lemma check_reply_ok: "\<exists>r. check_reply sq reply = Ret r"
proof (cases reply)
  case (Some buf)
  obtain d where "rr_decode (take 1500 buf) = Ret d" using rr_decode_no_panic by (auto simp: not_Panic_iff)
  then show ?thesis
    by (cases d) (auto simp: check_reply_def Some parse_handle_eq)
qed (simp add: check_reply_def)

lemma config_simps [simp]:
  "sh_settings (set_status i st sh) = sh_settings sh" "sh_identity (set_status i st sh) = sh_identity sh"
  "sh_settings (mark_flow_receiving f sh) = sh_settings sh" "sh_identity (mark_flow_receiving f sh) = sh_identity sh"
  by (simp_all add: set_status_def set_sub_def mark_flow_receiving_def)

lemma same_config_simps [simp]:
  "same_config sh (set_status i st sh)" "same_config sh (mark_flow_receiving f sh)"
  "same_config sh (set_sub i x sh)" "same_config sh (fst (media_send c sh))"
  by (simp_all add: same_config_def set_status_def set_sub_def mark_flow_receiving_def)

lemma set_status_ok: "shared_ok sh \<Longrightarrow> shared_ok (set_status i st sh)"
  by (rule same_core_ok[OF set_status_core])

lemma unseen_fields_ok:
  "shared_ok sh \<Longrightarrow> shared_ok (sh\<lparr>sh_next_flow_id := a, sh_flows_seq := b\<rparr>)"
  "shared_ok sh \<Longrightarrow> shared_ok (sh\<lparr>sh_next_flow_id := a, sh_flows_seq := b, sh_sent := c\<rparr>)"
  "shared_ok sh \<Longrightarrow> shared_ok (sh\<lparr>sh_overlay := clk\<rparr>)"
  "shared_ok sh \<Longrightarrow> shared_ok (sh\<lparr>sh_sent := c\<rparr>)"
  "shared_ok sh \<Longrightarrow> shared_ok (sh\<lparr>sh_wakeups := w\<rparr>)"
  "shared_ok sh \<Longrightarrow> shared_ok (sh\<lparr>sh_info_tx := q\<rparr>)"
  by (simp_all add: shared_ok_def Let_def)

lemma relabel_ok:
  assumes "shared_ok sh"
  shows "shared_ok (if i < length (sh_subs sh)
    then set_sub i ((sh_subs sh ! i)\<lparr>sub_flow_id := f, sub_status := st\<rparr>) sh else sh)"
proof -
  have "same_core sh (if i < length (sh_subs sh)
      then set_sub i ((sh_subs sh ! i)\<lparr>sub_flow_id := f, sub_status := st\<rparr>) sh else sh)"
    by (simp add: same_core_def set_sub_def map_subscribed_update subscribed_def)
  then show ?thesis using assms by (rule same_core_ok)
qed

lemma push_flow_ok: "shared_ok sh \<Longrightarrow> channels_ok (sh_settings sh) f \<Longrightarrow> shared_ok (sh\<lparr>sh_rx_flows := sh_rx_flows sh @ [f]\<rparr>)"
  by (simp add: shared_ok_def Let_def)

lemma establish_step_ok:
  assumes "shared_ok sh" "task_ok (sh_settings sh) tk"
  shows "\<exists>sh' tk'. establish_step ou sh tk = Ret (sh', tk') \<and> shared_ok sh' \<and> same_config sh sh' \<and>
    tk_rec tk' = tk_rec tk"
proof (cases "sr_tx_channel (tk_rec tk) = None \<or> sr_tx_host (tk_rec tk) = None")
  case True
  then have "establish_step ou sh tk = Ret (sh, tk\<lparr>tk_phase := Finished\<rparr>)"
    by (auto simp: establish_step_def Let_def split: option.splits)
  then show ?thesis using assms(1) by simp
next
  case False
  then obtain ch host where ch: "sr_tx_channel (tk_rec tk) = Some ch" "sr_tx_host (tk_rec tk) = Some host" by auto
  define i where "i = unat (sr_local_id (tk_rec tk)) - 1"
  have id: "sr_local_id (tk_rec tk) \<noteq> 0" "i < unat (st_rx_channels (sh_settings sh))"
    using assms(2) by (auto simp: task_ok_def i_def)
  note step = establish_step_def ch id(1) Let_def
  note ok = assms(1) set_status_ok[OF assms(1)] unseen_fields_ok[OF assms(1)]
  show ?thesis
  proof (cases "tk_phase tk")
    case Resolving
    then show ?thesis using ok(1) by (auto simp: step split: option.split)
  next
    case Querying
    then show ?thesis using ok(1) by (simp add: step)
  next
    case (Resolved res)
    then show ?thesis using ok(2) by (cases res) (simp_all add: step)
  next
    case (Binding r)
    then show ?thesis using ok(1,2) by (auto simp: step split: sum.split)
  next
    case (Numbering r port)
    define sh1 where "sh1 = sh\<lparr>sh_next_flow_id := sh_next_flow_id sh + 1, sh_flows_seq := sh_flows_seq sh + 1\<rparr>"
    have sh1: "shared_ok sh1" "same_config sh sh1"
      using ok(3) by (simp_all add: sh1_def same_config_def)
    then have "shared_ok (set_status i STATUS_UNRESOLVED sh1)" "shared_ok (sh1\<lparr>sh_sent := l\<rparr>)"
      "same_config sh (set_status i STATUS_UNRESOLVED sh1)" "same_config sh (sh1\<lparr>sh_sent := l\<rparr>)" for l
      by (auto intro: set_status_ok unseen_fields_ok same_config_trans simp: same_config_def)
    moreover obtain pkt where "encode_request_flow (sh_flows_seq sh) (st_sample_rate (sh_settings sh))
        (ucast (bits_of (st_bits (sh_settings sh))))
        (choose_fpp (st_sample_rate (sh_settings sh)) (st_rx_latency (sh_settings sh)) 1
          (bytes_of (st_bits (sh_settings sh))) (rt_fpp_max r) (rt_fpp_min r))
        [rt_tx_channel_id r] (id_friendly (sh_identity sh)) (show_dec (unat (sh_next_flow_id sh))) port
        (octets (id_ip (sh_identity sh))) = Ret pkt"
      using encode_request_flow_ok by blast
    ultimately show ?thesis
      using Numbering unfolding sh1_def by (cases "ou_querier ou") (simp_all add: step i_def)
  next
    case (Requesting r port fid sq)
    obtain res where "check_reply sq (ou_reply ou) = Ret res" using check_reply_ok by blast
    then show ?thesis using Requesting ok(1,2) by (cases res) (simp_all add: step)
  next
    case (Granted r port fid hnd)
    have "channels_ok (sh_settings sh) f" if "fi_channels f = [sr_local_id (tk_rec tk)]" for f
      using that assms(2) by (simp add: channels_ok_def task_ok_def)
    then show ?thesis
      using Granted push_flow_ok[OF assms(1)] by (simp add: step same_config_def)
  next
    case (Linking port fid)
    then show ?thesis using relabel_ok[OF assms(1), of i STATUS_ESTABLISHING "Some fid"]
      by (simp add: step same_config_def set_sub_def i_def split: if_splits)
  next
    case (Handing port fid)
    define c where "c = AddFlow fid port [Some i] 1 (bytes_of (st_bits (sh_settings sh))) (st_sample_rate (sh_settings sh))"
    have "command_ok (sh_settings sh) c" using id(2) by (auto simp: c_def flow_ok_def)
    then have "shared_ok (fst (media_send c sh))" by (rule media_send_ok[OF assms(1)])
    then show ?thesis
      using Handing ok(1,2)
      by (auto simp: step media_send_def same_config_def c_def i_def set_status_def set_sub_def split: if_splits)
  qed (use ok(1) in \<open>simp_all add: step\<close>)
qed

section \<open>The media thread keeps it\<close>

lemma with_ring_ok:
  "shared_ok sh \<Longrightarrow> ring_ok r \<Longrightarrow> ring_nchan r = ring_nchan (sh_ring sh) \<Longrightarrow> patched r = patched (sh_ring sh) \<Longrightarrow>
   shared_ok (sh\<lparr>sh_ring := r\<rparr>)"
  by (simp add: shared_ok_def Let_def)

lemma wake_ok: "shared_ok sh \<Longrightarrow> shared_ok (wake sh)" "same_config sh (wake sh)"
  by (simp_all add: wake_def unseen_fields_ok same_config_def)

lemma samples_length:
  assumes "length bs \<le> 2048" "bps \<noteq> 0"
  shows "length bs div (1 * bps) * 1 < 2 ^ 64"
proof -
  have "length bs div bps \<le> 2048" using assms(1) div_le_dividend order_trans by blast
  then show ?thesis by simp
qed

text \<open>A packet of a flow the device made: it is handled whatever its bytes.\<close>

lemma media_packet_ok:
  assumes "shared_ok sh" "flow_ok (sh_settings sh) (mf_map f) (mf_nchan f) (mf_bytes f) (mf_rate f)"
  shows "\<exists>sh' f'. media_packet (sh, f) ar = Ret (sh', f') \<and> shared_ok sh' \<and> same_config sh sh' \<and>
    mf_id f' = mf_id f \<and> mf_map f' = mf_map f \<and> mf_nchan f' = mf_nchan f \<and> mf_bytes f' = mf_bytes f \<and>
    mf_rate f' = mf_rate f"
proof -
  define buf where "buf = take 2048 (ar_bytes ar)"
  define f1 where "f1 = f\<lparr>mf_last_source := Some (ar_src ar)\<rparr>"
  have f1: "mf_id f1 = mf_id f" "mf_map f1 = mf_map f" "mf_nchan f1 = mf_nchan f" "mf_bytes f1 = mf_bytes f"
    "mf_rate f1 = mf_rate f" "mf_saw_packet f1 = mf_saw_packet f" by (simp_all add: f1_def)
  show ?thesis
  proof (cases "buf = [0x13, 0x37] \<or> length buf < 9")
    case True
    then have "media_packet (sh, f) ar = Ret (sh, f1)"
      by (auto simp: media_packet_def Let_def media_decode_eq simp flip: buf_def f1_def)
    then show ?thesis using assms(1) f1 by simp
  next
    case False
    define hdr where "hdr = \<lparr>m_seconds = from_be32 (buf ! 1) (buf ! 2) (buf ! 3) (buf ! 4),
      m_index = from_be32 (buf ! 5) (buf ! 6) (buf ! 7) (buf ! 8)\<rparr>"
    from assms(2) have fl: "mf_rate f \<noteq> 0" "mf_nchan f = 1" "length (mf_map f) = 1" "mf_bytes f \<noteq> 0"
      using shared_okD(2)[OF assms(1)] by (auto simp: flow_ok_def) (cases "st_bits (sh_settings sh)"; simp)
    obtain t1 where t1: "t1_ns hdr (mf_rate f) = Ret t1" using fl(1) by (simp add: t1_ns_def)
    obtain xs where xs: "promote_interleaved (drop 9 buf) 1 (mf_bytes f) = Ret xs"
      "length xs = length (drop 9 buf) div (1 * mf_bytes f) * 1"
      by (simp add: promote_interleaved_eq)
    have "length (drop 9 buf) \<le> 2048" by (simp add: buf_def)
    from samples_length[OF this fl(4)] have len: "length xs < 2 ^ 64" by (simp only: xs(2))
    define clk where "clk = observe t1 (ar_t2 ar) Media (sh_overlay sh)"
    define pos where "pos = ns_to_samples (now_ns clk (ar_now_ns ar)) (st_sample_rate (sh_settings sh)) -
      latency_samples (st_rx_latency (sh_settings sh)) (st_sample_rate (sh_settings sh))"
    obtain r where r: "write_packet (ar_instant ar) (sample_index hdr (mf_rate f)) pos (mf_map f) xs 1 (sh_ring sh) = Ret r"
      "ring_ok r" "same_frame ((sh_ring sh)\<lparr>last_packet := Some (ar_instant ar)\<rparr>) r"
      using write_packet_spec[OF shared_okD(3)[OF assms(1)], of "mf_map f" 1 xs "ar_instant ar"
        "sample_index hdr (mf_rate f)" pos] fl(3) len by auto
    define sh1 where "sh1 = sh\<lparr>sh_overlay := clk, sh_ring := r\<rparr>"
    have sh1: "shared_ok sh1" "same_config sh sh1"
      using with_ring_ok[OF unseen_fields_ok(3)[OF assms(1)] r(2), of clk] same_frameD[OF r(3)]
      by (simp_all add: sh1_def same_config_def)
    define st where "st = (if \<not> mf_saw_packet f then (mark_flow_receiving (mf_id f) sh1, f1\<lparr>mf_saw_packet := True\<rparr>)
      else (sh1, f1))"
    have "media_packet (sh, f) ar = Ret (wake (fst st), snd st)"
      using False t1 xs(1) r(1)
      by (simp add: media_packet_def Let_def media_decode_eq f1 fl(2) clk_def pos_def sh1_def st_def hdr_def
          flip: buf_def f1_def)
    moreover have "shared_ok (fst st)" "same_config sh (fst st)"
      using sh1 same_core_ok[OF mark_flow_receiving_core sh1(1)] by (simp_all add: st_def same_config_def)
    ultimately show ?thesis
      using wake_ok[of "fst st"] f1 by (auto simp: st_def intro: same_config_trans)
  qed
qed

abbreviation fits :: "settings \<Rightarrow> media_flow \<Rightarrow> bool" where
  "fits s f \<equiv> flow_ok s (mf_map f) (mf_nchan f) (mf_bytes f) (mf_rate f)"

text \<open>The packets of one socket, handled by a flow that was \<open>f\<close> in a device that was \<open>sh\<close>.\<close>

definition packets_ok :: "shared \<Rightarrow> media_flow \<Rightarrow> shared \<times> media_flow \<Rightarrow> bool" where
  "packets_ok sh f = (\<lambda>(sh1, f1). shared_ok sh1 \<and> same_config sh sh1 \<and> mf_id f1 = mf_id f \<and> fits (sh_settings sh) f1)"

interpretation packets: fallible_machine media_packet "\<lambda>_. True" "packets_ok sh f" for sh f
proof
  fix st ar
  assume I: "packets_ok sh f st"
  obtain sh1 f1 where st: "st = (sh1, f1)" by (cases st)
  with I have h: "shared_ok sh1" "same_config sh sh1" "mf_id f1 = mf_id f" "fits (sh_settings sh1) f1"
    by (simp_all add: packets_ok_def same_config_def)
  obtain sh2 f2 where "media_packet (sh1, f1) ar = Ret (sh2, f2)" "shared_ok sh2" "same_config sh1 sh2"
    "mf_id f2 = mf_id f1" "mf_map f2 = mf_map f1" "mf_nchan f2 = mf_nchan f1" "mf_bytes f2 = mf_bytes f1"
    "mf_rate f2 = mf_rate f1"
    using media_packet_ok[OF h(1,4)] by blast
  with h I show "\<exists>st'. media_packet st ar = Ret st' \<and> packets_ok sh f st'"
    unfolding st by (auto simp: packets_ok_def same_config_def)
qed

lemma media_packets_ok:
  assumes "shared_ok sh" "fits (sh_settings sh) f"
  shows "\<exists>sh' f'. ofold media_packet (sh, f) ars = Ret (sh', f') \<and> shared_ok sh' \<and> same_config sh sh' \<and>
    mf_id f' = mf_id f \<and> fits (sh_settings sh) f'"
  using packets.run_total[of sh f "(sh, f)" ars] assms by (auto simp: packets_ok_def list_all_iff)

lemma media_keepalive_ok:
  assumes "media_keepalive now sh f = (sh', f')" "shared_ok sh"
  shows "shared_ok sh'" "same_config sh sh'" "mf_id f' = mf_id f" "fits s f' = fits s f"
  using assms
  by (auto simp: media_keepalive_def unseen_fields_ok same_config_def split: if_splits option.splits)

lemma flow_turn_ok:
  assumes "shared_ok sh" "flows_ok (sh_settings sh) flows"
  shows "\<exists>sh' flows'. flow_turn now socks (sh, flows) i = Ret (sh', flows') \<and> shared_ok sh' \<and>
    same_config sh sh' \<and> flows_ok (sh_settings sh) flows'"
proof (cases "flows i")
  case (Some f)
  then have f: "mf_id f = i" "fits (sh_settings sh) f" using assms(2) by (auto simp: flows_ok_def)
  obtain sh1 f1 where one: "ofold media_packet (sh, f) (socks (mf_sock f)) = Ret (sh1, f1)" "shared_ok sh1"
    "same_config sh sh1" "mf_id f1 = mf_id f" "fits (sh_settings sh) f1"
    using media_packets_ok[OF assms(1) f(2)] by blast
  obtain sh2 f2 where two: "media_keepalive now sh1 f1 = (sh2, f2)" by fastforce
  note k = media_keepalive_ok[OF two one(2)]
  have "flow_turn now socks (sh, flows) i = Ret (sh2, flows(i \<mapsto> f2))"
    by (simp add: flow_turn_def Some one(1) two)
  moreover have "flows_ok (sh_settings sh) (flows(i \<mapsto> f2))"
    using assms(2) k(3,4) one(4,5) f(1) by (auto simp: flows_ok_def)
  ultimately show ?thesis using k(1,2) one(3) by (auto intro: same_config_trans)
qed (use assms in \<open>auto simp: flow_turn_def\<close>)

lemma pop_command_ok:
  "shared_ok sh \<Longrightarrow> sh_media_tx sh = c # q \<Longrightarrow> shared_ok (sh\<lparr>sh_media_tx := q\<rparr>) \<and> command_ok (sh_settings sh) c"
  by (simp add: shared_ok_def Let_def)

lemma media_command_ok:
  assumes "shared_ok sh" "flows_ok (sh_settings sh) flows"
    and "media_command_step now addr (sh, flows) = Some (sh', flows')"
  shows "shared_ok sh'" "same_config sh sh'" "flows_ok (sh_settings sh) flows'"
proof -
  have "shared_ok sh' \<and> same_config sh sh' \<and> flows_ok (sh_settings sh) flows'"
  proof (cases "sh_media_tx sh")
    case Nil
    then show ?thesis using assms by (auto simp: media_command_step_def split: if_splits)
  next
    case (Cons c q)
    define sh1 where "sh1 = sh\<lparr>sh_media_tx := q\<rparr>"
    have sh1: "shared_ok sh1" "command_ok (sh_settings sh) c" "sh_settings sh1 = sh_settings sh"
      "sh_identity sh1 = sh_identity sh"
      using pop_command_ok[OF assms(1) Cons] by (simp_all add: sh1_def)
    show ?thesis
    proof (cases c)
      case (AddFlow i sock chmap nchan bps rate)
      define sh2 where "sh2 = (case addr sock of Some p \<Rightarrow> sh1\<lparr>sh_ring := note_port p (sh_ring sh1)\<rparr> | None \<Rightarrow> sh1)"
      have "shared_ok sh2"
        using sh1(1) with_ring_ok[OF sh1(1)] note_port_ok shared_okD(3)[OF sh1(1)]
        by (auto simp: sh2_def split: option.split)
      moreover have "same_config sh sh2"
        using sh1 by (auto simp: sh2_def same_config_def split: option.split)
      moreover have "sh' = sh2" "flows_ok (sh_settings sh) flows'"
        using assms(2,3) Cons AddFlow sh1(2)
        by (cases "addr sock"; auto simp: media_command_step_def Let_def sh2_def sh1_def flows_ok_def split: if_splits)+
      ultimately show ?thesis by simp
    next
      case (RemoveFlow i)
      then have "sh' = sh1" "flows' = flows(i := None)"
        using assms(3) Cons by (auto simp: media_command_step_def Let_def simp flip: sh1_def split: if_splits)
      then show ?thesis using sh1 assms(2) by (auto simp: flows_ok_def same_config_def)
    qed (use assms(3) Cons in \<open>auto simp: media_command_step_def split: if_splits\<close>)
  qed
  then show "shared_ok sh'" "same_config sh sh'" "flows_ok (sh_settings sh) flows'" by simp_all
qed

lemma media_turn_ok:
  assumes "shared_ok sh" "flows_ok (sh_settings sh) flows"
  shows "\<exists>res. media_turn tn (sh, flows) = Ret res \<and> (case res of None \<Rightarrow> True
    | Some (sh', flows') \<Rightarrow> shared_ok sh' \<and> same_config sh sh' \<and> flows_ok (sh_settings sh) flows')"
proof (cases "media_command_step (tn_recv tn) (tn_addr tn) (sh, flows)")
  case None
  then show ?thesis by (simp add: media_turn_def)
next
  case (Some st)
  obtain sh1 fl1 where st: "st = (sh1, fl1)" by (cases st)
  note one = media_command_ok[OF assms Some[unfolded st]]
  let ?I = "\<lambda>(sh2, fl2). shared_ok sh2 \<and> same_config sh sh2 \<and> flows_ok (sh_settings sh) fl2"
  have "\<exists>st'. ofold (flow_turn (tn_now tn) (tn_socks tn)) (sh1, fl1) (tn_order tn) = Ret st' \<and> ?I st'"
  proof (rule ofold_invariant)
    fix st i
    assume I: "?I st"
    obtain sh2 fl2 where st: "st = (sh2, fl2)" by (cases st)
    with I have h: "shared_ok sh2" "same_config sh sh2" "flows_ok (sh_settings sh2) fl2"
      by (simp_all add: same_config_def)
    with flow_turn_ok[OF h(1,3), of "tn_now tn" "tn_socks tn" i]
    show "\<exists>st'. flow_turn (tn_now tn) (tn_socks tn) st i = Ret st' \<and> ?I st'"
      unfolding st by (auto simp: same_config_def)
  qed (use one in simp)
  then obtain sh2 fl2 where "ofold (flow_turn (tn_now tn) (tn_socks tn)) (sh1, fl1) (tn_order tn) = Ret (sh2, fl2)"
    "shared_ok sh2" "same_config sh sh2" "flows_ok (sh_settings sh) fl2" by auto
  then show ?thesis
    using Some unseen_fields_ok(3) by (auto simp: media_turn_def st same_config_def)
qed

section \<open>Every event keeps it\<close>

lemma arc_handle_ok:
  assumes "shared_ok sh"
  shows "\<exists>r sh' recs. arc_handle sh p = Ret (r, sh', recs) \<and> shared_ok sh' \<and> same_config sh sh' \<and>
    recs_ok (sh_settings sh) recs"
proof -
  obtain d where d: "rr_decode p = Ret d" using rr_decode_no_panic by (auto simp: not_Panic_iff)
  show ?thesis
  proof (cases d)
    case None
    then show ?thesis using d assms by (simp add: arc_handle_def recs_ok_def)
  next
    case (Some hc)
    obtain hdr content where hc: "hc = (hdr, content)" by (cases hc)
    obtain reply where reply: "arc_handle sh p = Ret (reply, arc_change p hdr content sh)"
      using arc_handle_eq[of p hdr content sh] d Some hc by auto
    obtain sh' recs where ch: "arc_change p hdr content sh = (sh', recs)" by fastforce
    have all: "apply_all rs sh = (sh', recs) \<Longrightarrow> shared_ok sh' \<and> same_config sh sh' \<and> recs_ok (sh_settings sh) recs" for rs
      using apply_all_ok[OF assms] by blast
    have "shared_ok sh' \<and> same_config sh sh' \<and> recs_ok (sh_settings sh) recs"
      using ch all rename_rx_ok[OF assms] assms
      unfolding arc_change_def unsubscribe_one_def
      by (auto simp: recs_ok_def split: if_splits option.splits)
    with reply ch show ?thesis by auto
  qed
qed

lemma arc_turn_ok:
  assumes "shared_ok sh"
  shows "\<exists>sh' recs out. arc_turn rc sh = Ret (sh', recs, out) \<and> shared_ok sh' \<and> same_config sh sh' \<and>
    recs_ok (sh_settings sh) recs"
proof (cases rc)
  case (Packet buf src)
  obtain r sh' recs where "arc_handle sh (take 2048 buf) = Ret (r, sh', recs)" "shared_ok sh'" "same_config sh sh'"
    "recs_ok (sh_settings sh) recs" using arc_handle_ok[OF assms] by blast
  then show ?thesis by (simp add: Packet)
qed (use assms in \<open>simp add: recs_ok_def\<close>)

lemma try_read_ok:
  assumes "shared_ok sh"
  shows "\<exists>sh' dst' res. try_read lcl now dst sh = Ret (sh', dst', res) \<and> shared_ok sh' \<and> same_config sh sh'"
proof -
  note d = shared_okD[OF assms]
  let ?rate = "st_sample_rate (sh_settings sh)" and ?n = "unat (st_rx_channels (sh_settings sh))"
  define due where "due = ns_to_samples (now_ns (sh_overlay sh) lcl) ?rate"
  define pos where "pos = due - latency_samples (st_rx_latency (sh_settings sh)) ?rate"
  define k where "k = length (af_samples dst) div ?n"
  obtain r samples frames first where r: "ring_read now pos ?n k (af_samples dst) (sh_ring sh) = Ret (r, samples, frames, first)"
    "ring_ok r"
    using ring_read_no_panic[OF d(3), of now pos ?n k "af_samples dst"] by auto
  have "shared_ok (sh\<lparr>sh_ring := r\<rparr>)"
    using with_ring_ok[OF assms r(2)] ring_read_frame[OF r(1)] by simp
  moreover obtain t where "samples_to_ns first ?rate = Ret t" using d(2) by (simp add: samples_to_ns_def)
  ultimately show ?thesis
    using assms d(1) r(1)
    by (auto simp: try_read_def Let_def same_config_def simp flip: due_def pos_def k_def)
qed

lemma tasks_ok_same: "same_config sh sh' \<Longrightarrow> list_all (task_ok (sh_settings sh')) ts = list_all (task_ok (sh_settings sh)) ts"
  by (simp add: same_config_def)

lemma device_step_ok:
  assumes "device_ok d"
  shows "\<exists>d'. device_step d ev = Ret d' \<and> device_ok d' \<and> same_config (dv_shared d) (dv_shared d')"
proof -
  have sh: "shared_ok (dv_shared d)" and ts: "list_all (task_ok (sh_settings (dv_shared d))) (dv_tasks d)"
    and fl: "flows_ok (sh_settings (dv_shared d)) (dv_flows d)"
    using assms by (simp_all add: device_ok_def)
  have upd: "device_ok (d\<lparr>dv_shared := sh'\<rparr>)" if "shared_ok sh'" "same_config (dv_shared d) sh'" for sh'
    using that ts fl by (simp add: device_ok_def same_config_def)
  show ?thesis
  proof (cases ev)
    case (ArcTurn rc)
    obtain sh' recs out where h: "arc_turn rc (dv_shared d) = Ret (sh', recs, out)" "shared_ok sh'"
      "same_config (dv_shared d) sh'" "recs_ok (sh_settings (dv_shared d)) recs"
      using arc_turn_ok[OF sh] by blast
    then have "list_all (task_ok (sh_settings (dv_shared d))) (map spawn recs)"
      by (auto simp: list_all_iff recs_ok_def task_ok_def spawn_def)
    then show ?thesis
      using h ts fl by (simp add: ArcTurn device_step_def device_ok_def same_config_def)
  next
    case (CmcTurn rc)
    obtain out where "cmc_turn rc (dv_shared d) = Ret out" using cmc_turn_ok by blast
    then show ?thesis using assms by (simp add: CmcTurn device_step_def device_ok_def)
  next
    case InfoStart
    obtain out where "info_start (dv_shared d) = Ret (out, 3)" using info_start_ok by blast
    then show ?thesis using assms by (simp add: InfoStart device_step_def device_ok_def)
  next
    case (InfoTurn i)
    obtain sh' out sq q where "dv_info d = None \<or>
        info_step i (dv_shared d) (the (dv_info d)) = Ret (sh', out, sq) \<and> sh' = (dv_shared d)\<lparr>sh_info_tx := q\<rparr>"
      using info_step_ok by blast
    then show ?thesis
      using unseen_fields_ok(6)[OF sh] ts fl assms
      by (auto simp: InfoTurn device_step_def device_ok_def same_config_def split: option.split)
  next
    case (MdnsStart k now)
    obtain out where "mdns_prologue (dv_shared d) k = Ret (out, 5 \<le> k)" using mdns_prologue_ok by blast
    then show ?thesis using assms by (simp add: MdnsStart device_step_def device_ok_def)
  next
    case (MdnsTurn i)
    show ?thesis
    proof (cases "dv_mdns d")
      case (Announcing t)
      obtain r where "mdns_turn i (dv_shared d) t = Ret r" using mdns_turn_ok by blast
      then show ?thesis
        using assms by (cases r) (auto simp: MdnsTurn Announcing device_step_def device_ok_def)
    qed (use assms in \<open>simp_all add: MdnsTurn device_step_def\<close>)
  next
    case (TaskStep k ou)
    show ?thesis
    proof (cases "k < length (dv_tasks d)")
      case True
      then have "task_ok (sh_settings (dv_shared d)) (dv_tasks d ! k)" using ts by (simp add: list_all_length)
      then obtain sh' tk' where h: "establish_step ou (dv_shared d) (dv_tasks d ! k) = Ret (sh', tk')" "shared_ok sh'"
        "same_config (dv_shared d) sh'" "tk_rec tk' = tk_rec (dv_tasks d ! k)"
        using establish_step_ok[OF sh] by blast
      then have "list_all (task_ok (sh_settings (dv_shared d))) ((dv_tasks d)[k := tk'])"
        using ts True by (simp add: list_all_length nth_list_update task_ok_def)
      then show ?thesis
        using h fl True by (simp add: TaskStep device_step_def device_ok_def same_config_def)
    qed (use assms in \<open>simp add: TaskStep device_step_def\<close>)
  next
    case (MediaTurn tn)
    show ?thesis
    proof (cases "dv_media d")
      case True
      obtain res where h: "media_turn tn (dv_shared d, dv_flows d) = Ret res"
        "case res of None \<Rightarrow> True | Some (sh', flows') \<Rightarrow> shared_ok sh' \<and> same_config (dv_shared d) sh' \<and>
          flows_ok (sh_settings (dv_shared d)) flows'"
        using media_turn_ok[OF sh fl] by blast
      have "shared_ok ((dv_shared d)\<lparr>sh_media_open := False, sh_media_tx := []\<rparr>)"
        using sh by (simp add: shared_ok_def Let_def)
      then show ?thesis
        using h ts True
        by (cases res) (auto simp: MediaTurn device_step_def device_ok_def flows_ok_def same_config_def)
    qed (use assms in \<open>simp add: MediaTurn device_step_def\<close>)
  next
    case (PtpPacket m)
    obtain clk p where "ptp_step (st_ptp_subdomain (sh_settings (dv_shared d)))
        (sh_overlay (dv_shared d), dv_pending d) m = Ret (clk, p)"
      using ptp_step_ok by blast
    then show ?thesis
      using unseen_fields_ok(3)[OF sh] ts fl
      by (simp add: PtpPacket device_step_def device_ok_def same_config_def)
  next
    case (AppRead lcl now dst)
    obtain sh' dst' res where "try_read lcl now dst (dv_shared d) = Ret (sh', dst', res)" "shared_ok sh'"
      "same_config (dv_shared d) sh'" using try_read_ok[OF sh] by blast
    then show ?thesis using upd by (simp add: AppRead device_step_def)
  next
    case AppWakeup
    have "shared_ok (set_rx_wakeup (dv_shared d))" using sh by (simp add: set_rx_wakeup_def shared_ok_def Let_def)
    then show ?thesis using upd by (simp add: AppWakeup device_step_def set_rx_wakeup_def same_config_def)
  next
    case (AppOverride ip port)
    have "shared_ok (set_subscribe_override ip port (dv_shared d))"
      using sh by (simp add: set_subscribe_override_def shared_ok_def Let_def)
    then show ?thesis using upd by (simp add: AppOverride device_step_def set_subscribe_override_def same_config_def)
  next
    case AppStop
    have "shared_ok ((dv_shared d)\<lparr>sh_stopped := True\<rparr>)" using sh by (simp add: shared_ok_def Let_def)
    then have "shared_ok (signal_stop (dv_shared d))" unfolding signal_stop_def by (rule media_send_ok) simp
    then show ?thesis using upd by (simp add: AppStop device_step_def signal_stop_def same_config_def)
  qed
qed

section \<open>A started device\<close>

lemma length_rx_names_of: "validate s = Inr u \<Longrightarrow> length (rx_names_of s) = unat (st_rx_channels s)"
  using validate_Inr(8) by (auto simp: rx_names_of_def split: option.split)

lemma start_shared_ok:
  assumes "start_shared os_pid ifaces s = Ret (Inr sh)"
  shows "shared_ok sh" "sh_settings sh = s" "sh_subs sh = replicate (unat (st_rx_channels s)) rx_sub_default"
    "validate s = Inr ()" "\<not> sh_stopped sh" "sh_media_tx sh = []"
proof -
  obtain u where v: "validate s = Inr u"
    using assms by (cases "validate s") (simp_all add: start_shared_def)
  obtain iface where i: "resolve ifaces (st_bind s) = Inr iface"
    using assms v by (cases "resolve ifaces (st_bind s)") (simp_all add: start_shared_def)
  obtain pa pc pf pi where ports: "device_ports (st_alt_port s) = (pa, pc, pf, pi)"
    by (cases "device_ports (st_alt_port s)") auto
  obtain idn lat where sh: "sh = \<lparr>sh_identity = idn, sh_settings = s, sh_overlay = clock_new,
      sh_ring = ring_new (unat (st_rx_channels s)) lat,
      sh_wakeup = False, sh_wakeups = 0, sh_rx_names = rx_names_of s,
      sh_subs = replicate (unat (st_rx_channels s)) rx_sub_default,
      sh_rx_flows = [], sh_stopped = False, sh_media_tx = [], sh_media_open = True,
      sh_next_flow_id = 1, sh_flows_seq = 1, sh_override = None, sh_info_tx = [], sh_sent = []\<rparr>"
    using assms v i by (auto simp: start_shared_def Let_def obind_eq_Ret_iff ports)
  have "patched (ring_new n lat) = map subscribed (replicate n rx_sub_default)" "ring_nchan (ring_new n lat) = n" for n
    by (simp_all add: ring_new_def Let_def subscribed_def rx_sub_default_def)
  then show "shared_ok sh"
    using validate_Inr(2)[OF v] sample_rate_bounds(1)[OF v] length_rx_names_of[OF v]
    by (auto simp: sh shared_ok_def Let_def config_ok_def ring_new_ok)
  show "sh_settings sh = s" "sh_subs sh = replicate (unat (st_rx_channels s)) rx_sub_default" by (simp_all add: sh)
  show "validate s = Inr ()" "\<not> sh_stopped sh" "sh_media_tx sh = []" using v by (simp_all add: sh)
qed

lemma device_new_ok: "shared_ok sh \<Longrightarrow> device_ok (device_new sh)"
  by (simp add: device_new_def device_ok_def flows_ok_def)

text \<open>The whole device, from any of its states on.\<close>

interpretation device: fallible_machine device_step "\<lambda>_. True" "\<lambda>d. device_ok d \<and> same_config sh (dv_shared d)" for sh
proof
  fix d ev
  assume "device_ok d \<and> same_config sh (dv_shared d)"
  then show "\<exists>d'. device_step d ev = Ret d' \<and> device_ok d' \<and> same_config sh (dv_shared d')"
    using device_step_ok[of d ev] by (auto intro: same_config_trans)
qed

lemma device_run_ok:
  assumes "device_ok d"
  shows "\<exists>d'. device_run d evs = Ret d' \<and> device_ok d' \<and> same_config (dv_shared d) (dv_shared d')"
  unfolding device_run_def using assms by (intro device.run_total) (simp_all add: list_all_iff)

lemma device_run_append: "device_run d (xs @ ys) = obind (device_run d xs) (\<lambda>d. device_run d ys)"
  by (simp add: device_run_def ofold_append)

end
