(* ===== verification/Establish.thy ===== *)
theory Establish
  imports Device_Run
begin

text \<open>
  What a subscription does, from the request to the sound: the task ends, what it leaves
  behind when it succeeds, the first packet of its flow, and what goes wrong when a
  subscription changes while its task runs.
\<close>

section \<open>The task ends\<close>

fun rank :: "phase \<Rightarrow> nat" where
  "rank Resolving = 9"
| "rank Querying = 8"
| "rank (Resolved _) = 7"
| "rank (Binding _) = 6"
| "rank (Numbering _ _) = 5"
| "rank (Requesting _ _ _ _) = 4"
| "rank (Granted _ _ _ _) = 3"
| "rank (Linking _ _) = 2"
| "rank (Handing _ _) = 1"
| "rank Failed = 0"
| "rank Finished = 0"

text \<open>The steps of a task, each in whatever state it finds the device.\<close>

definition task_run :: "task \<Rightarrow> (outside \<times> shared) list \<Rightarrow> task outcome" where
  "task_run = ofold (\<lambda>tk (ou, sh). obind (establish_step ou sh tk) (\<lambda>(_, tk). Ret tk))"

lemma establish_step_rank:
  assumes "sr_local_id (tk_rec tk) \<noteq> 0"
  shows "\<exists>sh' tk'. establish_step ou sh tk = Ret (sh', tk') \<and> tk_rec tk' = tk_rec tk \<and>
    rank (tk_phase tk') \<le> rank (tk_phase tk) - 1"
proof (cases "sr_tx_channel (tk_rec tk) = None \<or> sr_tx_host (tk_rec tk) = None")
  case True
  then show ?thesis by (auto simp: establish_step_def Let_def split: option.splits)
next
  case False
  then obtain ch host where ch: "sr_tx_channel (tk_rec tk) = Some ch" "sr_tx_host (tk_rec tk) = Some host" by auto
  note step = establish_step_def ch assms Let_def
  show ?thesis
  proof (cases "tk_phase tk")
    case (Numbering r port)
    obtain pkt where "encode_request_flow (sh_flows_seq sh) (st_sample_rate (sh_settings sh))
        (ucast (bits_of (st_bits (sh_settings sh))))
        (choose_fpp (st_sample_rate (sh_settings sh)) (st_rx_latency (sh_settings sh)) 1
          (bytes_of (st_bits (sh_settings sh))) (rt_fpp_max r) (rt_fpp_min r))
        [rt_tx_channel_id r] (id_friendly (sh_identity sh)) (show_dec (unat (sh_next_flow_id sh))) port
        (octets (id_ip (sh_identity sh))) = Ret pkt"
      using encode_request_flow_ok by blast
    then show ?thesis using Numbering by (cases "ou_querier ou") (simp_all add: step)
  next
    case (Requesting r port fid sq)
    obtain res where "check_reply sq (ou_reply ou) = Ret res" using check_reply_ok by blast
    then show ?thesis using Requesting by (cases res) (simp_all add: step)
  next
    case (Resolved res)
    then show ?thesis by (cases res) (simp_all add: step)
  qed (auto simp: step media_send_def split: option.split sum.split)
qed

lemma task_run_rank:
  assumes "sr_local_id (tk_rec tk) \<noteq> 0"
  shows "\<exists>tk'. task_run tk es = Ret tk' \<and> rank (tk_phase tk') \<le> rank (tk_phase tk) - length es"
  using assms
proof (induction es arbitrary: tk)
  case (Cons e es)
  obtain ou sh where e: "e = (ou, sh)" by (cases e)
  obtain sh' tk1 where one: "establish_step ou sh tk = Ret (sh', tk1)" "tk_rec tk1 = tk_rec tk"
    "rank (tk_phase tk1) \<le> rank (tk_phase tk) - 1"
    using establish_step_rank[OF Cons.prems] by blast
  then obtain tk' where "task_run tk1 es = Ret tk'" "rank (tk_phase tk') \<le> rank (tk_phase tk1) - length es"
    using Cons.IH[of tk1] Cons.prems by auto
  with one show ?case by (auto simp: task_run_def e)
qed (simp add: task_run_def)

lemma rank_0: "rank p = 0 \<longleftrightarrow> p = Failed \<or> p = Finished"
  by (cases p) simp_all

text \<open>
  C17: a task that establishes a flow ends: after nine of its steps it has failed or finished,
  whatever the network answers and whatever the other components do to the device's state
  between them, and none of its steps panics.
\<close>

theorem establish_ends:
  assumes "sr_local_id (tk_rec tk) \<noteq> 0" "9 \<le> length es"
  shows "\<exists>tk'. task_run tk es = Ret tk' \<and> (tk_phase tk' = Failed \<or> tk_phase tk' = Finished)"
proof -
  have "rank (tk_phase tk) \<le> 9" by (cases "tk_phase tk") simp_all
  moreover obtain tk' where "task_run tk es = Ret tk'" "rank (tk_phase tk') \<le> rank (tk_phase tk) - length es"
    using task_run_rank[OF assms(1)] by blast
  ultimately have "rank (tk_phase tk') = 0" using assms(2) by simp
  with \<open>task_run tk es = Ret tk'\<close> show ?thesis by (auto simp: rank_0)
qed

section \<open>A subscription that succeeds\<close>

text \<open>A reply that grants the request of sequence number \<open>sq\<close>, with the handle it carries.\<close>

definition grants :: "u16 \<Rightarrow> bytes \<Rightarrow> bytes option \<Rightarrow> bool" where
  "grants sq reply handle \<longleftrightarrow>
     (\<exists>h c. rr_decode (take 1500 reply) = Ret (Some (h, c)) \<and> h_seqnum h = sq \<and> h_opcode1 h = OP_REQUEST \<and>
        (h_opcode2 h = 0 \<or> h_opcode2 h = 1) \<and> handle = (if 6 \<le> length c then Some (take 6 c) else None))"

lemma check_reply_grants: "grants sq reply handle \<Longrightarrow> check_reply sq (Some reply) = Ret (Inr handle)"
  by (auto simp: grants_def check_reply_def parse_handle_eq ERR_RATE_def ERR_TOO_MANY_def ERR_EXPIRED_def)

definition establish_run :: "outside list \<Rightarrow> shared \<times> task \<Rightarrow> (shared \<times> task) outcome" where
  "establish_run ous st = ofold (\<lambda>(sh, tk) ou. establish_step ou sh tk) st ous"

text \<open>The state a subscription leaves when its task has run by itself.\<close>

definition established :: "subscribe_req \<Rightarrow> resolved_tx \<Rightarrow> u16 \<Rightarrow> bytes \<Rightarrow> bytes option \<Rightarrow> shared \<Rightarrow> shared" where
  "established rec r port pkt handle sh =
     (let st = sh_settings sh; fid = sh_next_flow_id sh; i = unat (sr_local_id rec) - 1 in
      sh\<lparr>sh_subs := (sh_subs sh)[i := (sh_subs sh ! i)\<lparr>sub_flow_id := Some fid, sub_status := STATUS_ESTABLISHING\<rparr>],
         sh_next_flow_id := fid + 1, sh_flows_seq := sh_flows_seq sh + 1,
         sh_sent := sh_sent sh @ [(rt_flows_addr r, pkt)],
         sh_rx_flows := sh_rx_flows sh @
           [\<lparr>fi_flow_id = fid, fi_sample_rate = st_sample_rate st, fi_bits = bits_of (st_bits st),
             fi_channels = [sr_local_id rec], fi_port = port, fi_ip = octets (id_ip (sh_identity sh)),
             fi_latency_ns = of_nat (st_rx_latency st), fi_handle = handle, fi_tx_addr = rt_flows_addr r\<rparr>],
         sh_media_tx := sh_media_tx sh @ [AddFlow fid port [Some i] 1 (bytes_of (st_bits st)) (st_sample_rate st)]\<rparr>)"

text \<open>The request a device sends for a flow.\<close>

definition flow_request :: "shared \<Rightarrow> resolved_tx \<Rightarrow> u16 \<Rightarrow> bytes outcome" where
  "flow_request sh r port =
     encode_request_flow (sh_flows_seq sh) (st_sample_rate (sh_settings sh)) (ucast (bits_of (st_bits (sh_settings sh))))
       (choose_fpp (st_sample_rate (sh_settings sh)) (st_rx_latency (sh_settings sh)) 1
          (bytes_of (st_bits (sh_settings sh))) (rt_fpp_max r) (rt_fpp_min r))
       [rt_tx_channel_id r] (id_friendly (sh_identity sh)) (show_dec (unat (sh_next_flow_id sh))) port
       (octets (id_ip (sh_identity sh)))"

lemma establish_run_simps:
  "establish_run [] st = Ret st"
  "establish_run (ou # ous) (sh, tk) = obind (establish_step ou sh tk) (establish_run ous)"
  by (simp_all add: establish_run_def[abs_def])

text \<open>The state before the media thread gets the flow.\<close>

definition linked :: "subscribe_req \<Rightarrow> resolved_tx \<Rightarrow> u16 \<Rightarrow> bytes \<Rightarrow> bytes option \<Rightarrow> shared \<Rightarrow> shared" where
  "linked rec r port pkt handle sh = (established rec r port pkt handle sh)\<lparr>sh_media_tx := sh_media_tx sh\<rparr>"

lemma linked_run:
  assumes rec: "sr_local_id rec \<noteq> 0" "sr_tx_channel rec = Some ch" "sr_tx_host rec = Some host"
    and i: "unat (sr_local_id rec) - 1 < length (sh_subs sh)"
    and net: "rt_sample_rate r = st_sample_rate (sh_settings sh)" "ou_bind ou = Inr sock" "ou_local ou = Inr port"
      "ou_querier ou = None" "ou_reply ou = Some reply" "grants (sh_flows_seq sh) reply handle"
    and pkt: "flow_request sh r port = Ret pkt"
  shows "establish_run (replicate 6 ou) (sh, \<lparr>tk_rec = rec, tk_phase = Resolved (Inr r)\<rparr>) =
    Ret (linked rec r port pkt handle sh, \<lparr>tk_rec = rec, tk_phase = Handing port (sh_next_flow_id sh)\<rparr>)"
proof -
  define i where "i = unat (sr_local_id rec) - 1"
  define fid where "fid = sh_next_flow_id sh"
  define sq where "sq = sh_flows_seq sh"
  define T where "T p = \<lparr>tk_rec = rec, tk_phase = p\<rparr>" for p
  define s1 where "s1 = set_status i STATUS_ESTABLISHING sh"
  define s3 where "s3 = s1\<lparr>sh_next_flow_id := fid + 1, sh_flows_seq := sq + 1, sh_sent := sh_sent sh @ [(rt_flows_addr r, pkt)]\<rparr>"
  define s5 where "s5 = s3\<lparr>sh_rx_flows := sh_rx_flows sh @
     [\<lparr>fi_flow_id = fid, fi_sample_rate = st_sample_rate (sh_settings sh), fi_bits = bits_of (st_bits (sh_settings sh)),
       fi_channels = [sr_local_id rec], fi_port = port, fi_ip = octets (id_ip (sh_identity sh)),
       fi_latency_ns = of_nat (st_rx_latency (sh_settings sh)), fi_handle = handle, fi_tx_addr = rt_flows_addr r\<rparr>]\<rparr>"
  define s6 where "s6 = set_sub i ((sh_subs s5 ! i)\<lparr>sub_flow_id := Some fid, sub_status := STATUS_ESTABLISHING\<rparr>) s5"
  have same: "sh_settings s1 = sh_settings sh" "sh_identity s1 = sh_identity sh" "sh_next_flow_id s1 = fid"
    "sh_flows_seq s1 = sq" "sh_sent s1 = sh_sent sh" "sh_rx_flows s1 = sh_rx_flows sh" "sh_media_open s1 = sh_media_open sh"
    "sh_media_tx s1 = sh_media_tx sh" "length (sh_subs s1) = length (sh_subs sh)"
    by (simp_all add: s1_def set_status_def set_sub_def fid_def sq_def)
  note step = establish_step_def rec T_def Let_def same
  have "establish_step ou sh (T (Resolved (Inr r))) = Ret (s1, T (Binding r))"
    using net(1) by (simp add: step s1_def i_def)
  moreover have "establish_step ou s1 (T (Binding r)) = Ret (s1, T (Numbering r port))"
    using net by (simp add: step)
  moreover have "establish_step ou s1 (T (Numbering r port)) = Ret (s3, T (Requesting r port fid sq))"
    using net pkt by (simp add: step s3_def flow_request_def fid_def sq_def)
  moreover have "establish_step ou s3 (T (Requesting r port fid sq)) = Ret (s3, T (Granted r port fid handle))"
    using net check_reply_grants[of sq reply handle] by (simp add: step sq_def)
  moreover have "establish_step ou s3 (T (Granted r port fid handle)) = Ret (s5, T (Linking port fid))"
    by (simp add: step s5_def s3_def)
  moreover have "establish_step ou s5 (T (Linking port fid)) = Ret (s6, T (Handing port fid))"
    using i by (simp add: step s6_def s5_def s3_def i_def)
  moreover have "s6 = linked rec r port pkt handle sh"
    using i by (simp add: linked_def established_def Let_def s6_def s5_def s3_def s1_def i_def set_sub_def set_status_def fid_def sq_def)
  ultimately show ?thesis
    by (simp add: eval_nat_numeral establish_run_simps T_def fid_def)
qed

lemma establish_run_append: "establish_run (xs @ ys) st = obind (establish_run xs st) (establish_run ys)"
  by (simp add: establish_run_def[abs_def] ofold_append)

lemma resolved_run:
  assumes rec: "sr_local_id rec \<noteq> 0" "sr_tx_channel rec = Some ch" "sr_tx_host rec = Some host"
    and i: "unat (sr_local_id rec) - 1 < length (sh_subs sh)"
    and net: "rt_sample_rate r = st_sample_rate (sh_settings sh)" "ou_bind ou = Inr sock" "ou_local ou = Inr port"
      "ou_querier ou = None" "ou_reply ou = Some reply" "grants (sh_flows_seq sh) reply handle"
    and pkt: "flow_request sh r port = Ret pkt" and media: "sh_media_open sh"
  shows "establish_run (replicate 7 ou) (sh, \<lparr>tk_rec = rec, tk_phase = Resolved (Inr r)\<rparr>) =
    Ret (established rec r port pkt handle sh, \<lparr>tk_rec = rec, tk_phase = Finished\<rparr>)"
proof -
  have seven: "replicate 7 ou = replicate 6 ou @ [ou]" by (simp add: eval_nat_numeral)
  have "establish_step ou (linked rec r port pkt handle sh) \<lparr>tk_rec = rec, tk_phase = Handing port (sh_next_flow_id sh)\<rparr> =
      Ret (established rec r port pkt handle sh, \<lparr>tk_rec = rec, tk_phase = Finished\<rparr>)"
    using media rec by (simp add: establish_step_def Let_def media_send_def linked_def established_def)
  then show ?thesis
    using linked_run[OF rec i net pkt] by (simp add: seven establish_run_append establish_run_simps)
qed


lemma spawned_run:
  assumes rec: "sr_local_id rec \<noteq> 0" "sr_tx_channel rec = Some ch" "sr_tx_host rec = Some host"
    and i: "unat (sr_local_id rec) - 1 < length (sh_subs sh)" and media: "sh_media_open sh"
    and tx: "resolve_override sh ch = Some r \<or> resolve_override sh ch = None \<and>
      resolve_answers (st_sample_rate (sh_settings sh)) host ch (ou_chan ou) (ou_arc ou) = Inr r"
      "rt_sample_rate r = st_sample_rate (sh_settings sh)"
    and net: "ou_bind ou = Inr sock" "ou_local ou = Inr port" "ou_querier ou = None" "ou_reply ou = Some reply"
      "grants (sh_flows_seq sh) reply handle"
  shows "\<exists>pkt. flow_request sh r port = Ret pkt \<and>
    establish_run (replicate 9 ou) (sh, spawn rec) =
      Ret (established rec r port pkt handle sh, \<lparr>tk_rec = rec, tk_phase = Finished\<rparr>)"
proof -
  obtain pkt where pkt: "flow_request sh r port = Ret pkt"
    unfolding flow_request_def using encode_request_flow_ok by blast
  let ?done = "Ret (established rec r port pkt handle sh, \<lparr>tk_rec = rec, tk_phase = Finished\<rparr>)"
  note run = resolved_run[OF rec i tx(2) net pkt media]
  have idle: "establish_run [ou] (s, \<lparr>tk_rec = rec, tk_phase = Finished\<rparr>) = Ret (s, \<lparr>tk_rec = rec, tk_phase = Finished\<rparr>)" for s
    using rec by (simp add: establish_run_simps establish_step_def)
  have nine: "replicate 9 ou = [ou] @ replicate 7 ou @ [ou]" "replicate 9 ou = [ou, ou] @ replicate 7 ou"
    by (simp_all add: eval_nat_numeral)
  have first: "establish_run (replicate 9 ou) (sh, spawn rec) = ?done"
  proof (cases "resolve_override sh ch")
    case None
    with tx(1) rec have "establish_run [ou, ou] (sh, spawn rec) = Ret (sh, \<lparr>tk_rec = rec, tk_phase = Resolved (Inr r)\<rparr>)"
      by (simp add: establish_run_simps establish_step_def spawn_def)
    then show ?thesis unfolding nine(2) establish_run_append using run by simp
  next
    case (Some r')
    with tx(1) rec have "establish_run [ou] (sh, spawn rec) = Ret (sh, \<lparr>tk_rec = rec, tk_phase = Resolved (Inr r)\<rparr>)"
      by (simp add: establish_run_simps establish_step_def spawn_def)
    then show ?thesis unfolding nine(1) establish_run_append using run idle by simp
  qed
  with pkt show ?thesis by blast
qed

text \<open>
  C9: a subscription whose transmitter resolves, at the device's rate, and grants the request
  leaves exactly this: one flow listed and handed to the media thread, with the channel's map
  and the device's format, the channel linked to it and establishing, one request sent to the
  transmitter, the flow number and the sequence number each advanced by one; nothing else of
  the device's state changes.
\<close>

theorem subscription_established:
  assumes rec: "sr_local_id rec \<noteq> 0" "sr_tx_channel rec = Some ch" "sr_tx_host rec = Some host"
    and i: "unat (sr_local_id rec) - 1 < length (sh_subs sh)" and media: "sh_media_open sh"
    and tx: "resolve_override sh ch = Some r \<or> resolve_override sh ch = None \<and>
      resolve_answers (st_sample_rate (sh_settings sh)) host ch (ou_chan ou) (ou_arc ou) = Inr r"
      "rt_sample_rate r = st_sample_rate (sh_settings sh)"
    and net: "ou_bind ou = Inr sock" "ou_local ou = Inr port" "ou_querier ou = None" "ou_reply ou = Some reply"
      "grants (sh_flows_seq sh) reply handle"
  shows "\<exists>pkt. flow_request sh r port = Ret pkt \<and>
    establish_run (replicate 9 ou) (sh, spawn rec) =
      Ret (established rec r port pkt handle sh, \<lparr>tk_rec = rec, tk_phase = Finished\<rparr>)"
  using assms by (rule spawned_run)

section \<open>A device to run on\<close>

definition demo_device :: shared where
  "demo_device = (case start_shared 7 [] (default_settings 7) of Ret (Inr sh) \<Rightarrow> sh)"

lemma demo_start: "start_shared 7 [] (default_settings 7) = Ret (Inr demo_device)"
  and demo_fields: "sh_settings demo_device = default_settings 7" "sh_subs demo_device = [rx_sub_default]"
    "sh_override demo_device = None" "sh_media_open demo_device" "sh_flows_seq demo_device = 1"
    "sh_next_flow_id demo_device = 1" "sh_rx_flows demo_device = []" "sh_media_tx demo_device = []"
    "sh_overlay demo_device = clock_new" "\<not> sh_stopped demo_device" "ring_len (sh_ring demo_device) = 2048"
    "id_ip (sh_identity demo_device) = (127, 0, 0, 1)" "id_arc_port (sh_identity demo_device) = 4440" "sh_info_tx demo_device = []"
proof -
  have "resolve [] (st_bind (default_settings 7)) = Inr (loopback (127, 0, 0, 1))"
    by (simp add: resolve_def default_settings_def reject_eq usable_ip_def find_by_ip_def)
  moreover have "st_device_id (default_settings 7) = None" "st_alt_port (default_settings 7) = None"
    "latency_samples (st_rx_latency (default_settings 7)) (st_sample_rate (default_settings 7)) = 480"
    "st_rx_channels (default_settings 7) = 1"
    by (simp_all add: default_settings_def latency_samples_def)
  ultimately have "\<exists>sh. start_shared 7 [] (default_settings 7) = Ret (Inr sh) \<and> sh_override sh = None \<and> sh_media_open sh \<and>
      sh_flows_seq sh = 1 \<and> sh_next_flow_id sh = 1 \<and> sh_rx_flows sh = [] \<and> sh_media_tx sh = [] \<and>
      sh_overlay sh = clock_new \<and> \<not> sh_stopped sh \<and> sh_ring sh = ring_new 1 480 \<and>
      id_ip (sh_identity sh) = (127, 0, 0, 1) \<and> id_arc_port (sh_identity sh) = 4440 \<and> sh_info_tx sh = []"
    by (simp add: start_shared_def default_settings_valid device_id_of_def loopback_def device_ports_def Let_def)
  then obtain sh where sh: "start_shared 7 [] (default_settings 7) = Ret (Inr sh)" "sh_override sh = None"
    "sh_media_open sh" "sh_flows_seq sh = 1" "sh_next_flow_id sh = 1" "sh_rx_flows sh = []" "sh_media_tx sh = []"
    "sh_overlay sh = clock_new" "\<not> sh_stopped sh" "sh_ring sh = ring_new 1 480"
    "id_ip (sh_identity sh) = (127, 0, 0, 1)" "id_arc_port (sh_identity sh) = 4440" "sh_info_tx sh = []" by blast
  have eq: "demo_device = sh" by (simp add: demo_device_def sh(1))
  note ok = start_shared_ok[OF sh(1)]
  show "start_shared 7 [] (default_settings 7) = Ret (Inr demo_device)" by (simp add: eq sh(1))
  show "sh_settings demo_device = default_settings 7" "sh_override demo_device = None" "sh_media_open demo_device"
    "sh_flows_seq demo_device = 1" "sh_next_flow_id demo_device = 1" "sh_rx_flows demo_device = []"
    "sh_media_tx demo_device = []" "sh_overlay demo_device = clock_new" "\<not> sh_stopped demo_device"
    "id_ip (sh_identity demo_device) = (127, 0, 0, 1)" "id_arc_port (sh_identity demo_device) = 4440"
    "sh_info_tx demo_device = []"
    by (simp_all add: eq sh ok)
  have "next_pow2_from (Suc 0) 2048 = 2048" by (simp add: next_pow2_from.simps)
  then show "ring_len (sh_ring demo_device) = 2048" by (simp add: eq sh ring_new_def Let_def max_def next_power_of_two_def)
  show "sh_subs demo_device = [rx_sub_default]" using ok(3) by (simp add: eq default_settings_def)
qed

definition demo_rec :: subscribe_req where
  "demo_rec = \<lparr>sr_local_id = 1, sr_tx_channel = Some (lit ''1''), sr_tx_host = Some (lit ''faketx'')\<rparr>"

definition demo_reply :: bytes where
  "demo_reply = rr_encode START_CODE 1 OP_REQUEST 1 [1, 2, 3, 4, 5, 6]"

definition demo_outside :: outside where
  "demo_outside = \<lparr>ou_chan = Inr None, ou_arc = Inr None, ou_bind = Inr 14336, ou_local = Inr 14336,
     ou_querier = None, ou_reply = Some demo_reply\<rparr>"

lemma demo_grants: "grants 1 demo_reply (Some [1, 2, 3, 4, 5, 6])"
proof -
  have "take 1500 demo_reply = demo_reply" by (simp add: demo_reply_def)
  moreover have "rr_decode demo_reply = Ret (Some (\<lparr>h_start_code = START_CODE,
      h_total_length = of_nat (10 + length [1, 2, 3, 4, 5, 6 :: u8]), h_seqnum = 1, h_opcode1 = OP_REQUEST,
      h_opcode2 = 1\<rparr>, [1, 2, 3, 4, 5, 6]))"
    unfolding demo_reply_def by (rule rr_decode_encode) simp
  ultimately show ?thesis by (auto simp: grants_def)
qed

theorem establish_ends_witness:
  "\<exists>tk'. task_run (spawn demo_rec) (replicate 9 (demo_outside, demo_device)) = Ret tk' \<and>
     (tk_phase tk' = Failed \<or> tk_phase tk' = Finished)"
  by (rule establish_ends) (simp_all add: spawn_def demo_rec_def)

theorem subscription_established_witness:
  "\<exists>sh pkt. flow_request sh \<lparr>rt_flows_addr = ((127, 0, 0, 1), 5000), rt_sample_rate = 48000, rt_tx_channel_id = 1,
       rt_fpp_max = 16, rt_fpp_min = 2\<rparr> 14336 = Ret pkt \<and>
     (\<exists>sh'. establish_run (replicate 9 demo_outside) (sh, spawn demo_rec) =
        Ret (sh', \<lparr>tk_rec = demo_rec, tk_phase = Finished\<rparr>) \<and> map fi_flow_id (sh_rx_flows sh') = [1])"
proof -
  define sh where "sh = set_subscribe_override (127, 0, 0, 1) 5000 demo_device"
  define r where "r = \<lparr>rt_flows_addr = ((127, 0, 0, 1), 5000), rt_sample_rate = 48000, rt_tx_channel_id = 1,
    rt_fpp_max = 16, rt_fpp_min = 2\<rparr>"
  have "channel_number (lit ''1'') = 1"
    by (simp add: channel_number_def parse_u16_def parse_below_def lit_def is_digit_def dec_value_def)
  then have "resolve_override sh (lit ''1'') = Some r"
    by (simp add: resolve_override_def sh_def set_subscribe_override_def r_def demo_fields default_settings_def)
  then obtain pkt where "flow_request sh r 14336 = Ret pkt"
    "establish_run (replicate 9 demo_outside) (sh, spawn demo_rec) =
      Ret (established demo_rec r 14336 pkt (Some [1, 2, 3, 4, 5, 6]) sh, \<lparr>tk_rec = demo_rec, tk_phase = Finished\<rparr>)"
    using subscription_established[of demo_rec "lit ''1''" "lit ''faketx''" sh r demo_outside 14336 14336 demo_reply
      "Some [1, 2, 3, 4, 5, 6]"] demo_grants
    by (auto simp: demo_rec_def sh_def set_subscribe_override_def demo_fields r_def default_settings_def demo_outside_def)
  moreover have "map fi_flow_id (sh_rx_flows (established demo_rec r 14336 pkt h sh)) = [1]" for pkt h
    by (simp add: established_def Let_def sh_def set_subscribe_override_def demo_fields)
  ultimately show ?thesis unfolding r_def by blast
qed

section \<open>From the packet to the application\<close>











section \<open>A subscription that changes while it establishes\<close>

lemma apply_all_simps:
  "apply_all [rec] sh = apply_one rec (sh, [])" "unsubscribe_one k sh = apply_one
     \<lparr>sr_local_id = k, sr_tx_channel = None, sr_tx_host = None\<rparr> (sh, [])"
  by (simp_all add: unsubscribe_one_def apply_all_def)

text \<open>What subscribing and unsubscribing leave alone of the state a task starts from.\<close>

lemma unsubscribe_fields:
  assumes "sub_flow_id (sh_subs sh ! (unat k - 1)) = None"
  defines "sh' \<equiv> fst (unsubscribe_one k sh)"
  shows "sh_settings sh' = sh_settings sh" "sh_identity sh' = sh_identity sh" "sh_override sh' = sh_override sh"
    "sh_media_open sh' = sh_media_open sh" "sh_media_tx sh' = sh_media_tx sh" "sh_flows_seq sh' = sh_flows_seq sh"
    "sh_next_flow_id sh' = sh_next_flow_id sh" "sh_rx_flows sh' = sh_rx_flows sh" "sh_sent sh' = sh_sent sh"
    "k \<noteq> 0 \<Longrightarrow> unat k - 1 < length (sh_subs sh) \<Longrightarrow> sh_subs sh' = (sh_subs sh)[unat k - 1 := rx_sub_default]"
    "k \<noteq> 0 \<Longrightarrow> unat k - 1 < length (sh_subs sh) \<Longrightarrow> sh_ring sh' = set_patched (unat k - 1) False (sh_ring sh)"
  using assms(1) by (simp_all add: sh'_def apply_all_simps apply_one_def Let_def set_sub_def split: if_splits)

text \<open>
  C24: an unsubscribe that comes while the task of the subscription runs does not end it. The
  task goes on to its end: the flow is requested, listed and handed to the media thread, and
  the channel, which has neither a transmitter nor a live reader, says that it is
  establishing.
\<close>

theorem unsubscribe_does_not_cancel:
  assumes rec: "sr_local_id rec \<noteq> 0" "sr_tx_channel rec = Some ch" "sr_tx_host rec = Some host"
    and i: "unat (sr_local_id rec) - 1 < length (sh_subs sh)" and media: "sh_media_open sh"
    and idle: "sub_flow_id (sh_subs sh ! (unat (sr_local_id rec) - 1)) = None"
    and ring: "length (patched (sh_ring sh)) = length (sh_subs sh)"
    and rate: "rt_sample_rate r = st_sample_rate (sh_settings sh)"
    and net: "ou_bind ou = Inr sock" "ou_local ou = Inr port" "ou_querier ou = None" "ou_reply ou = Some reply"
      "grants (sh_flows_seq sh) reply handle"
  defines "j \<equiv> unat (sr_local_id rec) - 1"
  shows "\<exists>sh1 sh2 pkt. apply_all [rec] sh = (sh1, [rec]) \<and>
    establish_run (replicate 7 ou) (fst (unsubscribe_one (sr_local_id rec) sh1), \<lparr>tk_rec = rec, tk_phase = Resolved (Inr r)\<rparr>) =
      Ret (sh2, \<lparr>tk_rec = rec, tk_phase = Finished\<rparr>) \<and>
    sh_subs sh2 ! j = \<lparr>sub_tx_channel = None, sub_tx_host = None, sub_status = STATUS_ESTABLISHING,
      sub_flow_id = Some (sh_next_flow_id sh)\<rparr> \<and>
    \<not> patched (sh_ring sh2) ! j \<and>
    flow_request sh r port = Ret pkt \<and> sh_sent sh2 = sh_sent sh @ [(rt_flows_addr r, pkt)] \<and>
    map fi_flow_id (sh_rx_flows sh2) = map fi_flow_id (sh_rx_flows sh) @ [sh_next_flow_id sh] \<and>
    sh_media_tx sh2 = sh_media_tx sh @
      [AddFlow (sh_next_flow_id sh) port [Some j] 1 (bytes_of (st_bits (sh_settings sh))) (st_sample_rate (sh_settings sh))]"
proof -
  obtain sh1 where sh1: "apply_all [rec] sh = (sh1, [rec])" "sh_settings sh1 = sh_settings sh"
    "sh_identity sh1 = sh_identity sh" "sh_media_open sh1" "sh_media_tx sh1 = sh_media_tx sh"
    "sh_flows_seq sh1 = sh_flows_seq sh" "sh_next_flow_id sh1 = sh_next_flow_id sh" "sh_rx_flows sh1 = sh_rx_flows sh" "sh_sent sh1 = sh_sent sh"
    "length (sh_subs sh1) = length (sh_subs sh)" "sub_flow_id (sh_subs sh1 ! j) = None"
    "length (patched (sh_ring sh1)) = length (patched (sh_ring sh))"
    using rec i idle media
    by (auto simp: apply_all_simps apply_one_def Let_def set_sub_def j_def set_patched_def)
  define s where "s = fst (unsubscribe_one (sr_local_id rec) sh1)"
  note f = unsubscribe_fields[OF sh1(11)[unfolded j_def], folded s_def]
  have subs: "sh_subs s = (sh_subs sh1)[j := rx_sub_default]" "sh_ring s = set_patched j False (sh_ring sh1)"
    using f(10,11) rec i sh1(10) by (simp_all add: j_def)
  obtain pkt where pkt: "flow_request s r port = Ret pkt"
    unfolding flow_request_def using encode_request_flow_ok by blast
  have "establish_run (replicate 7 ou) (s, \<lparr>tk_rec = rec, tk_phase = Resolved (Inr r)\<rparr>) =
      Ret (established rec r port pkt handle s, \<lparr>tk_rec = rec, tk_phase = Finished\<rparr>)"
    by (rule resolved_run[OF rec _ _ net(1-4) _ pkt]) (use i rate net(5) f sh1 subs in \<open>simp_all add: j_def\<close>)
  moreover have "flow_request sh r port = Ret pkt" using pkt sh1 f(1,2,6,7) by (simp add: flow_request_def)
  ultimately show ?thesis
    using sh1 f subs i ring
    by (intro exI[of _ sh1] exI[of _ "established rec r port pkt handle s"] exI[of _ pkt])
      (auto simp: established_def Let_def s_def[symmetric] j_def rx_sub_default_def set_patched_def)
qed

lemma remove_first_keeps: "remove_first P xs = (r, ys) \<Longrightarrow> x \<in> set xs \<Longrightarrow> \<not> P x \<Longrightarrow> x \<in> set ys"
  by (induction xs arbitrary: r ys) (auto split: if_splits prod.splits)

lemma stop_flow_fields:
  assumes "f \<in> set (sh_rx_flows sh)" "fi_flow_id f \<noteq> k"
  shows "f \<in> set (sh_rx_flows (stop_flow k sh))" "sh_subs (stop_flow k sh) = sh_subs sh"
    "sh_media_tx (stop_flow k sh) = sh_media_tx sh @ (if sh_media_open sh then [RemoveFlow k] else [])"
proof -
  obtain r ys where rm: "remove_first (\<lambda>f. fi_flow_id f = k) (sh_rx_flows sh) = (r, ys)" by fastforce
  show "f \<in> set (sh_rx_flows (stop_flow k sh))" "sh_subs (stop_flow k sh) = sh_subs sh"
    "sh_media_tx (stop_flow k sh) = sh_media_tx sh @ (if sh_media_open sh then [RemoveFlow k] else [])"
    using remove_first_keeps[OF rm assms(1)] assms(2)
    by (auto simp: stop_flow_def rm Let_def media_send_def split: option.split)
qed

text \<open>
  C25: a channel that is subscribed again while its flow runs loses the flow: the task
  replaces the flow number of the channel and nothing ends the old flow. An unsubscribe
  afterwards ends the new flow only: the old one is still listed, and the media thread, which
  is told of it by no command, keeps receiving it.
\<close>

theorem resubscribe_leaks_flow:
  assumes rec: "sr_local_id rec \<noteq> 0" "sr_tx_channel rec = Some ch" "sr_tx_host rec = Some host"
    and i: "unat (sr_local_id rec) - 1 < length (sh_subs sh)" and media: "sh_media_open sh"
    and old: "sub_flow_id (sh_subs sh ! (unat (sr_local_id rec) - 1)) = Some (fi_flow_id f)" "f \<in> set (sh_rx_flows sh)"
      "fi_flow_id f \<noteq> sh_next_flow_id sh"
    and rate: "rt_sample_rate r = st_sample_rate (sh_settings sh)"
    and net: "ou_bind ou = Inr sock" "ou_local ou = Inr port" "ou_querier ou = None" "ou_reply ou = Some reply"
      "grants (sh_flows_seq sh) reply handle"
  defines "j \<equiv> unat (sr_local_id rec) - 1" and "new \<equiv> sh_next_flow_id sh"
  shows "\<exists>sh1 sh2. apply_all [rec] sh = (sh1, [rec]) \<and>
    establish_run (replicate 7 ou) (sh1, \<lparr>tk_rec = rec, tk_phase = Resolved (Inr r)\<rparr>) =
      Ret (sh2, \<lparr>tk_rec = rec, tk_phase = Finished\<rparr>) \<and>
    sub_flow_id (sh_subs sh2 ! j) = Some new \<and>
    (let sh3 = fst (unsubscribe_one (sr_local_id rec) sh2) in
       sh_subs sh3 ! j = rx_sub_default \<and> f \<in> set (sh_rx_flows sh3) \<and>
       sh_media_tx sh3 = sh_media_tx sh @
         [AddFlow new port [Some j] 1 (bytes_of (st_bits (sh_settings sh))) (st_sample_rate (sh_settings sh)), RemoveFlow new])"
proof -
  obtain sh1 where sh1: "apply_all [rec] sh = (sh1, [rec])" "sh_settings sh1 = sh_settings sh"
    "sh_identity sh1 = sh_identity sh" "sh_media_open sh1" "sh_media_tx sh1 = sh_media_tx sh"
    "sh_flows_seq sh1 = sh_flows_seq sh" "sh_next_flow_id sh1 = new" "sh_rx_flows sh1 = sh_rx_flows sh"
    "length (sh_subs sh1) = length (sh_subs sh)"
    using rec i media by (auto simp: apply_all_simps apply_one_def Let_def set_sub_def new_def)
  obtain pkt where pkt: "flow_request sh1 r port = Ret pkt"
    unfolding flow_request_def using encode_request_flow_ok by blast
  define sh2 where "sh2 = established rec r port pkt handle sh1"
  have run: "establish_run (replicate 7 ou) (sh1, \<lparr>tk_rec = rec, tk_phase = Resolved (Inr r)\<rparr>) =
      Ret (sh2, \<lparr>tk_rec = rec, tk_phase = Finished\<rparr>)"
    unfolding sh2_def by (rule resolved_run[OF rec _ _ net(1-4) _ pkt]) (use i rate net(5) sh1 in simp_all)
  have f2: "sub_flow_id (sh_subs sh2 ! j) = Some new" "f \<in> set (sh_rx_flows sh2)" "sh_media_open sh2"
    "length (sh_subs sh2) = length (sh_subs sh)"
    "sh_media_tx sh2 = sh_media_tx sh @
       [AddFlow new port [Some j] 1 (bytes_of (st_bits (sh_settings sh))) (st_sample_rate (sh_settings sh))]"
    using sh1 i old(2) by (simp_all add: sh2_def established_def Let_def j_def)
  define sh2' where "sh2' = (set_sub j rx_sub_default sh2)\<lparr>sh_ring := set_patched j False (sh_ring sh2)\<rparr>"
  have "fst (unsubscribe_one (sr_local_id rec) sh2) = stop_flow new sh2'"
    using rec(1) i f2 by (simp add: apply_all_simps apply_one_def Let_def sh2'_def set_sub_def j_def)
  moreover have "f \<in> set (sh_rx_flows sh2')" "sh_media_tx sh2' = sh_media_tx sh2" "sh_media_open sh2'"
    "sh_subs sh2' ! j = rx_sub_default" using f2 i by (simp_all add: sh2'_def set_sub_def j_def)
  moreover have "fi_flow_id f \<noteq> new" using old(3) by (simp add: new_def)
  ultimately show ?thesis
    using sh1(1) run f2 stop_flow_fields[of f sh2' new] by (intro exI[of _ sh1] exI[of _ sh2]) (simp add: Let_def)
qed

definition demo_tx :: resolved_tx where
  "demo_tx = \<lparr>rt_flows_addr = ((127, 0, 0, 1), 5000), rt_sample_rate = 48000, rt_tx_channel_id = 1,
     rt_fpp_max = 16, rt_fpp_min = 2\<rparr>"

theorem unsubscribe_does_not_cancel_witness:
  "\<exists>sh1 sh2. apply_all [demo_rec] demo_device = (sh1, [demo_rec]) \<and>
     establish_run (replicate 7 demo_outside)
       (fst (unsubscribe_one 1 sh1), \<lparr>tk_rec = demo_rec, tk_phase = Resolved (Inr demo_tx)\<rparr>) =
         Ret (sh2, \<lparr>tk_rec = demo_rec, tk_phase = Finished\<rparr>) \<and>
     sh_subs sh2 ! 0 = \<lparr>sub_tx_channel = None, sub_tx_host = None, sub_status = STATUS_ESTABLISHING, sub_flow_id = Some 1\<rparr>"
proof -
  have "length (patched (sh_ring demo_device)) = 1"
    using shared_okD(7)[OF start_shared_ok(1)[OF demo_start]] by (simp add: demo_fields)
  then show ?thesis
    using unsubscribe_does_not_cancel[of demo_rec "lit ''1''" "lit ''faketx''" demo_device demo_tx demo_outside 14336 14336
      demo_reply "Some [1, 2, 3, 4, 5, 6]"] demo_grants
    by (auto simp: demo_rec_def demo_fields rx_sub_default_def demo_tx_def default_settings_def demo_outside_def)
qed

theorem resubscribe_leaks_flow_witness:
  "\<exists>sh sh1 sh2 f. fi_flow_id f = 5 \<and> apply_all [demo_rec] sh = (sh1, [demo_rec]) \<and>
     establish_run (replicate 7 demo_outside) (sh1, \<lparr>tk_rec = demo_rec, tk_phase = Resolved (Inr demo_tx)\<rparr>) =
       Ret (sh2, \<lparr>tk_rec = demo_rec, tk_phase = Finished\<rparr>) \<and>
     f \<in> set (sh_rx_flows (fst (unsubscribe_one 1 sh2)))"
proof -
  define f where "f = \<lparr>fi_flow_id = 5, fi_sample_rate = 48000, fi_bits = 24, fi_channels = [1], fi_port = 14337,
    fi_ip = [127, 0, 0, 1], fi_latency_ns = 10000000, fi_handle = None, fi_tx_addr = ((127, 0, 0, 1), 5000)\<rparr>"
  define sh where "sh = demo_device\<lparr>sh_subs := [rx_sub_default\<lparr>sub_flow_id := Some 5\<rparr>], sh_rx_flows := [f]\<rparr>"
  have f: "fi_flow_id f = 5" by (simp add: f_def)
  have "\<exists>sh1 sh2. apply_all [demo_rec] sh = (sh1, [demo_rec]) \<and>
     establish_run (replicate 7 demo_outside) (sh1, \<lparr>tk_rec = demo_rec, tk_phase = Resolved (Inr demo_tx)\<rparr>) =
       Ret (sh2, \<lparr>tk_rec = demo_rec, tk_phase = Finished\<rparr>) \<and>
     f \<in> set (sh_rx_flows (fst (unsubscribe_one 1 sh2)))"
    using resubscribe_leaks_flow[of demo_rec "lit ''1''" "lit ''faketx''" sh f demo_tx demo_outside 14336 14336
      demo_reply "Some [1, 2, 3, 4, 5, 6]"] demo_grants f
    by (auto simp: demo_rec_def sh_def demo_fields demo_tx_def default_settings_def demo_outside_def Let_def)
  with f show ?thesis by blast
qed

end
