(* ===== verification/Console.thy ===== *)
theory Console
  imports Establish
begin

text \<open>
  A device as a controller sees it: the names of its channels and what each is patched to.
  The specification is a list of names and a list of patches that requests set; every
  step of the device refines it, and the pages a controller reads show it.
\<close>

section \<open>The specification\<close>

record console =
  co_names :: "rstr list"
  co_patch :: "(rstr option \<times> rstr option) list"

text \<open>Requests set the patch or the name of the channel with a number from 1 on; other numbers are void.\<close>

datatype console_request =
    SetPatch u16 "rstr option" "rstr option"
  | SetName u16 rstr

definition set_at :: "u16 \<Rightarrow> 'a \<Rightarrow> 'a list \<Rightarrow> 'a list" where
  "set_at k x xs = (if k = 0 then xs else xs[unat k - 1 := x])"

fun console_step :: "console_request \<Rightarrow> console \<Rightarrow> console" where
  "console_step (SetPatch k ch host) c = c\<lparr>co_patch := set_at k (ch, host) (co_patch c)\<rparr>"
| "console_step (SetName k n) c = c\<lparr>co_names := set_at k n (co_names c)\<rparr>"

definition console_run :: "console_request list \<Rightarrow> console \<Rightarrow> console" where
  "console_run rs c = fold console_step rs c"

text \<open>What a packet asks of the console.\<close>

definition subscribe_request :: "subscribe_req \<Rightarrow> console_request" where
  "subscribe_request r = SetPatch (sr_local_id r) (sr_tx_channel r) (sr_tx_host r)"

definition rename_request :: "rename_req \<Rightarrow> console_request" where
  "rename_request r = SetName (rn_local_id r) (rn_new_name r)"

definition packet_requests :: "bytes \<Rightarrow> console_request list" where
  "packet_requests p =
     (case the_ret (rr_decode p) of
        None \<Rightarrow> []
      | Some (hdr, content) \<Rightarrow>
          if h_opcode1 hdr = OP_RENAME_RX then map rename_request (the_ret (parse_rename_rx p content))
          else if h_opcode1 hdr = OP_SUBSCRIBE then map subscribe_request (the_ret (parse_subscribe p content))
          else if h_opcode1 hdr = OP_UNSUB_ONE then
            (case the_ret (parse_unsub_one content) of Some k \<Rightarrow> [SetPatch k None None] | None \<Rightarrow> [])
          else [])"

fun event_requests :: "device_event \<Rightarrow> console_request list" where
  "event_requests (ArcTurn (Packet buf src)) = packet_requests (take 2048 buf)"
| "event_requests _ = []"

section \<open>The abstraction\<close>

definition patched_to :: "rx_sub \<Rightarrow> rstr option \<times> rstr option" where
  "patched_to s = (sub_tx_channel s, sub_tx_host s)"

definition console_of :: "shared \<Rightarrow> console" where
  "console_of sh = \<lparr>co_names = sh_rx_names sh, co_patch = map patched_to (sh_subs sh)\<rparr>"

lemma console_of_set_sub:
  "console_of (set_sub i x sh) = (console_of sh)\<lparr>co_patch := (co_patch (console_of sh))[i := patched_to x]\<rparr>"
  by (simp add: console_of_def set_sub_def map_update)

lemma console_of_frame [simp]:
  "console_of (sh\<lparr>sh_ring := r\<rparr>) = console_of sh" "console_of (sh\<lparr>sh_overlay := o'\<rparr>) = console_of sh"
  "console_of (sh\<lparr>sh_info_tx := q\<rparr>) = console_of sh" "console_of (sh\<lparr>sh_sent := l\<rparr>) = console_of sh"
  "console_of (sh\<lparr>sh_media_tx := mt\<rparr>) = console_of sh" "console_of (sh\<lparr>sh_rx_flows := fs\<rparr>) = console_of sh"
  "console_of (sh\<lparr>sh_wakeups := w\<rparr>) = console_of sh" "console_of (sh\<lparr>sh_wakeup := b\<rparr>) = console_of sh"
  "console_of (sh\<lparr>sh_stopped := b\<rparr>) = console_of sh" "console_of (sh\<lparr>sh_override := ov\<rparr>) = console_of sh"
  "console_of (sh\<lparr>sh_next_flow_id := i\<rparr>) = console_of sh" "console_of (sh\<lparr>sh_flows_seq := i\<rparr>) = console_of sh"
  "console_of (sh\<lparr>sh_media_open := b\<rparr>) = console_of sh"
  by (simp_all add: console_of_def)

lemma console_of_media_send [simp]: "console_of (fst (media_send c sh)) = console_of sh"
  by (simp add: media_send_def)

lemma console_of_relink:
  "i < length (sh_subs sh) \<Longrightarrow> patched_to x = patched_to (sh_subs sh ! i) \<Longrightarrow> console_of (set_sub i x sh) = console_of sh"
  by (simp add: console_of_def set_sub_def map_update list_update_same_conv)

lemma console_of_set_status [simp]: "console_of (set_status i st sh) = console_of sh"
  by (simp add: set_status_def console_of_relink patched_to_def)

lemma console_of_mark [simp]: "console_of (mark_flow_receiving k sh) = console_of sh"
  by (auto simp: console_of_def mark_flow_receiving_def patched_to_def)

lemma console_of_stop_flow [simp]: "console_of (stop_flow k sh) = console_of sh"
  by (auto simp: stop_flow_def Let_def split: prod.split option.split)

section \<open>Requests refine it\<close>

lemma console_apply_one:
  "console_of (fst (apply_one rec (sh, ts))) = console_step (subscribe_request rec) (console_of sh)"
proof (cases "sr_local_id rec = 0 \<or> unat (sr_local_id rec) - 1 \<ge> length (sh_subs sh)")
  case True
  then have "apply_one rec (sh, ts) = (sh, ts)" by (auto simp: apply_one_def Let_def)
  then show ?thesis using True by (auto simp: subscribe_request_def set_at_def console_of_def list_update_beyond)
next
  case False
  then show ?thesis
    by (auto simp: apply_one_def Let_def subscribe_request_def set_at_def console_of_set_sub patched_to_def
        rx_sub_default_def split: option.split)
qed

lemma console_apply_all:
  "console_of (fst (apply_all recs sh)) = console_run (map subscribe_request recs) (console_of sh)"
proof -
  have "console_of (fst (fold apply_one recs st)) = fold console_step (map subscribe_request recs) (console_of (fst st))" for st
  proof (induction recs arbitrary: st)
    case (Cons r rs)
    then show ?case using console_apply_one[of r "fst st" "snd st"] by simp
  qed simp
  then show ?thesis by (simp add: apply_all_def console_run_def)
qed

lemma rename_names_fold:
  "fst (rename_names rs names ch) = fold (\<lambda>r. set_at (rn_local_id r) (rn_new_name r)) rs names"
  by (induction rs names ch rule: rename_names.induct) (auto simp: Let_def set_at_def list_update_beyond not_less)

lemma console_rename:
  "console_of (rename_rx rs sh) = console_run (map rename_request rs) (console_of sh)"
proof -
  have "fold console_step (map rename_request rs) c =
      c\<lparr>co_names := fold (\<lambda>r. set_at (rn_local_id r) (rn_new_name r)) rs (co_names c)\<rparr>" for c
    by (induction rs arbitrary: c) (simp_all add: rename_request_def)
  then show ?thesis
    using rename_names_fold[of rs "sh_rx_names sh" "[]"]
    by (auto simp: rename_rx_def console_run_def console_of_def Let_def split: prod.split)
qed

lemma console_arc_handle:
  assumes "arc_handle sh p = Ret (r, sh', recs)"
  shows "console_of sh' = console_run (packet_requests p) (console_of sh)"
proof -
  obtain d where d: "rr_decode p = Ret d" using rr_decode_no_panic by (auto simp: not_Panic_iff)
  show ?thesis
  proof (cases d)
    case None
    then show ?thesis using d assms by (simp add: arc_handle_def packet_requests_def console_run_def)
  next
    case (Some hc)
    obtain hdr content where hc: "hc = (hdr, content)" by (cases hc)
    then obtain reply where "arc_handle sh p = Ret (reply, arc_change p hdr content sh)"
      using arc_handle_eq[of p hdr content sh] d Some by auto
    then have sh': "sh' = fst (arc_change p hdr content sh)" using assms by (cases "arc_change p hdr content sh") simp
    have "console_of (fst (unsubscribe_one k sh)) = console_run [SetPatch k None None] (console_of sh)" for k
      by (simp add: unsubscribe_one_def console_apply_all subscribe_request_def)
    then show ?thesis
      using d Some hc
      by (auto simp: sh' arc_change_def packet_requests_def console_rename console_apply_all split: option.split)
        (auto simp: console_run_def)
  qed
qed

section \<open>Nothing else changes it\<close>

lemma console_establish_step:
  assumes "establish_step ou sh tk = Ret (sh', tk')"
  shows "console_of sh' = console_of sh"
proof (cases "sr_tx_channel (tk_rec tk) = None \<or> sr_tx_host (tk_rec tk) = None \<or> sr_local_id (tk_rec tk) = 0")
  case True
  then show ?thesis using assms by (auto simp: establish_step_def Let_def split: option.splits)
next
  case False
  then obtain ch host where "sr_tx_channel (tk_rec tk) = Some ch" "sr_tx_host (tk_rec tk) = Some host"
    "sr_local_id (tk_rec tk) \<noteq> 0" by auto
  note step = establish_step_def this Let_def
  show ?thesis
  proof (cases "tk_phase tk")
    case (Requesting r port fid sq)
    obtain res where "check_reply sq (ou_reply ou) = Ret res" using check_reply_ok by blast
    then show ?thesis using assms Requesting by (cases res) (auto simp: step)
  qed (use assms in \<open>auto simp: step obind_eq_Ret_iff media_send_def console_of_relink patched_to_def
      split: option.splits sum.splits if_splits prod.splits\<close>)
qed

lemma console_wake [simp]: "console_of (wake sh) = console_of sh"
  by (simp add: wake_def)

lemma console_media_packet:
  "media_packet (sh, f) ar = Ret (sh', f') \<Longrightarrow> console_of sh' = console_of sh"
  by (auto simp: media_packet_def Let_def obind_eq_Ret_iff split: if_splits option.splits prod.splits)

lemma console_flow_turn:
  assumes "flow_turn now socks (sh, flows) i = Ret (sh', flows')"
  shows "console_of sh' = console_of sh"
proof (cases "flows i")
  case (Some f)
  then obtain sh1 f1 where one: "ofold media_packet (sh, f) (socks (mf_sock f)) = Ret (sh1, f1)"
    using assms by (cases "ofold media_packet (sh, f) (socks (mf_sock f))") (auto simp: flow_turn_def)
  obtain sh2 f2 where two: "media_keepalive now sh1 f1 = (sh2, f2)" by fastforce
  then have "sh' = sh2" using assms Some one by (simp add: flow_turn_def)
  have "console_of (fst (sh1, f1)) = console_of (fst (sh, f))"
    by (rule ofold_frame[OF one]) (auto dest: console_media_packet)
  moreover have "console_of sh' = console_of sh1"
    using two \<open>sh' = sh2\<close> by (auto simp: media_keepalive_def split: if_splits option.splits)
  ultimately show ?thesis by simp
qed (use assms in \<open>simp add: flow_turn_def\<close>)

lemma console_media_turn:
  assumes "media_turn tn (sh, flows) = Ret (Some (sh', flows'))"
  shows "console_of sh' = console_of sh"
proof -
  obtain sh1 fl1 sh2 fl2 where c: "media_command_step (tn_recv tn) (tn_addr tn) (sh, flows) = Some (sh1, fl1)"
    "ofold (flow_turn (tn_now tn) (tn_socks tn)) (sh1, fl1) (tn_order tn) = Ret (sh2, fl2)"
    "sh' = sh2\<lparr>sh_overlay := mark_unlocked_if_stale (tn_stale tn) 1000000000 (sh_overlay sh2)\<rparr>"
    using assms by (auto simp: media_turn_def obind_eq_Ret_iff split: option.splits)
  have "console_of (fst (sh2, fl2)) = console_of (fst (sh1, fl1))"
    by (rule ofold_frame[OF c(2)]) (auto dest: console_flow_turn)
  moreover have "console_of sh1 = console_of sh"
    using c(1) by (auto simp: media_command_step_def Let_def split: if_splits list.splits media_command.splits option.splits)
  ultimately show ?thesis by (simp add: c(3))
qed

lemma console_try_read:
  "try_read lcl now dst sh = Ret (sh', dst', res) \<Longrightarrow> console_of sh' = console_of sh"
  by (auto simp: try_read_def Let_def obind_eq_Ret_iff split: if_splits)

lemma console_device_step:
  assumes "device_step d ev = Ret d'"
  shows "console_of (dv_shared d') = console_run (event_requests ev) (console_of (dv_shared d))"
proof -
  have same: "console_of (dv_shared d') = console_of (dv_shared d)" if "\<And>rc. ev \<noteq> ArcTurn rc"
  proof (cases ev)
    case (InfoTurn i)
    obtain sh' out sq q where "dv_info d = None \<or>
        info_step i (dv_shared d) (the (dv_info d)) = Ret (sh', out, sq) \<and> sh' = (dv_shared d)\<lparr>sh_info_tx := q\<rparr>"
      using info_step_ok by blast
    then show ?thesis using assms by (auto simp: InfoTurn device_step_def split: option.splits)
  next
    case (MediaTurn tn)
    then show ?thesis
      using assms
      by (auto simp: device_step_def Let_def obind_eq_Ret_iff console_media_turn split: if_splits option.split_asm)
  next
    case (MdnsTurn i)
    then show ?thesis
      using assms by (auto simp: device_step_def obind_eq_Ret_iff split: announcer.splits option.split_asm)
  qed (use assms that in \<open>auto simp: device_step_def Let_def obind_eq_Ret_iff console_establish_step
      console_try_read set_rx_wakeup_def set_subscribe_override_def signal_stop_def split: if_splits\<close>)
  show ?thesis
  proof (cases "\<exists>buf src. ev = ArcTurn (Packet buf src)")
    case True
    then show ?thesis
      using assms by (auto simp: device_step_def obind_eq_Ret_iff console_arc_handle)
  next
    case False
    then have none: "event_requests ev = []" by (cases ev rule: event_requests.cases) auto
    show ?thesis
    proof (cases "\<exists>rc. ev = ArcTurn rc")
      case True
      then obtain k where "ev = ArcTurn (RecvFailed k)" using False by (metis received.exhaust)
      then show ?thesis using assms by (auto simp: device_step_def console_run_def)
    next
      case other: False
      then show ?thesis using same none by (auto simp: console_run_def)
    qed
  qed
qed

lemma console_run_append: "console_run (xs @ ys) c = console_run ys (console_run xs c)"
  by (simp add: console_run_def)

lemma device_run_console:
  assumes "device_run d evs = Ret d'"
  shows "console_of (dv_shared d') = console_run (concat (map event_requests evs)) (console_of (dv_shared d))"
  using assms
proof (induction evs arbitrary: d)
  case (Cons ev evs)
  then obtain d1 where "device_step d ev = Ret d1" "device_run d1 evs = Ret d'"
    by (auto simp: device_run_def obind_eq_Ret_iff)
  then show ?case using Cons.IH console_device_step by (simp add: console_run_append)
qed (simp add: device_run_def console_run_def)

text \<open>
  C4: a device refines its console. After any run, whatever the network, the tasks, the media
  thread and the application have done, its channels have the names and the patches that the
  requests of the controllers set, in their order, and nothing else has changed them.
\<close>

theorem device_refines_console:
  assumes "device_run d evs = Ret d'"
  shows "console_of (dv_shared d') = console_run (concat (map event_requests evs)) (console_of (dv_shared d))"
  using assms by (rule device_run_console)

lemma console_start:
  assumes "start_shared os_pid ifaces s = Ret (Inr sh)"
  shows "console_of sh = \<lparr>co_names = rx_names_of s, co_patch = replicate (unat (st_rx_channels s)) (None, None)\<rparr>"
proof -
  obtain iface where "resolve ifaces (st_bind s) = Inr iface"
    using assms by (cases "validate s"; cases "resolve ifaces (st_bind s)") (simp_all add: start_shared_def)
  moreover obtain pa pc pf pi where "device_ports (st_alt_port s) = (pa, pc, pf, pi)"
    by (cases "device_ports (st_alt_port s)")
  ultimately have "sh_rx_names sh = rx_names_of s"
    using assms by (cases "validate s") (auto simp: start_shared_def Let_def obind_eq_Ret_iff)
  then show ?thesis
    using start_shared_ok(3)[OF assms] by (simp add: console_of_def patched_to_def rx_sub_default_def)
qed

definition demo_rename :: bytes where
  "demo_rename = rr_encode 0x2729 7 OP_RENAME_RX 0 ([0, 1] @ [0, 1, 0, 16] @ lit ''Hi'' @ [0])"

lemma demo_renames: "packet_requests (take 2048 demo_rename) = [SetName 1 (lit ''Hi'')]"
  by code_simp

theorem device_refines_console_witness:
  "\<exists>d'. device_run (device_new demo_device) [ArcTurn (Packet demo_rename ((10, 0, 0, 9), 4000)), AppWakeup] = Ret d' \<and>
     sh_rx_names (dv_shared d') = [lit ''Hi'']"
proof -
  obtain d' where d': "device_run (device_new demo_device)
      [ArcTurn (Packet demo_rename ((10, 0, 0, 9), 4000)), AppWakeup] = Ret d'"
    using device_run_ok[OF device_new_ok[OF start_shared_ok(1)[OF demo_start]]] by blast
  have "rx_names_of (default_settings 7) = [lit ''Rx 1'']"
    by (simp add: default_settings_def rx_names_of_def lit_def show_dec.simps)
  then show ?thesis
    using d' device_refines_console[OF d']
    by (auto simp: demo_renames console_run_def device_new_def console_start[OF demo_start] set_at_def)
      (simp add: console_of_def)
qed

section \<open>A controller reads it\<close>

text \<open>Names that fit a page as C strings.\<close>

definition name_ok :: "rstr \<Rightarrow> bool" where
  "name_ok n \<longleftrightarrow> valid_utf8 n \<and> 0 \<notin> set n \<and> length n \<le> 10000"

definition patch_ok :: "rstr option \<times> rstr option \<Rightarrow> bool" where
  "patch_ok p \<longleftrightarrow> list_all name_ok (case p of (ch, host) \<Rightarrow> (case ch of Some n \<Rightarrow> [n] | None \<Rightarrow> []) @
     (case host of Some n \<Rightarrow> [n] | None \<Rightarrow> []))"

definition console_ok :: "console \<Rightarrow> bool" where
  "console_ok c \<longleftrightarrow> list_all name_ok (co_names c) \<and> list_all patch_ok (co_patch c)"

fun request_ok :: "console_request \<Rightarrow> bool" where
  "request_ok (SetPatch k ch host) = patch_ok (ch, host)"
| "request_ok (SetName k n) = name_ok n"

lemma list_all_set_at: "list_all P xs \<Longrightarrow> P x \<Longrightarrow> list_all P (set_at k x xs)"
  by (auto simp: set_at_def list_all_iff dest: set_update_subset_insert[THEN subsetD])

interpretation console: machine "\<lambda>c r. console_step r c" request_ok console_ok
proof
  fix c r
  assume "console_ok c" "request_ok r"
  then show "console_ok (console_step r c)" by (cases r) (auto simp: console_ok_def list_all_set_at)
qed

lemma name_ok_cstr: "length p \<le> 2048 \<Longrightarrow> cstr_at p off = Some n \<Longrightarrow> name_ok n"
  using cstr_at_Some[of p off n] by (simp add: name_ok_def)

lemma patch_ok_record: "length p \<le> 2048 \<Longrightarrow> patch_ok (cstr_at p a, cstr_at p b)"
  by (auto simp: patch_ok_def name_ok_cstr split: option.split)

lemma subscribe_requests_ok:
  "length p \<le> 2048 \<Longrightarrow> list_all request_ok (map subscribe_request (the_ret (parse_subscribe p c)))"
  by (auto simp: parse_subscribe_eq list_all_iff subscribe_request_def subscribe_record_def Let_def patch_ok_record)

lemma rename_requests_ok:
  assumes "length p \<le> 2048"
  shows "list_all request_ok (map rename_request (the_ret (parse_rename_rx p c)))"
proof -
  have "request_ok (rename_request r)" if "rename_record p c i = Some r" for i r
    using that name_ok_cstr[OF assms] by (auto simp: rename_record_def rename_request_def Let_def split: if_splits)
  then show ?thesis by (auto simp: parse_rename_rx_spec list_all_iff List.map_filter_def)
qed

lemma packet_requests_ok: "length p \<le> 2048 \<Longrightarrow> list_all request_ok (packet_requests p)"
  using subscribe_requests_ok[of p] rename_requests_ok[of p]
  by (simp add: packet_requests_def patch_ok_def[of "(None, None)"] split: option.split prod.split)

lemma event_requests_ok: "list_all request_ok (event_requests ev)"
  by (cases ev rule: event_requests.cases) (simp_all add: packet_requests_ok)

lemma device_console_ok:
  assumes "device_run d evs = Ret d'" "console_ok (console_of (dv_shared d))"
  shows "console_ok (console_of (dv_shared d'))"
proof -
  have "list_all request_ok (concat (map event_requests evs))"
    using event_requests_ok by (auto simp: list_all_iff)
  from console.run_inv[OF assms(2) this] show ?thesis
    using device_run_console[OF assms(1)] by (simp add: console_run_def foldl_conv_fold)
qed

text \<open>The two name fields of a channel: both or none.\<close>

definition shown :: "rstr option \<times> rstr option \<Rightarrow> (rstr \<times> rstr) option" where
  "shown p = (case p of (Some ch, Some host) \<Rightarrow> Some (ch, host) | _ \<Rightarrow> None)"

lemma encode_rx_page_reads:
  assumes "console_ok (console_of sh)" "length (sh_subs sh) = length (sh_rx_names sh)"
    and start: "start = (case the_ret (pagination_start content) of Some n \<Rightarrow> n | None \<Rightarrow> 0)" "start < length (sh_rx_names sh)"
  shows "\<exists>pkt h c m. encode_rx_page sh hdr content = Ret pkt \<and> rr_decode pkt = Ret (Some (h, c)) \<and> 0 < m \<and>
    start + m \<le> length (sh_rx_names sh) \<and>
    h_opcode2 h = (if start + m < length (sh_rx_names sh) then OPCODE2_MORE else OPCODE2_OK) \<and>
    (\<forall>k < m. let i = start + k; tx = shown (co_patch (console_of sh) ! i) in read_rx_item pkt c k =
       Ret (of_nat i + 1, Some (co_names (console_of sh) ! i), map_option fst tx, map_option snd tx, sub_status (sh_subs sh ! i)))"
proof -
  define ch where "ch i = \<lparr>rc_id = of_nat i + 1, rc_friendly = sh_rx_names sh ! i,
    rc_tx_channel = sub_tx_channel (sh_subs sh ! i), rc_tx_host = sub_tx_host (sh_subs sh ! i),
    rc_status = sub_status (sh_subs sh ! i)\<rparr>" for i
  define n where "n = length (sh_rx_names sh)"
  define chs where "chs = map ch [0..<n]"
  have chans: "map (\<lambda>(i, name). \<lparr>rc_id = of_nat i + 1, rc_friendly = name,
        rc_tx_channel = Option.bind (get_idx (sh_subs sh) i) sub_tx_channel,
        rc_tx_host = Option.bind (get_idx (sh_subs sh) i) sub_tx_host,
        rc_status = (case get_idx (sh_subs sh) i of Some s \<Rightarrow> sub_status s | None \<Rightarrow> STATUS_NONE)\<rparr>)
      (enumerate 0 (sh_rx_names sh)) = chs"
    using assms(2) by (auto simp: chs_def n_def ch_def get_idx_def nth_enumerate_eq intro!: nth_equalityI)
  have sel: "rc_id (ch i) = of_nat i + 1" "rc_friendly (ch i) = sh_rx_names sh ! i"
    "rc_status (ch i) = sub_status (sh_subs sh ! i)" for i by (simp_all add: ch_def)
  have tx: "ch_tx (ch i) = shown (patched_to (sh_subs sh ! i))" for i
    by (auto simp: ch_def ch_tx_def shown_def patched_to_def split: option.split)
  have okc: "ch_names_ok (ch i)" if "i < n" for i
  proof -
    have "name_ok (sh_rx_names sh ! i)" "patch_ok (patched_to (sh_subs sh ! i))"
      using assms(1,2) that by (simp_all add: console_ok_def console_of_def list_all_length n_def)
    then show ?thesis
      unfolding ch_names_ok_def ch_strings_def tx
      by (auto simp: name_ok_def patch_ok_def shown_def ch_def patched_to_def split: option.splits)
  qed
  have len: "length chs = n" by (simp add: chs_def)
  have sl: "start < length chs" using start(2) by (simp add: len n_def)
  have all: "\<forall>c \<in> set chs. ch_names_ok c" using okc by (auto simp: chs_def)
  obtain pkt h c m where pg: "encode_rx_channels hdr start (st_sample_rate (sh_settings sh))
      (bits_of (st_bits (sh_settings sh))) chs = Ret pkt" "rr_decode pkt = Ret (Some (h, c))" "0 < m" "start + m \<le> n"
    "h_opcode2 h = (if start + m < n then OPCODE2_MORE else OPCODE2_OK)"
    "\<forall>k < m. let ch = chs ! (start + k) in read_rx_item pkt c k =
       Ret (rc_id ch, Some (rc_friendly ch), map_option fst (ch_tx ch), map_option snd (ch_tx ch), rc_status ch)"
    using encode_rx_channels_reads[OF sl all, of hdr "st_sample_rate (sh_settings sh)" "bits_of (st_bits (sh_settings sh))"]
    unfolding len by blast
  have "encode_rx_page sh hdr content = Ret pkt"
    using pg(1) unfolding encode_rx_page_def chans pagination_start_eq obind.simps Let_def
    by (simp add: start(1) pagination_start_eq)
  moreover have "let i = start + k; t = shown (co_patch (console_of sh) ! i) in read_rx_item pkt c k =
       Ret (of_nat i + 1, Some (co_names (console_of sh) ! i), map_option fst t, map_option snd t, sub_status (sh_subs sh ! i))"
    if "k < m" for k
  proof -
    have i: "start + k < n" using that pg(4) by simp
    then have "chs ! (start + k) = ch (start + k)" by (simp add: chs_def)
    with pg(6)[rule_format, OF that] tx i assms(2) show ?thesis
      by (simp add: Let_def sel console_of_def n_def)
  qed
  ultimately show ?thesis using pg by (auto simp: n_def)
qed

text \<open>
  C5: a controller reads from a device exactly what was asked of it. A request for a page of
  channels, in any state a started device can be in, is answered, changes nothing, and the
  reply holds for the channels from the start on the names and the patches that all requests
  so far have set, in their order, with the state of each subscription; "more" says that
  channels remain.
\<close>

theorem controller_reads_console:
  assumes dev: "start_shared os_pid ifaces s = Ret (Inr sh)" "list_all name_ok (rx_names_of s)"
      "device_run (device_new sh) evs = Ret d"
    and req: "rr_decode (take 2048 buf) = Ret (Some (hdr, content))" "h_opcode1 hdr = OP_RX_CH"
      "start = (case the_ret (pagination_start content) of Some n \<Rightarrow> n | None \<Rightarrow> 0)" "start < unat (st_rx_channels s)"
  defines "con \<equiv> console_run (concat (map event_requests evs))
    \<lparr>co_names = rx_names_of s, co_patch = replicate (unat (st_rx_channels s)) (None, None)\<rparr>"
  shows "\<exists>pkt h c m. device_step d (ArcTurn (Packet buf src)) = Ret (sends [(src, pkt)] d) \<and>
    rr_decode pkt = Ret (Some (h, c)) \<and> 0 < m \<and> start + m \<le> unat (st_rx_channels s) \<and>
    h_opcode2 h = (if start + m < unat (st_rx_channels s) then OPCODE2_MORE else OPCODE2_OK) \<and>
    (\<forall>k < m. let i = start + k; tx = shown (co_patch con ! i) in read_rx_item pkt c k =
       Ret (of_nat i + 1, Some (co_names con ! i), map_option fst tx, map_option snd tx,
         sub_status (sh_subs (dv_shared d) ! i)))"
proof -
  note st = start_shared_ok[OF dev(1)]
  have ok: "shared_ok (dv_shared d)" "sh_settings (dv_shared d) = s"
    using device_run_ok[OF device_new_ok[OF st(1)], of evs] dev(3) st(2)
    by (auto simp: device_ok_def same_config_def device_new_def)
  note sok = shared_okD[OF ok(1), unfolded ok(2)]
  have con: "console_of (dv_shared d) = con"
    using device_run_console[OF dev(3)] console_start[OF dev(1)] by (simp add: con_def device_new_def)
  have "console_ok (console_of sh)"
    using dev(2) by (simp add: console_start[OF dev(1)] console_ok_def list_all_iff patch_ok_def)
  then have cok: "console_ok (console_of (dv_shared d))"
    using device_console_ok[OF dev(3)] by (simp add: device_new_def)
  obtain pkt h c m where pg: "encode_rx_page (dv_shared d) hdr content = Ret pkt"
    "rr_decode pkt = Ret (Some (h, c))" "0 < m" "start + m \<le> unat (st_rx_channels s)"
    "h_opcode2 h = (if start + m < unat (st_rx_channels s) then OPCODE2_MORE else OPCODE2_OK)"
    "\<forall>k < m. let i = start + k; tx = shown (co_patch con ! i) in read_rx_item pkt c k =
       Ret (of_nat i + 1, Some (co_names con ! i), map_option fst tx, map_option snd tx,
         sub_status (sh_subs (dv_shared d) ! i))"
    using encode_rx_page_reads[OF cok _ req(3), of hdr] sok(5,6) req(4) unfolding con by auto
  have "arc_handle (dv_shared d) (take 2048 buf) = Ret (Some pkt, dv_shared d, [])"
    using req(1,2) pg(1) by (simp add: arc_handle_def Let_def arc_op_defs)
  then have "device_step d (ArcTurn (Packet buf src)) = Ret (sends [(src, pkt)] d)"
    by (simp add: device_step_def reply_to_def)
  with pg show ?thesis by blast
qed

theorem controller_reads_console_witness:
  "\<exists>pkt h c. device_step (device_new demo_device) (ArcTurn (Packet (rr_encode 0x2729 7 OP_RX_CH 0 []) ((10, 0, 0, 9), 4000))) =
       Ret (sends [(((10, 0, 0, 9), 4000), pkt)] (device_new demo_device)) \<and>
     rr_decode pkt = Ret (Some (h, c)) \<and> h_opcode2 h = OPCODE2_OK \<and>
     read_rx_item pkt c 0 = Ret (1, Some (lit ''Rx 1''), None, None, STATUS_NONE)"
proof -
  let ?buf = "rr_encode 0x2729 7 OP_RX_CH 0 []"
  have buf: "take 2048 ?buf = ?buf" by simp
  have nchan: "unat (st_rx_channels (default_settings 7)) = 1" by (simp add: default_settings_def)
  have one: "rx_names_of (default_settings 7) = [lit ''Rx 1'']"
    by (simp add: default_settings_def rx_names_of_def lit_def show_dec.simps)
  have names: "list_all name_ok (rx_names_of (default_settings 7))"
    unfolding one by (simp add: name_ok_def lit_def)
  have run: "device_run (device_new demo_device) [] = Ret (device_new demo_device)" by (simp add: device_run_def)
  have req: "rr_decode (take 2048 ?buf) = Ret (Some
      (\<lparr>h_start_code = 0x2729, h_total_length = 10, h_seqnum = 7, h_opcode1 = OP_RX_CH, h_opcode2 = 0\<rparr>, []))"
    unfolding buf using rr_decode_encode[where c = "[]"] by simp
  have page: "0 = (case the_ret (pagination_start []) of Some n \<Rightarrow> n | None \<Rightarrow> 0)"
    by (simp add: pagination_start_eq)
  obtain pkt h c m where pkt: "device_step (device_new demo_device) (ArcTurn (Packet ?buf ((10, 0, 0, 9), 4000))) =
      Ret (sends [(((10, 0, 0, 9), 4000), pkt)] (device_new demo_device))" "rr_decode pkt = Ret (Some (h, c))" "0 < m" "m \<le> 1"
    "h_opcode2 h = (if m < 1 then OPCODE2_MORE else OPCODE2_OK)"
    "\<forall>k < m. let tx = shown (replicate 1 (None, None) ! k) in read_rx_item pkt c k =
       Ret (of_nat k + 1, Some ([lit ''Rx 1''] ! k), map_option fst tx, map_option snd tx, sub_status (sh_subs demo_device ! k))"
    using controller_reads_console[OF demo_start names run req _ page, where src = "((10, 0, 0, 9), 4000)"]
    by (auto simp: nchan one console_run_def device_new_def Let_def)
  from pkt(6)[rule_format, OF pkt(3)] have "read_rx_item pkt c 0 = Ret (1, Some (lit ''Rx 1''), None, None, STATUS_NONE)"
    by (simp add: demo_fields rx_sub_default_def shown_def STATUS_NONE_def)
  moreover have "h_opcode2 h = OPCODE2_OK" using pkt(3-5) by simp
  ultimately show ?thesis using pkt by blast
qed

end
