(* ===== verification/Query.thy ===== *)
theory Query
  imports Establish
begin

text \<open>
  How a device finds a transmitter: the one-shot query of \<open>src/net/mdns.rs\<close>, and what
  \<open>resolve_tx\<close> of \<open>src/device/subscribe.rs\<close> takes from the answers that come over the wire.
\<close>

section \<open>The query\<close>

text \<open>
  \<open>query\<close>: what is sent, and an error, nothing, or the first message that came. The result of
  \<open>send_to\<close> and what \<open>recv_from\<close> gives are arguments; its buffer holds 1500 bytes.
\<close>

definition mdns_query ::
  "os \<Rightarrow> ipv4 \<Rightarrow> rstr \<Rightarrow> u16 \<Rightarrow> io_kind option \<Rightarrow> received \<Rightarrow>
   ((sock_addr \<times> bytes) list \<times> (dev_error + message option)) outcome" where
  "mdns_query os ip name qtype sent rc =
     (case rtry (bind_querier os ip) (\<lambda>_. call (os_option os (lit ''read_timeout''))) of
        Inl e \<Rightarrow> Ret ([], Inl e)
      | Inr _ \<Rightarrow>
          obind (mdns_encode (query_message name qtype)) (\<lambda>q. case sent of
            Some k \<Rightarrow> Ret ([], Inl (IoError k))
          | None \<Rightarrow>
              (case rc of
                 Packet buf _ \<Rightarrow> obind (mdns_decode (take 1500 buf)) (\<lambda>m. Ret ([(MDNS_DEST, q)], Inr m))
               | RecvFailed k \<Rightarrow>
                   Ret ([(MDNS_DEST, q)], if k = TimedOut \<or> k = WouldBlock then Inr None else Inl (IoError k)))))"

text \<open>The answer a task gets: \<open>resolve_tx\<close> keeps the text of an error.\<close>

definition answer_of :: "(io_kind \<Rightarrow> rstr) \<Rightarrow> dev_error + message option \<Rightarrow> answer" where
  "answer_of io res = (case res of Inl e \<Rightarrow> Inl (show_error io e) | Inr m \<Rightarrow> Inr m)"

lemma mdns_query_ok: "\<exists>out res. mdns_query os ip name qtype sent rc = Ret (out, res)"
proof -
  obtain q where "mdns_encode (query_message name qtype) = Ret q" by (simp add: mdns_encode_eq)
  moreover have "\<exists>m. mdns_decode (take 1500 buf) = Ret m" for buf using mdns_decode_ok by blast
  ultimately show ?thesis
    by (cases rc) (auto simp: mdns_query_def obind_eq_Ret_iff split: sum.split option.split)
qed

section \<open>What the answers say\<close>

text \<open>The last of the values that records give, if any does.\<close>

definition last_value :: "('a \<Rightarrow> 'b option) \<Rightarrow> 'b \<Rightarrow> 'a list \<Rightarrow> 'b" where
  "last_value f d xs = fold (\<lambda>x v. case f x of Some w \<Rightarrow> w | None \<Rightarrow> v) xs d"

definition record_port :: "rstr \<Rightarrow> dns_record \<Rightarrow> u16 option" where
  "record_port chan r = (case r_data r of Srv _ _ port _ \<Rightarrow> if names_match (r_name r) chan then Some port else None | _ \<Rightarrow> None)"

definition record_address :: "dns_record \<Rightarrow> bytes option option" where
  "record_address r = (case r_data r of A a \<Rightarrow> Some (Some a) | _ \<Rightarrow> None)"

definition record_txt :: "(bytes list \<Rightarrow> 'a option) \<Rightarrow> dns_record \<Rightarrow> 'a option" where
  "record_txt f r = (case r_data r of Txt strs \<Rightarrow> f strs | _ \<Rightarrow> None)"

definition txt_rate :: "bytes list \<Rightarrow> u32 option" where
  "txt_rate strs = Option.bind (txt_get strs (lit ''rate'')) parse_u32"

definition txt_id :: "bytes list \<Rightarrow> u16 option" where
  "txt_id strs = Option.bind (txt_get strs (lit ''id'')) parse_u16"

definition txt_fpp :: "bytes list \<Rightarrow> (u16 \<times> u16) option" where
  "txt_fpp strs = map_option parse_fpp (txt_get strs (lit ''fpp''))"

lemma last_value_simps [simp]:
  "last_value f d [] = d" "last_value f d (x # xs) = last_value f (case f x of Some w \<Rightarrow> w | None \<Rightarrow> d) xs"
  by (simp_all add: last_value_def)

lemma last_value_append: "last_value f d (xs @ ys) = last_value f (last_value f d xs) ys"
  by (simp add: last_value_def)

definition records_facts :: "rstr \<Rightarrow> dns_record list \<Rightarrow> tx_facts \<Rightarrow> tx_facts" where
  "records_facts chan rs f =
     (let fpp = last_value (record_txt txt_fpp) (tf_fpp_max f, tf_fpp_min f) rs
      in \<lparr>tf_flows_port = last_value (record_port chan) (tf_flows_port f) rs,
          tf_sample_rate = last_value (record_txt txt_rate) (tf_sample_rate f) rs,
          tf_fpp_max = fst fpp, tf_fpp_min = snd fpp,
          tf_ipv4 = last_value record_address (tf_ipv4 f) rs,
          tf_tx_channel_id = last_value (record_txt txt_id) (tf_tx_channel_id f) rs\<rparr>)"

lemma consider_record_facts: "consider_record chan r f = records_facts chan [r] f"
  by (cases f; cases "r_data r")
    (auto simp: records_facts_def Let_def consider_record_def record_port_def record_address_def record_txt_def
      txt_facts_def txt_rate_def txt_id_def txt_fpp_def split: option.split prod.split)

lemma consider_records: "fold (consider_record chan) rs f = records_facts chan rs f"
proof (induction rs arbitrary: f)
  case Nil
  then show ?case by (cases f) (simp add: records_facts_def)
next
  case (Cons r rs)
  have "fold (consider_record chan) (r # rs) f = records_facts chan rs (records_facts chan [r] f)"
    by (simp add: Cons.IH consider_record_facts)
  then show ?case by (simp add: records_facts_def Let_def)
qed

definition own_facts :: "u32 \<Rightarrow> rstr \<Rightarrow> tx_facts" where
  "own_facts own_rate ch = \<lparr>tf_flows_port = 4455, tf_sample_rate = own_rate, tf_fpp_max = 16, tf_fpp_min = 2,
     tf_ipv4 = None, tf_tx_channel_id = channel_number ch\<rparr>"

lemma resolve_answers_records:
  "resolve_answers own_rate host ch (Inr (Some cm)) (Inr (Some am)) =
     (let f = records_facts (chan_instance ch host)
        (m_answers cm @ m_additionals cm @ m_answers am @ m_additionals am) (own_facts own_rate ch)
      in case tf_ipv4 f of
           None \<Rightarrow> Inl (NoARecord host)
         | Some a \<Rightarrow> Inr \<lparr>rt_flows_addr = (from_octets a, tf_flows_port f), rt_sample_rate = tf_sample_rate f,
             rt_tx_channel_id = tf_tx_channel_id f, rt_fpp_max = tf_fpp_max f, rt_fpp_min = tf_fpp_min f\<rparr>)"
proof -
  let ?chan = "chan_instance ch host"
  have "consider_msg ?chan am (consider_msg ?chan cm f) =
      records_facts ?chan (m_answers cm @ m_additionals cm @ m_answers am @ m_additionals am) f" for f
    by (simp add: consider_msg_def consider_records[symmetric])
  then show ?thesis unfolding resolve_answers_def own_facts_def Let_def sum.case option.case by (simp split: option.split)
qed

lemma mdns_query_answered:
  assumes "bind_querier os ip = Inr p" "os_option os (lit ''read_timeout'') = None"
    and "good_message m" "mdns_encode m = Ret buf" "length buf \<le> 1500"
  shows "\<exists>q. mdns_encode (query_message name qtype) = Ret q \<and>
    mdns_query os ip name qtype None (Packet buf src) = Ret ([(MDNS_DEST, q)], Inr (Some m))"
proof -
  have "mdns_decode buf = Ret (Some m)" using mdns_decode_encode[OF assms(3)] assms(4) by (simp add: mdns_encode_eq)
  then show ?thesis using assms by (simp add: mdns_query_def call_def mdns_encode_eq)
qed

text \<open>
  C14: a transmitter that answers is found as it describes itself. When both queries are
  answered with well-formed messages of at most 1500 bytes, the device resolves the
  transmitter at the address of the last A record, at the port of the last SRV record of the
  channel's name, with the rate, the channel and the frames per packet of the last TXT records
  that give one, and where no record does, with its own rate, the number in the channel's name,
  16 and 2 frames and port 4455; without an A record the transmitter is not resolved.
\<close>

theorem resolve_over_wire:
  assumes sock: "bind_querier os ip = Inr p" "os_option os (lit ''read_timeout'') = None"
    and chan: "good_message cm" "mdns_encode cm = Ret cb" "length cb \<le> 1500"
    and arc: "good_message am" "mdns_encode am = Ret ab" "length ab \<le> 1500"
  shows "\<exists>out1 res1 out2 res2.
    mdns_query os ip (chan_instance ch host) QTYPE_ANY None (Packet cb src1) = Ret (out1, res1) \<and>
    mdns_query os ip (service_instance host ARC_SERVICE) QTYPE_ANY None (Packet ab src2) = Ret (out2, res2) \<and>
    resolve_answers own_rate host ch (answer_of io res1) (answer_of io res2) =
     (let rs = m_answers cm @ m_additionals cm @ m_answers am @ m_additionals am;
          fpp = last_value (record_txt txt_fpp) (16, 2) rs
      in case last_value record_address None rs of
           None \<Rightarrow> Inl (NoARecord host)
         | Some a \<Rightarrow> Inr
             \<lparr>rt_flows_addr = (from_octets a, last_value (record_port (chan_instance ch host)) 4455 rs),
              rt_sample_rate = last_value (record_txt txt_rate) own_rate rs,
              rt_tx_channel_id = last_value (record_txt txt_id) (channel_number ch) rs,
              rt_fpp_max = fst fpp, rt_fpp_min = snd fpp\<rparr>)"
proof -
  obtain q1 where "mdns_query os ip (chan_instance ch host) QTYPE_ANY None (Packet cb src1) =
      Ret ([(MDNS_DEST, q1)], Inr (Some cm))" using mdns_query_answered[OF sock chan] by blast
  moreover obtain q2 where "mdns_query os ip (service_instance host ARC_SERVICE) QTYPE_ANY None (Packet ab src2) =
      Ret ([(MDNS_DEST, q2)], Inr (Some am))" using mdns_query_answered[OF sock arc] by blast
  ultimately show ?thesis
    by (simp add: answer_of_def resolve_answers_records records_facts_def own_facts_def Let_def split: option.split)
qed

text \<open>An operating system on which every call succeeds, and the answers of a transmitter.\<close>

definition quiet_os :: os where
  "quiet_os = \<lparr>os_windows = False, os_socket = None, os_bind = (\<lambda>_ p. Inr (if p = 0 then 50000 else p)),
     os_multicast_if = (\<lambda>_. None), os_join = (\<lambda>_ _. None), os_option = (\<lambda>_. None), os_spawn = (\<lambda>_. None)\<rparr>"

definition demo_chan :: message where
  "demo_chan = \<lparr>m_id = 0, m_flags = FLAGS_RESPONSE, m_questions = [],
     m_answers = [\<lparr>r_name = chan_instance (lit ''L'') (lit ''tx''), r_rtype = QTYPE_SRV, r_class = CLASS_FLUSH, r_ttl = 120,
       r_data = Srv 0 0 14000 (lit ''tx.local'')\<rparr>,
      \<lparr>r_name = chan_instance (lit ''L'') (lit ''tx''), r_rtype = QTYPE_TXT, r_class = CLASS_FLUSH, r_ttl = 120,
       r_data = Txt [txt_kv (lit ''rate'') (lit ''48000''), txt_kv (lit ''id'') (lit ''3'')]\<rparr>],
     m_additionals = [\<lparr>r_name = lit ''tx.local'', r_rtype = QTYPE_A, r_class = CLASS_FLUSH, r_ttl = 120,
       r_data = A [10, 0, 0, 7]\<rparr>]\<rparr>"

lemma demo_chan_good: "good_message demo_chan"
proof -
  have names: "good_name (chan_instance (lit ''L'') (lit ''tx''))" "good_name (lit ''tx.local'')" by code_simp+
  have "good_data (Srv 0 0 14000 (lit ''tx.local''))"
    using names(2) length_name_bytes[OF names(2)] by (simp add: good_data_def data_bytes_def lit_def)
  moreover have "good_data (Txt [txt_kv (lit ''rate'') (lit ''48000''), txt_kv (lit ''id'') (lit ''3'')])"
    by (rule good_txt) (simp_all add: txt_kv_def lit_def)
  moreover have "good_data (A [10, 0, 0, 7])" by (simp add: good_data_def data_bytes_def)
  ultimately show ?thesis
    using names by (simp add: good_message_def demo_chan_def good_record_def data_type_def)
qed

definition demo_none :: message where
  "demo_none = \<lparr>m_id = 0, m_flags = FLAGS_RESPONSE, m_questions = [], m_answers = [], m_additionals = []\<rparr>"

lemma demo_answers_short: "length (message_bytes demo_chan) \<le> 1500" "length (message_bytes demo_none) \<le> 1500"
  by code_simp+

lemma demo_values:
  "last_value record_address None (m_answers demo_chan @ m_additionals demo_chan) = Some [10, 0, 0, 7]"
  "last_value (record_port (chan_instance (lit ''L'') (lit ''tx''))) 4455 (m_answers demo_chan @ m_additionals demo_chan) = 14000"
  by code_simp+

lemma demo_txt:
  "last_value (record_txt txt_rate) d (m_answers demo_chan @ m_additionals demo_chan) = 48000"
  "last_value (record_txt txt_id) e (m_answers demo_chan @ m_additionals demo_chan) = 3"
proof -
  have "txt_get [txt_kv (lit ''rate'') (lit ''48000''), txt_kv (lit ''id'') (lit ''3'')] (lit ''rate'') = Some (lit ''48000'')"
    "txt_get [txt_kv (lit ''rate'') (lit ''48000''), txt_kv (lit ''id'') (lit ''3'')] (lit ''id'') = Some (lit ''3'')"
    by code_simp+
  then show "last_value (record_txt txt_rate) d (m_answers demo_chan @ m_additionals demo_chan) = 48000"
    "last_value (record_txt txt_id) e (m_answers demo_chan @ m_additionals demo_chan) = 3"
    by (simp_all add: demo_chan_def record_txt_def txt_rate_def txt_id_def parse_u32_def parse_u16_def parse_below_def lit_def
      is_digit_def dec_value_def)
qed

theorem resolve_over_wire_witness:
  "\<exists>out1 res1 out2 res2 r.
    mdns_query quiet_os (10, 0, 0, 9) (chan_instance (lit ''L'') (lit ''tx'')) QTYPE_ANY None
      (Packet (message_bytes demo_chan) ((10, 0, 0, 7), 5353)) = Ret (out1, res1) \<and>
    mdns_query quiet_os (10, 0, 0, 9) (service_instance (lit ''tx'') ARC_SERVICE) QTYPE_ANY None
      (Packet (message_bytes demo_none) ((10, 0, 0, 7), 5353)) = Ret (out2, res2) \<and>
    resolve_answers 96000 (lit ''tx'') (lit ''L'') (answer_of (\<lambda>_. []) res1) (answer_of (\<lambda>_. []) res2) = Inr r \<and>
    rt_flows_addr r = ((10, 0, 0, 7), 14000) \<and> rt_sample_rate r = 48000 \<and> rt_tx_channel_id r = 3"
proof -
  have os: "bind_querier quiet_os (10, 0, 0, 9) = Inr 50000" "os_option quiet_os (lit ''read_timeout'') = None"
    by (simp_all add: quiet_os_def bind_querier_def reject_eq usable_ip_def call_def set_multicast_if_v4_def)
  have none: "good_message demo_none" by (simp add: good_message_def demo_none_def)
  have num: "channel_number (lit ''L'') = 1"
    by (simp add: channel_number_def parse_u16_def parse_below_def lit_def is_digit_def)
  have rs: "m_answers demo_chan @ m_additionals demo_chan @ m_answers demo_none @ m_additionals demo_none =
      m_answers demo_chan @ m_additionals demo_chan" by (simp add: demo_none_def)
  show ?thesis
    using resolve_over_wire[OF os demo_chan_good mdns_encode_eq demo_answers_short(1) none mdns_encode_eq demo_answers_short(2),
      of "lit ''L''" "lit ''tx''" "((10, 0, 0, 7), 5353)" "((10, 0, 0, 7), 5353)" 96000 "\<lambda>_. []"]
    unfolding rs by (auto simp: demo_values demo_txt num Let_def)
qed

end
