(* ===== verification/Whole_Device.thy ===== *)
theory Whole_Device
  imports Establish
begin

text \<open>
  What holds of a started device under every interleaving of its threads and tasks: nothing
  panics, the parts stay consistent, and a stop is final.
\<close>

section \<open>Stopping\<close>

lemma stopped_frames:
  "sh_stopped (set_sub i x sh) = sh_stopped sh" "sh_stopped (set_status i st sh) = sh_stopped sh"
  "sh_stopped (fst (media_send c sh)) = sh_stopped sh" "sh_stopped (rename_rx rs sh) = sh_stopped sh"
  "sh_stopped (stop_flow k sh) = sh_stopped sh"
  by (auto simp: set_sub_def set_status_def media_send_def rename_rx_def stop_flow_def Let_def
      split: prod.split option.split)

lemma apply_all_stopped: "sh_stopped (fst (apply_all recs sh)) = sh_stopped sh"
proof -
  have one: "sh_stopped (fst (apply_one rec st)) = sh_stopped (fst st)" for rec st
    by (auto simp: apply_one_def Let_def stopped_frames split: prod.split option.split)
  have "sh_stopped (fst (fold apply_one recs st)) = sh_stopped (fst st)" for st
    by (induction recs arbitrary: st) (simp_all add: one)
  then show ?thesis by (simp add: apply_all_def)
qed

lemma arc_handle_stopped:
  assumes "arc_handle sh p = Ret (r, sh', recs)"
  shows "sh_stopped sh' = sh_stopped sh"
proof -
  obtain d where d: "rr_decode p = Ret d" using rr_decode_no_panic by (auto simp: not_Panic_iff)
  show ?thesis
  proof (cases d)
    case None
    then show ?thesis using d assms by (simp add: arc_handle_def)
  next
    case (Some hc)
    obtain hdr content where hc: "hc = (hdr, content)" by (cases hc)
    then obtain reply where "arc_handle sh p = Ret (reply, arc_change p hdr content sh)"
      using arc_handle_eq[of p hdr content sh] d Some by auto
    then have "sh' = fst (arc_change p hdr content sh)" using assms by (cases "arc_change p hdr content sh") simp
    then show ?thesis
      by (auto simp: arc_change_def unsubscribe_one_def apply_all_stopped stopped_frames split: option.split)
  qed
qed

lemma establish_step_stopped:
  assumes "establish_step ou sh tk = Ret (sh', tk')"
  shows "sh_stopped sh' = sh_stopped sh"
proof (cases "sr_tx_channel (tk_rec tk) = None \<or> sr_tx_host (tk_rec tk) = None \<or> sr_local_id (tk_rec tk) = 0")
  case True
  then show ?thesis using assms by (auto simp: establish_step_def Let_def split: option.splits)
next
  case False
  then obtain ch host where "sr_tx_channel (tk_rec tk) = Some ch" "sr_tx_host (tk_rec tk) = Some host"
    "sr_local_id (tk_rec tk) \<noteq> 0" by auto
  note step = establish_step_def this Let_def stopped_frames
  show ?thesis
  proof (cases "tk_phase tk")
    case (Requesting r port fid sq)
    obtain res where "check_reply sq (ou_reply ou) = Ret res" using check_reply_ok by blast
    then show ?thesis using assms Requesting by (cases res) (auto simp: step)
  qed (use assms in \<open>auto simp: step obind_eq_Ret_iff media_send_def
      split: option.splits sum.splits if_splits prod.splits\<close>)
qed

lemma try_read_stopped:
  "try_read lcl now dst sh = Ret (sh', dst', res) \<Longrightarrow> sh_stopped sh' = sh_stopped sh"
  by (auto simp: try_read_def Let_def obind_eq_Ret_iff split: if_splits)

text \<open>A device that is stopped stays stopped, and without its media thread it stays without.\<close>

lemma device_step_stopped:
  assumes "device_step d ev = Ret d'"
  shows "sh_stopped (dv_shared d) \<Longrightarrow> sh_stopped (dv_shared d')" "dv_media d' \<Longrightarrow> dv_media d"
    "dv_media d \<or> dv_flows d = Map.empty \<Longrightarrow> dv_media d' \<or> dv_flows d' = Map.empty"
proof -
  have stop: "media_turn tn (sh, fl) = Ret None" if "sh_stopped sh" for tn sh fl
    using that by (simp add: media_turn_def media_command_step_def)
  show "sh_stopped (dv_shared d')" if "sh_stopped (dv_shared d)"
  proof (cases ev)
    case (InfoTurn i)
    obtain sh' out sq q where "dv_info d = None \<or>
        info_step i (dv_shared d) (the (dv_info d)) = Ret (sh', out, sq) \<and> sh' = (dv_shared d)\<lparr>sh_info_tx := q\<rparr>"
      using info_step_ok by blast
    then show ?thesis using assms that by (auto simp: InfoTurn device_step_def split: option.splits)
  next
    case (ArcTurn rc)
    then show ?thesis
      using assms that by (cases rc) (auto simp: device_step_def obind_eq_Ret_iff arc_handle_stopped)
  next
    case (MdnsTurn i)
    then show ?thesis
      using assms that
      by (auto simp: device_step_def obind_eq_Ret_iff split: announcer.splits option.split_asm)
  qed (use assms that in \<open>auto simp: device_step_def Let_def obind_eq_Ret_iff establish_step_stopped
      try_read_stopped stop set_rx_wakeup_def set_subscribe_override_def signal_stop_def stopped_frames
      split: if_splits\<close>)
  have "(dv_media d' \<longrightarrow> dv_media d) \<and>
      (dv_media d \<or> dv_flows d = Map.empty \<longrightarrow> dv_media d' \<or> dv_flows d' = Map.empty)"
    using assms
    by (cases ev)
      (auto simp: device_step_def Let_def obind_eq_Ret_iff split: if_splits option.split_asm announcer.split_asm)
  then show "dv_media d' \<Longrightarrow> dv_media d"
    "dv_media d \<or> dv_flows d = Map.empty \<Longrightarrow> dv_media d' \<or> dv_flows d' = Map.empty" by auto
qed

lemma stopped_turn:
  "device_step d (MediaTurn tn) = Ret d' \<Longrightarrow> sh_stopped (dv_shared d) \<Longrightarrow> \<not> dv_media d'"
  by (auto simp: device_step_def Let_def media_turn_def media_command_step_def split: if_splits)

lemma device_run_media:
  "device_run d evs = Ret d' \<Longrightarrow> dv_media d' \<Longrightarrow> dv_media d"
  "device_run d evs = Ret d' \<Longrightarrow> dv_media d \<or> dv_flows d = Map.empty \<Longrightarrow> dv_media d' \<or> dv_flows d' = Map.empty"
  "device_run d evs = Ret d' \<Longrightarrow> sh_stopped (dv_shared d) \<Longrightarrow> sh_stopped (dv_shared d')"
  by (induction evs arbitrary: d)
    (auto simp: device_run_def obind_eq_Ret_iff dest: device_step_stopped)

text \<open>
  C18: stopping a device is final. Once the application has stopped it, whatever the network,
  the tasks and the application do afterwards, every read says so and leaves the frame as it
  was; and once the media thread has had a turn it is gone, with all its flows.
\<close>

theorem stop_is_final:
  assumes "start_shared os_pid ifaces s = Ret (Inr sh)" "device_run (device_new sh) (evs @ AppStop # evs') = Ret d"
  shows "try_read lcl now dst (dv_shared d) = Ret (dv_shared d, dst, Inl Stopped) \<and>
    (MediaTurn tn \<in> set evs' \<longrightarrow> \<not> dv_media d \<and> dv_flows d = Map.empty)"
proof (rule conjI[OF _ impI])
  obtain d1 d2 where d1: "device_run (device_new sh) evs = Ret d1" and d2: "device_step d1 AppStop = Ret d2"
    and d: "device_run d2 evs' = Ret d"
    using assms(2) by (auto simp: device_run_append obind_eq_Ret_iff) (auto simp: device_run_def obind_eq_Ret_iff)
  have st: "sh_stopped (dv_shared d2)"
    using d2 by (auto simp: device_step_def signal_stop_def stopped_frames)
  have fl: "dv_media d2 \<or> dv_flows d2 = Map.empty"
    using device_run_media(2)[OF d1] device_step_stopped(3)[OF d2] by (simp add: device_new_def)
  show "try_read lcl now dst (dv_shared d) = Ret (dv_shared d, dst, Inl Stopped)"
    using device_run_media(3)[OF d st] by (simp add: try_read_def)
  assume "MediaTurn tn \<in> set evs'"
  then obtain xs ys where e: "evs' = xs @ MediaTurn tn # ys" by (auto dest: split_list)
  then obtain d3 d4 where r: "device_run d2 xs = Ret d3" "device_step d3 (MediaTurn tn) = Ret d4" "device_run d4 ys = Ret d"
    using d by (auto simp: device_run_append obind_eq_Ret_iff) (auto simp: device_run_def obind_eq_Ret_iff)
  have "\<not> dv_media d4" using stopped_turn[OF r(2)] device_run_media(3)[OF r(1) st] by simp
  then show "\<not> dv_media d \<and> dv_flows d = Map.empty"
    using device_run_media(1)[OF r(3)] device_run_media(2)[OF d fl] by auto
qed

theorem stop_is_final_witness:
  "\<forall>tn dst. \<exists>sh d. device_run (device_new sh) ([] @ AppStop # [MediaTurn tn]) = Ret d \<and>
     try_read 0 0 dst (dv_shared d) = Ret (dv_shared d, dst, Inl Stopped) \<and> \<not> dv_media d"
proof (intro allI)
  fix tn dst
  obtain d where d: "device_run (device_new demo_device) ([] @ AppStop # [MediaTurn tn]) = Ret d"
    using device_run_ok[OF device_new_ok[OF start_shared_ok(1)[OF demo_start]]] by blast
  then show "\<exists>sh d. device_run (device_new sh) ([] @ AppStop # [MediaTurn tn]) = Ret d \<and>
      try_read 0 0 dst (dv_shared d) = Ret (dv_shared d, dst, Inl Stopped) \<and> \<not> dv_media d"
    using stop_is_final[OF demo_start d, of 0 0 dst tn] by (intro exI[of _ demo_device] exI[of _ d]) auto
qed

text \<open>
  C3: whatever packets, answers, replies and calls come, in whatever order the threads and
  tasks of a started device take their turns, none of them panics, and the device keeps what
  its parts rely on: its settings and its identity, one subscription, one name and one lane
  of the ring per channel, a channel of the ring live exactly while it is subscribed, and
  every flow of the media thread for one channel of the device in its own format.
\<close>

theorem device_invariant:
  assumes "start_shared os_pid ifaces s = Ret (Inr sh)"
  defines "n \<equiv> unat (st_rx_channels s)"
  shows "\<exists>d. device_run (device_new sh) evs = Ret d \<and>
    (let sh' = dv_shared d; r = sh_ring sh' in
       sh_settings sh' = s \<and> sh_identity sh' = sh_identity sh \<and>
       length (sh_subs sh') = n \<and> length (sh_rx_names sh') = n \<and> ring_ok r \<and> ring_nchan r = n \<and>
       patched r = map subscribed (sh_subs sh') \<and>
       (\<forall>k f. dv_flows d k = Some f \<longrightarrow> mf_id f = k \<and> (\<exists>i < n. mf_map f = [Some i]) \<and> mf_nchan f = 1 \<and>
          mf_bytes f = bytes_of (st_bits s) \<and> mf_rate f = st_sample_rate s))"
proof -
  note start = start_shared_ok[OF assms(1)]
  obtain d where d: "device_run (device_new sh) evs = Ret d" "device_ok d" "same_config sh (dv_shared d)"
    using device_run_ok[OF device_new_ok[OF start(1)]] by (auto simp: device_new_def)
  have cfg: "sh_settings (dv_shared d) = s" "sh_identity (dv_shared d) = sh_identity sh"
    using d(3) start(2) by (simp_all add: same_config_def)
  have "shared_ok (dv_shared d)" "flows_ok s (dv_flows d)" using d(2) cfg by (simp_all add: device_ok_def)
  note sh = shared_okD[OF this(1), unfolded cfg] and fl = this(2)
  show ?thesis
    using d(1) cfg sh(3-7) fl by (intro exI[of _ d]) (auto simp: Let_def n_def flows_ok_def flow_ok_def)
qed

theorem device_invariant_witness:
  "\<exists>d. device_run (device_new demo_device) [AppWakeup, CmcTurn (Packet [1, 2] ((127, 0, 0, 1), 5000)), MdnsStart 5 0, InfoStart, AppStop] = Ret d \<and>
     length (sh_subs (dv_shared d)) = 1"
proof -
  have "unat (st_rx_channels (default_settings 7)) = 1" by (simp add: default_settings_def)
  then show ?thesis
    using device_invariant[OF demo_start,
      of "[AppWakeup, CmcTurn (Packet [1, 2] ((127, 0, 0, 1), 5000)), MdnsStart 5 0, InfoStart, AppStop]"]
    by (auto simp: Let_def)
qed

end
