(* ===== verification/Started.thy ===== *)
theory Started
  imports Whole_Device
begin

text \<open>
  What a start makes before it starts a thread: the identity is well-formed whatever the
  interface and the process are; and when the control ports are the device's own.
\<close>

section \<open>The identity\<close>

text \<open>What the types of the program say of its inputs: a \<open>MacAddr\<close> has six octets, a device id eight.\<close>

definition typed_input :: "netdev_iface list \<Rightarrow> settings \<Rightarrow> bool" where
  "typed_input ifaces s \<longleftrightarrow>
     (\<forall>i \<in> set ifaces. case nd_mac i of Some m \<Rightarrow> length m = 6 | None \<Rightarrow> True) \<and>
     (case st_device_id s of Some i \<Rightarrow> length i = 8 | None \<Rightarrow> True)"

lemma length_from_netdev_mac:
  "case nd_mac i of Some m \<Rightarrow> length m = 6 | None \<Rightarrow> True \<Longrightarrow> length (if_mac (from_netdev i ip m)) = 6"
  by (auto simp: from_netdev_def Let_def split: option.splits)

lemma length_find_addr_mac:
  "\<forall>i \<in> set is. case nd_mac i of Some m \<Rightarrow> length m = 6 | None \<Rightarrow> True \<Longrightarrow> find_addr ip is = Some info \<Longrightarrow>
   length (if_mac info) = 6"
  by (induction "is") (auto simp: length_from_netdev_mac split: option.splits)

lemma length_find_named_mac:
  "\<forall>i \<in> set is. case nd_mac i of Some m \<Rightarrow> length m = 6 | None \<Rightarrow> True \<Longrightarrow> find_named name w is = Inr info \<Longrightarrow>
   length (if_mac info) = 6"
  by (induction "is") (auto simp: length_from_netdev_mac reject_eq split: option.splits if_splits)

lemma length_resolve_mac:
  assumes "\<forall>i \<in> set ifaces. case nd_mac i of Some m \<Rightarrow> length m = 6 | None \<Rightarrow> True" "resolve ifaces b = Inr info"
  shows "length (if_mac info) = 6"
proof -
  have "length (if_mac (find_by_ip ifaces ip)) = 6" for ip
    using length_find_addr_mac[OF assms(1)] by (auto simp: find_by_ip_def loopback_def split: option.split)
  then show ?thesis
    using assms(2) length_find_named_mac[OF assms(1)]
    by (auto simp: resolve_def find_by_name_def reject_eq split: bind.splits option.splits if_splits)
qed

lemma device_id_of_ok:
  assumes "case st_device_id s of Some i \<Rightarrow> length i = 8 | None \<Rightarrow> True" "length (if_mac iface) = 6"
  shows "\<exists>i. device_id_of s iface pid = Ret i \<and> length i = 8"
proof -
  obtain a b c d where ip: "if_ipv4 iface = (a, b, c, d)" by (cases "if_ipv4 iface")
  obtain u v w x y z where mac: "if_mac iface = [u, v, w, x, y, z]"
    using assms(2) by (auto simp: numeral_eq_Suc length_Suc_conv)
  show ?thesis using assms(1) by (auto simp: device_id_of_def ip mac idx_def split: option.split)
qed

text \<open>The bytes of a host label that is plain ASCII.\<close>

definition label_byte :: "u8 \<Rightarrow> bool" where
  "label_byte b \<longleftrightarrow> ascii_alphanumeric b \<or> b = 45"

lemma host_label_ascii:
  assumes "n \<noteq> []" "length n \<le> 63" "\<forall>b \<in> set n. label_byte b"
  shows "host_label n"
proof -
  have "list_all (\<lambda>b. b < 0x80) n" using assms(3) alphanumeric_ascii by (auto simp: list_all_iff label_byte_def)
  moreover have "\<not> label_byte dot" by (simp add: label_byte_def dot_def ascii_alphanumeric_def)
  ultimately show ?thesis using assms valid_utf8_ascii by (auto simp: host_label_def good_label_def)
qed

lemma hex_digit_label: "n < 16 \<Longrightarrow> label_byte (hex_digit n)"
proof -
  assume "n < 16"
  then have "n \<in> set [0..<16]" by simp
  then show "label_byte (hex_digit n)"
    by (auto simp: upt_rec label_byte_def hex_digit_def ascii_alphanumeric_def)
qed

lemma hex_id_label: "b \<in> set (hex_id bs) \<Longrightarrow> label_byte b"
proof -
  have "unat x < 256" for x :: u8 using unsigned_less[of x] by simp
  then have "unat x div 16 < 16" for x :: u8 by (simp add: less_mult_imp_div_less)
  then show "b \<in> set (hex_id bs) \<Longrightarrow> label_byte b"
    by (auto simp: hex_id_def show_hex2_def intro!: hex_digit_label)
qed

lemma length_hex_id: "length (hex_id bs) = 2 * length bs"
  by (induction bs) (simp_all add: hex_id_def show_hex2_def)

lemma factory_name_eq: "length i = 8 \<Longrightarrow> factory_name i = lit ''netaudio-'' @ hex_id i"
  by (simp add: factory_name_def length_hex_id Let_def lit_def)

lemma factory_name_label: "length i = 8 \<Longrightarrow> host_label (factory_name i)"
  by (rule host_label_ascii)
    (auto simp: factory_name_eq length_hex_id lit_def hex_id_label, auto simp: label_byte_def ascii_alphanumeric_def)

lemma identity_typed:
  assumes "typed_input ifaces s"
  shows "case start_shared os_pid ifaces s of
    Panic \<Rightarrow> False
  | Ret (Inl e) \<Rightarrow> True
  | Ret (Inr sh) \<Rightarrow>
      (let i = sh_identity sh in
         length (id_device_id i) = 8 \<and> host_label (id_friendly i) \<and> length (id_friendly i) \<le> 31 \<and>
         host_label (id_factory i) \<and> length (id_factory i) \<le> 31 \<and>
         length (id_rx_names i) = unat (st_rx_channels s) \<and> 0 < length (id_rx_names i) \<and>
         (usable_ip (id_ip i) \<or> (\<exists>name. st_bind s = BindInterface name \<and> parse_ipv4 name = Some (id_ip i))))"
proof (cases "validate s")
  case (Inl e)
  then show ?thesis by (simp add: start_shared_def)
next
  case (Inr u)
  show ?thesis
  proof (cases "resolve ifaces (st_bind s)")
    case (Inl e)
    then show ?thesis using Inr by (simp add: start_shared_def)
  next
    case iface: (Inr iface)
    have mac: "length (if_mac iface) = 6" using assms iface length_resolve_mac by (auto simp: typed_input_def)
    define pid where "pid = (if st_process_id s = 0 then ucast os_pid else st_process_id s)"
    obtain i where i: "device_id_of s iface pid = Ret i" "length i = 8"
      using device_id_of_ok[OF _ mac, of s pid] assms by (auto simp: typed_input_def)
    have name: "host_label (st_name s)" "length (st_name s) \<le> 31"
      using validate_Inr(5-7)[OF Inr] by (auto intro!: host_label_ascii simp: label_byte_def)
    have fac: "host_label (factory_name i)" "length (factory_name i) \<le> 31"
      using factory_name_label[OF i(2)] by (simp_all add: factory_name_eq i(2) length_hex_id lit_def)
    have rx: "length (rx_names_of s) = unat (st_rx_channels s)" "0 < unat (st_rx_channels s)"
      using length_rx_names_of Inr validate_Inr(2)[OF Inr] by simp_all
    have ne: "rx_names_of s \<noteq> []" using rx by auto
    have ip: "usable_ip (if_ipv4 iface) \<or>
        (\<exists>name. st_bind s = BindInterface name \<and> parse_ipv4 name = Some (if_ipv4 iface))"
      using iface find_named_Inr
      by (auto simp: resolve_def find_by_name_def reject_eq split: bind.splits option.splits if_splits)
    obtain pa pc pf pi where ports: "device_ports (st_alt_port s) = (pa, pc, pf, pi)"
      by (cases "device_ports (st_alt_port s)") auto
    show ?thesis
      using Inr iface i name fac rx ne ip by (simp add: start_shared_def Let_def ports flip: pid_def)
  qed
qed

lemma demo_id: "length (id_device_id (sh_identity demo_device)) = 8"
proof -
  have "typed_input [] (default_settings 7)" by (simp add: typed_input_def default_settings_def)
  from identity_typed[OF this, of 7] show ?thesis by (simp add: demo_start Let_def)
qed

section \<open>The control ports\<close>

lemma unat_saturating_add16: "unat (saturating_add16 a b) = min (unat a + unat b) 65535"
proof -
  have "unat a + unat b < 65536 \<Longrightarrow> unat (a + b) = unat a + unat b"
    by (subst unat_add_lem[THEN iffD1]) simp_all
  then show ?thesis by (auto simp: saturating_add16_def)
qed

text \<open>
  The ARC, CMC and info ports of a device differ exactly if \<open>alt_port\<close> is neither 65534
  nor 65535, and the ARC port, which the device announces, is a real port exactly if \<open>alt_port\<close>
  is not 0; settings are valid with any \<open>alt_port\<close>.
\<close>

theorem control_ports_distinct:
  assumes "start_shared os_pid ifaces s = Ret (Inr sh)"
  shows "(distinct [id_arc_port (sh_identity sh), id_cmc_port (sh_identity sh), id_info_port (sh_identity sh)] \<longleftrightarrow>
      st_alt_port s \<notin> {Some 65534, Some 65535}) \<and>
    (id_arc_port (sh_identity sh) \<noteq> 0 \<longleftrightarrow> st_alt_port s \<noteq> Some 0) \<and>
    validate (s\<lparr>st_alt_port := p\<rparr>) = Inr ()"
proof -
  obtain pa pc pf pi where ports: "device_ports (st_alt_port s) = (pa, pc, pf, pi)"
    by (cases "device_ports (st_alt_port s)") auto
  have v: "validate s = Inr ()" using start_shared_ok(4)[OF assms] .
  obtain iface where "resolve ifaces (st_bind s) = Inr iface"
    using assms v by (cases "resolve ifaces (st_bind s)") (simp_all add: start_shared_def)
  then have i: "id_arc_port (sh_identity sh) = pa" "id_cmc_port (sh_identity sh) = pc" "id_info_port (sh_identity sh) = pi"
    using assms v by (auto simp: start_shared_def Let_def obind_eq_Ret_iff ports)
  have "validate (s\<lparr>st_alt_port := p\<rparr>) = Inr ()"
    using v by (auto simp: validate_def split: if_splits sum.splits option.splits bind.splits)
  moreover have "(distinct [pa, pc, pi] \<longleftrightarrow> st_alt_port s \<notin> {Some 65534, Some 65535}) \<and> (pa \<noteq> 0 \<longleftrightarrow> st_alt_port s \<noteq> Some 0)"
  proof (cases "st_alt_port s")
    case None
    then show ?thesis using ports by (auto simp: device_ports_def)
  next
    case (Some a)
    have u: "unat x = unat y \<longleftrightarrow> x = y" for x y :: u16 by (rule word_unat_eq_iff[symmetric])
    have b: "unat a < 65536" using unsigned_less[of a] by simp
    have lit: "unat (65534 :: u16) = 65534" "unat (65535 :: u16) = 65535" by simp_all
    have p: "pa = a" "unat pc = min (unat a + 1) 65535" "unat pi = min (unat a + 3) 65535"
      using ports Some by (auto simp: device_ports_def unat_saturating_add16)
    have "distinct [pa, pc, pi] \<longleftrightarrow> unat a \<noteq> 65534 \<and> unat a \<noteq> 65535"
      using b unfolding distinct.simps list.set insert_iff empty_iff u[symmetric] p by auto
    moreover have "st_alt_port s \<notin> {Some 65534, Some 65535} \<longleftrightarrow> unat a \<noteq> 65534 \<and> unat a \<noteq> 65535"
      using u[of a 65534] u[of a 65535] Some by (auto simp: lit)
    ultimately show ?thesis using p(1) Some by auto
  qed
  ultimately show ?thesis using i by simp
qed

theorem control_ports_distinct_witness:
  "id_arc_port (sh_identity demo_device) \<noteq> 0 \<and>
   id_arc_port (sh_identity demo_device) \<noteq> id_cmc_port (sh_identity demo_device)"
proof -
  have "st_alt_port (default_settings 7) = None" by (simp add: default_settings_def)
  then show ?thesis using control_ports_distinct[OF demo_start, of None] by auto
qed

end
