(* ===== verification/Discovery.thy ===== *)
theory Discovery
  imports Query Started
begin

text \<open>
  Two devices on a network: what the responder of one (\<open>src/net/mdns.rs\<close>, function
  \<open>run\<close>) answers to the query of the other, and what that makes of the answer.
\<close>

section \<open>An announcement fits the buffer\<close>

lemma announcement_length:
  assumes "host_label h" "length h \<le> 31" "length ip = 4" "length hex = 16"
    and "length board + 2 * length mf + 2 * length model \<le> 600"
  shows "length (message_bytes (build_announcement h ip arc cmc hex pid board mf model)) \<le> 1500"
proof -
  have names: "length (name_bytes ARC_SERVICE) \<le> 26" "length (name_bytes CMC_SERVICE) \<le> 26"
    "length (name_bytes (host_local h)) \<le> 39" "length (name_bytes (service_instance h ARC_SERVICE)) \<le> 58"
    "length (name_bytes (service_instance h CMC_SERVICE)) \<le> 58"
    using length_name_bytes[OF services_good(1)] length_name_bytes[OF services_good(2)]
      length_name_bytes[OF host_local_good[OF assms(1)]] length_name_bytes[OF service_instance_good(1)[OF assms(1)]]
      length_name_bytes[OF service_instance_good(2)[OF assms(1)]] assms(2)
    by (simp_all add: host_local_def service_instance_def ARC_SERVICE_def CMC_SERVICE_def lit_def)
  then show ?thesis
    using assms(3-) length_show_u16[of pid]
    by (simp add: build_announcement_def Let_def message_bytes_def record_bytes_def data_bytes_def arc_txt_def cmc_txt_def
      txt_kv_def lit_def)
qed

text \<open>
  Texts that are longer than the byte before them can say are not bounded by the settings'
  validation. Such a text is read as others: the length of 256 bytes is written as zero.
\<close>

definition long_text :: bytes where
  "long_text = replicate 98 97 @ replicate 98 97 @ 59 # replicate 59 97"

definition text_message :: "bytes list \<Rightarrow> message" where
  "text_message strs = \<lparr>m_id = 0, m_flags = FLAGS_RESPONSE, m_questions = [], m_answers = [],
     m_additionals = [\<lparr>r_name = ARC_SERVICE, r_rtype = QTYPE_TXT, r_class = CLASS_FLUSH, r_ttl = TTL_HOST, r_data = Txt strs\<rparr>]\<rparr>"

lemma long_text_misread:
  "\<exists>bs. mdns_encode (text_message [long_text]) = Ret bs \<and>
     mdns_decode bs = Ret (Some (text_message [[], replicate 97 97, replicate 97 97, replicate 59 97]))"
proof -
  let ?strs = "[[], replicate 97 97, replicate 97 97, replicate 59 97] :: bytes list"
  have "good_data (Txt ?strs)" by (rule good_txt) simp_all
  then have "good_message (text_message ?strs)"
    using services_good(1) by (simp add: good_message_def text_message_def good_record_def data_type_def)
  moreover have "data_bytes (Txt [long_text]) = data_bytes (Txt ?strs)" by code_simp
  then have "message_bytes (text_message [long_text]) = message_bytes (text_message ?strs)"
    by (simp add: message_bytes_def text_message_def record_bytes_def data_type_def)
  ultimately show ?thesis using mdns_decode_encode by (simp add: mdns_encode_eq)
qed

section \<open>Which queries a device answers\<close>

lemma names_match_length: "names_match a b \<Longrightarrow> length (trim_end_byte dot a) = length (trim_end_byte dot b)"
  unfolding names_match_def eq_ignore_ascii_case_def by (metis length_map)

lemma length_trim_end: "length (trim_end_byte b n) \<le> length n"
  using length_dropWhile_le[of "\<lambda>x. x = b" "rev n"] by (simp add: trim_end_byte_def)

text \<open>A channel's name is longer than every name a device answers to.\<close>

lemma chan_instance_unanswered: "\<not> should_answer (query_message (chan_instance ch h) qtype) h"
proof -
  have trim: "trim_end_byte dot (chan_instance ch h) = chan_instance ch h"
    by (simp add: trim_end_byte_def chan_instance_def CHAN_SERVICE_def lit_def dot_def)
  have "\<not> names_match (chan_instance ch h) n" if "length n < length (chan_instance ch h)" for n
    using names_match_length[of "chan_instance ch h" n] length_trim_end[of dot n] that by (auto simp: trim)
  then show ?thesis
    by (simp add: should_answer_def query_message_def Let_def FLAGS_QUERY_def chan_instance_def service_instance_def
      host_local_def ARC_SERVICE_def CMC_SERVICE_def CHAN_SERVICE_def lit_def)
qed

lemma arc_instance_answered: "should_answer (query_message (service_instance h ARC_SERVICE) qtype) h"
  by (simp add: should_answer_def query_message_def FLAGS_QUERY_def names_match_def eq_ignore_ascii_case_def)

lemma query_good: "good_name n \<Longrightarrow> good_message (query_message n qtype)"
  by (simp add: good_message_def query_message_def)

lemma query_length: "good_name n \<Longrightarrow> length (message_bytes (query_message n qtype)) \<le> length n + 18"
  using length_name_bytes[of n] by (simp add: query_message_def message_bytes_def question_bytes_def)

section \<open>What an announcement says\<close>

definition announcement_of :: "shared \<Rightarrow> message" where
  "announcement_of sh =
     (let i = sh_identity sh; st = sh_settings sh
      in build_announcement (id_friendly i) (octets (id_ip i)) (id_arc_port i) (id_cmc_port i)
           (hex_id (id_device_id i)) (id_process_id i) (st_board st) (st_manufacturer st) (st_model st))"

lemma announce_eq: "announce sh = Ret (message_bytes (announcement_of sh))"
  by (simp add: announce_def announcement_of_def Let_def mdns_encode_eq)

text \<open>The texts of an announcement: of what a resolver looks for only \<open>id\<close> is among them.\<close>

lemma txt_get_skip:
  "take (length key + 1) s \<noteq> key @ [61] \<Longrightarrow> txt_get (s # strs) key = txt_get strs key"
  by (simp add: from_utf8_def strip_prefix_def)

lemma arc_txt_values:
  "txt_rate (arc_txt board mf model) = None" "txt_id (arc_txt board mf model) = None" "txt_fpp (arc_txt board mf model) = None"
  by (simp_all add: txt_rate_def txt_id_def txt_fpp_def arc_txt_def txt_kv_def lit_def txt_get_skip del: txt_get.simps(2))

lemma cmc_txt_values:
  "txt_rate (cmc_txt hex pid mf model) = None" "txt_fpp (cmc_txt hex pid mf model) = None"
  "valid_utf8 (txt_kv (lit ''id'') hex) \<Longrightarrow> txt_id (cmc_txt hex pid mf model) = parse_u16 hex"
proof -
  show "txt_rate (cmc_txt hex pid mf model) = None" "txt_fpp (cmc_txt hex pid mf model) = None"
    by (simp_all add: txt_rate_def txt_fpp_def cmc_txt_def txt_kv_def lit_def txt_get_skip del: txt_get.simps(2))
  show "txt_id (cmc_txt hex pid mf model) = parse_u16 hex" if "valid_utf8 (txt_kv (lit ''id'') hex)"
    unfolding txt_id_def cmc_txt_def using txt_get_kv[OF that] by simp
qed

lemma chan_instance_longer:
  "\<not> names_match (service_instance h ARC_SERVICE) (chan_instance ch h)" "\<not> names_match (service_instance h CMC_SERVICE) (chan_instance ch h)"
proof -
  have trim: "trim_end_byte dot (chan_instance ch h) = chan_instance ch h"
    by (simp add: trim_end_byte_def chan_instance_def CHAN_SERVICE_def lit_def dot_def)
  have "\<not> names_match n (chan_instance ch h)" if "length n < length (chan_instance ch h)" for n
    using names_match_length[of n "chan_instance ch h"] length_trim_end[of dot n] that by (auto simp: trim)
  then show "\<not> names_match (service_instance h ARC_SERVICE) (chan_instance ch h)"
    "\<not> names_match (service_instance h CMC_SERVICE) (chan_instance ch h)"
    by (simp_all add: chan_instance_def service_instance_def ARC_SERVICE_def CMC_SERVICE_def CHAN_SERVICE_def lit_def)
qed

lemma announcement_resolved:
  assumes "valid_utf8 (txt_kv (lit ''id'') hex)"
  shows "resolve_answers own_rate h ch (Inr None) (Inr (Some (build_announcement h (octets ip) arc cmc hex pid board mf model))) =
    Inr \<lparr>rt_flows_addr = (ip, 4455), rt_sample_rate = own_rate,
      rt_tx_channel_id = (case parse_u16 hex of Some n \<Rightarrow> n | None \<Rightarrow> channel_number ch), rt_fpp_max = 16, rt_fpp_min = 2\<rparr>"
proof -
  have "from_octets (octets ip) = ip" by (cases ip) simp
  moreover note cmc = cmc_txt_values(1,2) cmc_txt_values(3)[OF assms]
  ultimately show ?thesis
    unfolding resolve_answers_def consider_msg_def consider_records
    by (simp add: build_announcement_def Let_def records_facts_def record_port_def record_address_def record_txt_def
      chan_instance_longer arc_txt_values cmc split: option.split)
qed

section \<open>One device finds another\<close>

text \<open>What a device answers to a well-formed message that its buffer holds.\<close>

lemma mdns_respond_message:
  assumes "good_message m" "length (message_bytes m) \<le> 1500"
  shows "mdns_respond sh src (message_bytes m) =
    Ret (if should_answer m (id_friendly (sh_identity sh))
         then (MDNS_DEST, message_bytes (announcement_of sh)) #
           (if snd src \<noteq> 5353 then [(src, message_bytes (announcement_of sh))] else [])
         else [])"
  using assms(2) mdns_decode_encode[OF assms(1)] by (simp add: mdns_respond_def announce_eq)

lemma mdns_query_silent:
  assumes "bind_querier os ip = Inr p" "os_option os (lit ''read_timeout'') = None"
  shows "mdns_query os ip name qtype None (RecvFailed TimedOut) =
    Ret ([(MDNS_DEST, message_bytes (query_message name qtype))], Inr None)"
  using assms by (simp add: mdns_query_def call_def mdns_encode_eq)

lemma mdns_query_message:
  assumes "bind_querier os ip = Inr p" "os_option os (lit ''read_timeout'') = None"
    and "good_message m" "length (message_bytes m) \<le> 1500"
  shows "mdns_query os ip name qtype None (Packet (message_bytes m) src) =
    Ret ([(MDNS_DEST, message_bytes (query_message name qtype))], Inr (Some m))"
  using mdns_query_answered[OF assms(1-3) mdns_encode_eq assms(4)] by (auto simp: mdns_encode_eq)

lemma channel_name_good:
  assumes "host_label (ch @ 64 # h)"
  shows "good_name (chan_instance ch h)" "length (chan_instance ch h) \<le> 100"
proof -
  have "good_name CHAN_SERVICE" by code_simp
  then show "good_name (chan_instance ch h)"
    using good_name_prepend[OF assms, of CHAN_SERVICE] by (simp add: chan_instance_def CHAN_SERVICE_def lit_def)
  show "length (chan_instance ch h) \<le> 100"
    using assms by (simp add: chan_instance_def CHAN_SERVICE_def lit_def host_label_def good_label_def)
qed

text \<open>What a device that has started announces is well-formed and fits the buffer of every other.\<close>

lemma started_announcement:
  assumes "typed_input ifaces s" "start_shared os_pid ifaces s = Ret (Inr sh)"
    and "length (st_board s) \<le> 243" "length (st_manufacturer s) \<le> 252" "length (st_model s) \<le> 249"
      "length (st_board s) + 2 * length (st_manufacturer s) + 2 * length (st_model s) \<le> 600"
  shows "good_message (announcement_of sh)" "length (message_bytes (announcement_of sh)) \<le> 1500"
    "host_label (id_friendly (sh_identity sh))" "length (id_friendly (sh_identity sh)) \<le> 31"
    "valid_utf8 (txt_kv (lit ''id'') (hex_id (id_device_id (sh_identity sh))))"
proof -
  define i where "i = sh_identity sh"
  have t: "length (id_device_id i) = 8" "host_label (id_friendly i)" "length (id_friendly i) \<le> 31"
    using identity_typed[OF assms(1), of os_pid] assms(2) by (simp_all add: i_def Let_def)
  have st: "sh_settings sh = s" using start_shared_ok(2)[OF assms(2)] .
  have hex: "length (hex_id (id_device_id i)) = 16" using t(1) by (simp add: length_hex_id)
  show "good_message (announcement_of sh)" "length (message_bytes (announcement_of sh)) \<le> 1500"
    unfolding announcement_of_def Let_def st i_def[symmetric]
    using announcement_good[OF t(2,3)] announcement_length[OF t(2,3)] hex assms(3-) by simp_all
  show "host_label (id_friendly (sh_identity sh))" "length (id_friendly (sh_identity sh)) \<le> 31"
    using t by (simp_all add: i_def)
  have "host_label (hex_id (id_device_id i))"
    using hex hex_id_label by (intro host_label_ascii) (auto simp: length_0_conv[symmetric])
  then have "list_all (\<lambda>b. b < 0x80) (hex_id (id_device_id i))"
    using hex_id_label alphanumeric_ascii by (auto simp: list_all_iff label_byte_def)
  then show "valid_utf8 (txt_kv (lit ''id'') (hex_id (id_device_id (sh_identity sh))))"
    by (intro valid_utf8_ascii) (simp add: txt_kv_def lit_def i_def)
qed

lemma started_name:
  assumes "start_shared os_pid ifaces s = Ret (Inr sh)"
  shows "id_friendly (sh_identity sh) = st_name s"
  using assms by (cases "device_ports (st_alt_port s)") (auto simp: start_shared_def Let_def obind_eq_Ret_iff split: sum.splits)

text \<open>
  C15: one device finds another. A device asks for a channel of a second device that has started
  from settings whose texts are not too long. Of the two queries it sends, the second device does
  not answer the one for the channel, since it announces none, and answers the one for its ARC
  service to the group and, when the querier is not on the mDNS port, to the querier. The answer
  fits the buffers and is read as it was built; the device resolves the second one at its
  address, at the port devices listen on for flows, with its own rate and the number in the
  channel's name, or with the second device's id where that is a number that fits. No device
  answers the announcement.
\<close>

theorem device_finds_device:
  assumes dev: "typed_input ifaces s" "start_shared os_pid ifaces s = Ret (Inr sh)"
    and texts: "length (st_board s) \<le> 243" "length (st_manufacturer s) \<le> 252" "length (st_model s) \<le> 249"
      "length (st_board s) + 2 * length (st_manufacturer s) + 2 * length (st_model s) \<le> 600"
    and sock: "bind_querier os ip = Inr p" "os_option os (lit ''read_timeout'') = None"
    and chan: "h = st_name s" "host_label (ch @ 64 # h)"
  shows "\<exists>qc qa pkt m.
    mdns_query os ip (chan_instance ch h) QTYPE_ANY None (RecvFailed TimedOut) = Ret ([(MDNS_DEST, qc)], Inr None) \<and>
    mdns_respond sh src qc = Ret [] \<and>
    mdns_query os ip (service_instance h ARC_SERVICE) QTYPE_ANY None (Packet pkt asrc) = Ret ([(MDNS_DEST, qa)], Inr (Some m)) \<and>
    mdns_respond sh src qa = Ret ((MDNS_DEST, pkt) # (if snd src \<noteq> 5353 then [(src, pkt)] else [])) \<and>
    resolve_answers own_rate h ch (answer_of io (Inr None)) (answer_of io (Inr (Some m))) =
      Inr \<lparr>rt_flows_addr = (id_ip (sh_identity sh), 4455), rt_sample_rate = own_rate,
        rt_tx_channel_id = (case parse_u16 (hex_id (id_device_id (sh_identity sh))) of Some n \<Rightarrow> n | None \<Rightarrow> channel_number ch),
        rt_fpp_max = 16, rt_fpp_min = 2\<rparr> \<and>
    (\<forall>sh' src'. mdns_respond sh' src' pkt = Ret [])"
proof -
  note ann = started_announcement[OF dev texts]
  have name: "h = id_friendly (sh_identity sh)" using chan(1) started_name[OF dev(2)] by simp
  define qc where "qc = query_message (chan_instance ch h) QTYPE_ANY"
  define qa where "qa = query_message (service_instance h ARC_SERVICE) QTYPE_ANY"
  have qcg: "good_message qc" "length (message_bytes qc) \<le> 1500"
    using query_good[OF channel_name_good(1)[OF chan(2)]] query_length[OF channel_name_good(1)[OF chan(2)], of QTYPE_ANY]
      channel_name_good(2)[OF chan(2)] by (simp_all add: qc_def)
  have arc: "good_name (service_instance h ARC_SERVICE)" "length (service_instance h ARC_SERVICE) \<le> 60"
    using service_instance_good(1) ann(3,4) by (simp_all add: name service_instance_def ARC_SERVICE_def lit_def)
  have qag: "good_message qa" "length (message_bytes qa) \<le> 1500"
    using query_good[OF arc(1)] query_length[OF arc(1), of QTYPE_ANY] arc(2) by (simp_all add: qa_def)
  have "mdns_respond sh src (message_bytes qc) = Ret []"
    using mdns_respond_message[OF qcg] chan_instance_unanswered by (simp add: qc_def name)
  moreover have "mdns_respond sh src (message_bytes qa) = Ret ((MDNS_DEST, message_bytes (announcement_of sh)) #
      (if snd src \<noteq> 5353 then [(src, message_bytes (announcement_of sh))] else []))"
    using mdns_respond_message[OF qag] arc_instance_answered by (simp add: qa_def name)
  moreover have "mdns_respond sh' src' (message_bytes (announcement_of sh)) = Ret []" for sh' src'
    unfolding mdns_respond_message[OF ann(1,2)]
    by (simp add: should_answer_def announcement_of_def build_announcement_def Let_def FLAGS_RESPONSE_def)
  moreover have "resolve_answers own_rate h ch (Inr None) (Inr (Some (announcement_of sh))) =
      Inr \<lparr>rt_flows_addr = (id_ip (sh_identity sh), 4455), rt_sample_rate = own_rate,
        rt_tx_channel_id = (case parse_u16 (hex_id (id_device_id (sh_identity sh))) of Some n \<Rightarrow> n | None \<Rightarrow> channel_number ch),
        rt_fpp_max = 16, rt_fpp_min = 2\<rparr>"
    unfolding announcement_of_def Let_def name by (rule announcement_resolved[OF ann(5)])
  moreover note mdns_query_silent[OF sock, of "chan_instance ch h" QTYPE_ANY]
    mdns_query_message[OF sock ann(1,2), of "service_instance h ARC_SERVICE" QTYPE_ANY asrc]
  ultimately show ?thesis
    unfolding qc_def qa_def answer_of_def sum.case by blast
qed

theorem device_finds_device_witness:
  "\<exists>qa pkt m.
    mdns_query quiet_os (10, 0, 0, 9) (service_instance (lit ''netaudio'') ARC_SERVICE) QTYPE_ANY None (Packet pkt ((127, 0, 0, 1), 5353)) =
      Ret ([(MDNS_DEST, qa)], Inr (Some m)) \<and>
    mdns_respond demo_device ((10, 0, 0, 9), 50000) qa = Ret [(MDNS_DEST, pkt), (((10, 0, 0, 9), 50000), pkt)] \<and>
    (\<forall>sh' src'. mdns_respond sh' src' pkt = Ret [])"
proof -
  have os: "bind_querier quiet_os (10, 0, 0, 9) = Inr 50000" "os_option quiet_os (lit ''read_timeout'') = None"
    by (simp_all add: quiet_os_def bind_querier_def reject_eq usable_ip_def call_def set_multicast_if_v4_def)
  have typed: "typed_input [] (default_settings 7)" by (simp add: typed_input_def default_settings_def)
  have name: "lit ''netaudio'' = st_name (default_settings 7)" by (simp add: default_settings_def)
  have label: "host_label (lit ''1'' @ 64 # lit ''netaudio'')" by code_simp
  have texts: "length (st_board (default_settings 7)) \<le> 243" "length (st_manufacturer (default_settings 7)) \<le> 252"
    "length (st_model (default_settings 7)) \<le> 249"
    "length (st_board (default_settings 7)) + 2 * length (st_manufacturer (default_settings 7)) + 2 * length (st_model (default_settings 7)) \<le> 600"
    by (simp_all add: default_settings_def lit_def)
  show ?thesis
    using device_finds_device[OF typed demo_start texts os name label, of "((10, 0, 0, 9), 50000)" "((127, 0, 0, 1), 5353)"]
    by fastforce
qed

end
