(* ===== verification/Teardown.thy ===== *)
theory Teardown
  imports Whole_Device
begin

text \<open>
  The end of a device: \<open>shutdown\<close> and \<open>Drop\<close> of \<open>src/device/mod.rs\<close>, with \<open>join\<close> and
  \<open>detach\<close> of the media thread and \<open>stop\<close> of the announcer. A host is a device with its
  threads, some of which may have ended, and the operations that one of the two has still to
  do; an operation that joins a thread waits until the thread has ended.
\<close>

section \<open>The operations\<close>

datatype teardown_op =
    SignalStop
  | AwaitControl
  | AbortControl
  | JoinMedia
  | DetachMedia
  | StopAnnouncer
  | JoinAnnouncer
  | JoinPtp

text \<open>What of its handles the device holds.\<close>

record handles =
  hd_control :: bool
  hd_media :: bool
  hd_mdns :: bool
  hd_ptp :: bool

definition media_join :: "teardown_op list" where "media_join = [JoinMedia]"
definition media_detach :: "teardown_op list" where "media_detach = [DetachMedia]"
definition announcer_stop :: "teardown_op list" where "announcer_stop = [StopAnnouncer, JoinAnnouncer]"

definition device_drop :: "handles \<Rightarrow> teardown_op list" where
  "device_drop hs =
     [SignalStop] @ (if hd_media hs then media_detach else []) @ (if hd_mdns hs then announcer_stop else []) @
     (if hd_control hs then [AbortControl] else [])"

text \<open>\<open>shutdown\<close> takes every handle, so the \<open>Drop\<close> that follows it finds none.\<close>

definition device_shutdown :: "handles \<Rightarrow> teardown_op list" where
  "device_shutdown hs =
     [SignalStop] @ (if hd_control hs then [AwaitControl] else []) @ (if hd_media hs then media_join else []) @
     (if hd_mdns hs then announcer_stop else []) @ (if hd_ptp hs then [JoinPtp] else []) @
     device_drop \<lparr>hd_control = False, hd_media = False, hd_mdns = False, hd_ptp = False\<rparr>"

section \<open>The host\<close>

record host =
  ho_device :: device
  ho_announcer :: bool
  ho_mdns_stop :: bool
  ho_control :: bool
  ho_servers :: bool
  ho_ptp :: bool
  ho_todo :: "teardown_op list"

text \<open>
  The control task waits for the stop, aborts the servers and ends; a server ends when it is
  aborted or sees the stop itself, after the packet it has in hand. The listener ends when it
  finds the device stopped.
\<close>

datatype host_event =
    Ev device_event
  | ControlStops
  | ServersStop
  | PtpStops
  | Teardown

definition stopped :: "host \<Rightarrow> bool" where
  "stopped h \<longleftrightarrow> sh_stopped (dv_shared (ho_device h))"

definition tear :: "teardown_op \<Rightarrow> host \<Rightarrow> host option" where
  "tear op h =
     (let wait = (\<lambda>running. if running then None else Some h) in case op of
        SignalStop \<Rightarrow> Some (h\<lparr>ho_device := (ho_device h)\<lparr>dv_shared := signal_stop (dv_shared (ho_device h))\<rparr>\<rparr>)
      | AwaitControl \<Rightarrow> wait (ho_control h)
      | AbortControl \<Rightarrow> Some (h\<lparr>ho_control := False\<rparr>)
      | JoinMedia \<Rightarrow> wait (dv_media (ho_device h))
      | DetachMedia \<Rightarrow> Some h
      | StopAnnouncer \<Rightarrow> Some (h\<lparr>ho_mdns_stop := True\<rparr>)
      | JoinAnnouncer \<Rightarrow> wait (ho_announcer h \<and> dv_mdns (ho_device h) \<noteq> Silent)
      | JoinPtp \<Rightarrow> wait (ho_ptp h))"

text \<open>Which events the threads that have not ended allow, and the announcer's own stop in them.\<close>

fun admits :: "host \<Rightarrow> device_event \<Rightarrow> bool" where
  "admits h (ArcTurn _) = ho_servers h"
| "admits h (CmcTurn _) = ho_servers h"
| "admits h InfoStart = ho_servers h"
| "admits h (InfoTurn _) = ho_servers h"
| "admits h (MdnsStart _ _) = ho_announcer h"
| "admits h (MdnsTurn _) = ho_announcer h"
| "admits h (PtpPacket _) = ho_ptp h"
| "admits h _ = True"

fun seen :: "host \<Rightarrow> device_event \<Rightarrow> device_event" where
  "seen h (MdnsStart k now) = MdnsStart (if ho_mdns_stop h then k else 5) now"
| "seen h (MdnsTurn i) = MdnsTurn (i\<lparr>mi_stop := ho_mdns_stop h\<rparr>)"
| "seen h ev = ev"

fun host_step :: "host \<Rightarrow> host_event \<Rightarrow> host outcome" where
  "host_step h (Ev ev) =
     (if admits h ev then obind (device_step (ho_device h) (seen h ev)) (\<lambda>d. Ret (h\<lparr>ho_device := d\<rparr>)) else Ret h)"
| "host_step h ControlStops = Ret (if stopped h then h\<lparr>ho_control := False\<rparr> else h)"
| "host_step h ServersStop = Ret (if stopped h then h\<lparr>ho_servers := False\<rparr> else h)"
| "host_step h PtpStops = Ret (if stopped h then h\<lparr>ho_ptp := False\<rparr> else h)"
| "host_step h Teardown = Ret
     (case ho_todo h of
        [] \<Rightarrow> h
      | op # ops \<Rightarrow> (case tear op h of None \<Rightarrow> h | Some h' \<Rightarrow> h'\<lparr>ho_todo := ops\<rparr>))"

definition host_run :: "host \<Rightarrow> host_event list \<Rightarrow> host outcome" where
  "host_run = ofold host_step"

text \<open>The host of a device that has started, with the threads \<open>start_inner\<close> says.\<close>

definition host_new :: "thread list \<Rightarrow> shared \<Rightarrow> host" where
  "host_new threads sh =
     \<lparr>ho_device = device_new sh, ho_announcer = (Announcer \<in> set threads), ho_mdns_stop = False, ho_control = True,
      ho_servers = True, ho_ptp = (PtpListener \<in> set threads), ho_todo = []\<rparr>"

definition handles_of :: "thread list \<Rightarrow> handles" where
  "handles_of threads = \<lparr>hd_control = True, hd_media = True, hd_mdns = (Announcer \<in> set threads),
     hd_ptp = (PtpListener \<in> set threads)\<rparr>"

section \<open>Nothing panics\<close>

lemma stop_step: "device_step d AppStop = Ret (d\<lparr>dv_shared := signal_stop (dv_shared d)\<rparr>)"
  by (simp add: device_step_def)

lemma host_step_ok:
  assumes "device_ok (ho_device h)"
  shows "\<exists>h'. host_step h ev = Ret h' \<and> device_ok (ho_device h')"
proof (cases ev)
  case (Ev e)
  obtain d where "device_step (ho_device h) (seen h e) = Ret d" "device_ok d"
    using device_step_ok[OF assms] by blast
  then show ?thesis using assms Ev by simp
next
  case Teardown
  have "device_ok (ho_device h')" if "tear op h = Some h'" for op h'
    using that assms device_step_ok[OF assms, of AppStop]
    by (auto simp: tear_def stop_step split: teardown_op.splits if_splits)
  then show ?thesis using assms Teardown by (auto split: list.split option.split)
qed (use assms in simp_all)

interpretation host: fallible_machine host_step "\<lambda>_. True" "\<lambda>h. device_ok (ho_device h)"
  by unfold_locales (use host_step_ok in blast)

lemma host_run_ok: "device_ok (ho_device h) \<Longrightarrow> \<exists>h'. host_run h evs = Ret h' \<and> device_ok (ho_device h')"
  using host.run_total[of h evs] by (simp add: host_run_def list_all_iff)

section \<open>What stays\<close>

definition stable :: "(host \<Rightarrow> bool) \<Rightarrow> bool" where
  "stable P \<longleftrightarrow> (\<forall>h ev h'. P h \<longrightarrow> host_step h ev = Ret h' \<longrightarrow> P h')"

lemma stableD: "stable P \<Longrightarrow> P h \<Longrightarrow> host_step h ev = Ret h' \<Longrightarrow> P h'"
  unfolding stable_def by blast

lemma stable_run: "stable P \<Longrightarrow> P h \<Longrightarrow> host_run h evs = Ret h' \<Longrightarrow> P h'"
proof (induction evs arbitrary: h)
  case (Cons ev evs)
  then obtain h1 where "host_step h ev = Ret h1" "host_run h1 evs = Ret h'" by (auto simp: host_run_def obind_eq_Ret_iff)
  with Cons show ?case using stableD by blast
qed (simp add: host_run_def)

lemma stable_conj: "stable P \<Longrightarrow> stable Q \<Longrightarrow> stable (\<lambda>h. P h \<and> Q h)"
  unfolding stable_def by blast

text \<open>An event among others brings about what stays.\<close>

lemma run_reaches:
  assumes "stable Q" "stable P" "\<And>h h'. Q h \<Longrightarrow> host_step h ev = Ret h' \<Longrightarrow> P h'"
    and "ev \<in> set evs" "Q h" "host_run h evs = Ret h'"
  shows "P h'"
proof -
  obtain xs ys where evs: "evs = xs @ ev # ys" using assms(4) by (meson split_list)
  then obtain h1 h2 where run: "host_run h xs = Ret h1" "host_step h1 ev = Ret h2" "host_run h2 ys = Ret h'"
    using assms(6) by (auto simp: host_run_def ofold_append obind_eq_Ret_iff)
  then have "P h2" using stable_run[OF assms(1,5)] assms(3) by blast
  then show ?thesis using stable_run[OF assms(2)] run(3) by blast
qed

text \<open>A step of the host is none or one of the device; its threads only end and its operations only go on.\<close>

lemma tear_device:
  "tear op h = Some h' \<Longrightarrow> ho_device h' = ho_device h \<or> device_step (ho_device h) AppStop = Ret (ho_device h')"
  "tear op h = Some h' \<Longrightarrow> ho_control h' \<longrightarrow> ho_control h" "tear op h = Some h' \<Longrightarrow> ho_servers h' = ho_servers h"
  "tear op h = Some h' \<Longrightarrow> ho_ptp h' = ho_ptp h" "tear op h = Some h' \<Longrightarrow> ho_announcer h' = ho_announcer h"
  "tear op h = Some h' \<Longrightarrow> ho_todo h' = ho_todo h"
  by (auto simp: tear_def stop_step split: teardown_op.splits if_splits)

lemma host_step_device:
  assumes "host_step h ev = Ret h'"
  shows "ho_device h' = ho_device h \<or> (\<exists>e. device_step (ho_device h) e = Ret (ho_device h') \<and>
    (e = AppStop \<or> (\<exists>e0. ev = Ev e0 \<and> admits h e0 \<and> e = seen h e0)))"
proof (cases ev)
  case (Ev e0)
  then show ?thesis using assms by (auto simp: obind_eq_Ret_iff split: if_splits)
next
  case Teardown
  then show ?thesis using assms by (auto dest!: tear_device(1) split: list.splits option.splits)
qed (use assms in \<open>auto split: if_splits\<close>)

lemma host_step_threads:
  assumes "host_step h ev = Ret h'"
  shows "ho_control h' \<longrightarrow> ho_control h" "ho_servers h' \<longrightarrow> ho_servers h" "ho_ptp h' \<longrightarrow> ho_ptp h"
    "ho_announcer h' = ho_announcer h" "length (ho_todo h') \<le> length (ho_todo h)"
  using assms tear_device(2-)
  by (cases ev; fastforce simp: obind_eq_Ret_iff split: if_splits list.splits option.splits)+

lemma stable_stopped: "stable stopped"
  unfolding stable_def stopped_def
  by (metis host_step_device device_step_stopped(1))

lemma stable_ended:
  "stable (\<lambda>h. \<not> ho_control h)" "stable (\<lambda>h. \<not> ho_servers h)" "stable (\<lambda>h. \<not> ho_ptp h)"
  "stable (\<lambda>h. length (ho_todo h) \<le> n)" "stable (\<lambda>h. \<not> dv_media (ho_device h))"
  unfolding stable_def using host_step_threads apply blast
  using host_step_threads apply blast
  using host_step_threads apply blast
  using host_step_threads(5) le_trans apply blast
  using host_step_device device_step_stopped(2) by metis

lemma device_step_mdns:
  assumes "device_step d ev = Ret d'"
  shows "dv_mdns d = Silent \<Longrightarrow> dv_mdns d' = Silent" "dv_mdns d \<noteq> NotAnnounced \<Longrightarrow> dv_mdns d' \<noteq> NotAnnounced"
proof -
  have "(dv_mdns d = Silent \<longrightarrow> dv_mdns d' = Silent) \<and> (dv_mdns d \<noteq> NotAnnounced \<longrightarrow> dv_mdns d' \<noteq> NotAnnounced)"
    using assms
    by (cases ev) (auto simp: device_step_def Let_def obind_eq_Ret_iff sends_def split: if_splits option.split_asm announcer.split_asm)
  then show "dv_mdns d = Silent \<Longrightarrow> dv_mdns d' = Silent" "dv_mdns d \<noteq> NotAnnounced \<Longrightarrow> dv_mdns d' \<noteq> NotAnnounced"
    by simp_all
qed

text \<open>How far the announcer is.\<close>

definition announcing :: "host \<Rightarrow> bool" where
  "announcing h \<longleftrightarrow> ho_announcer h \<longrightarrow> dv_mdns (ho_device h) \<noteq> NotAnnounced"

definition silenced :: "host \<Rightarrow> bool" where
  "silenced h \<longleftrightarrow> ho_announcer h \<longrightarrow> dv_mdns (ho_device h) = Silent"

lemma stable_announcer: "stable announcing" "stable silenced"
  unfolding stable_def announcing_def silenced_def
  using host_step_device host_step_threads(4) device_step_mdns by metis+

section \<open>The shutdown ends\<close>

text \<open>A round: events in which every thread gets a turn.\<close>

definition fair_round :: "host_event list \<Rightarrow> bool" where
  "fair_round es \<longleftrightarrow> {Teardown, ControlStops, ServersStop, PtpStops} \<subseteq> set es \<and>
     (\<exists>tn. Ev (MediaTurn tn) \<in> set es) \<and> (\<exists>k now. Ev (MdnsStart k now) \<in> set es) \<and> (\<exists>i. Ev (MdnsTurn i) \<in> set es)"

definition ended :: "host \<Rightarrow> bool" where
  "ended h \<longleftrightarrow> stopped h \<and> \<not> ho_control h \<and> \<not> ho_servers h \<and> \<not> ho_ptp h \<and> \<not> dv_media (ho_device h) \<and> silenced h"

lemma stable_ended_all: "stable ended"
  unfolding ended_def using stable_ended stable_announcer stable_stopped by (intro stable_conj)

lemma round_stops:
  assumes "fair_round es" "host_run h es = Ret h'" "stopped h \<or> (\<exists>ops. ho_todo h = SignalStop # ops)"
  shows "stopped h'"
proof -
  let ?Q = "\<lambda>h. stopped h \<or> (\<exists>ops. ho_todo h = SignalStop # ops)"
  have one: "?Q h2" if "?Q h1" "host_step h1 ev = Ret h2" for h1 h2 ev
    using that stableD[OF stable_stopped]
    by (cases ev) (fastforce simp: tear_def stopped_def signal_stop_def stopped_frames obind_eq_Ret_iff split: if_splits)+
  have "stable ?Q" unfolding stable_def using one by blast
  moreover have "stopped h2" if "?Q h1" "host_step h1 Teardown = Ret h2" for h1 h2
    using that stableD[OF stable_stopped _ that(2)] by (auto simp: tear_def stopped_def signal_stop_def stopped_frames)
  moreover have "Teardown \<in> set es" using assms(1) by (simp add: fair_round_def)
  ultimately show ?thesis
    using run_reaches[where Q = ?Q and P = stopped and ev = Teardown] stable_stopped assms(2,3) by blast
qed

lemma round_ends:
  assumes "fair_round es" "host_run h es = Ret h'" "stopped h"
  shows "\<not> ho_control h' \<and> \<not> ho_servers h' \<and> \<not> ho_ptp h' \<and> \<not> dv_media (ho_device h') \<and> announcing h'"
proof -
  note reach = run_reaches[where Q = stopped, OF stable_stopped _ _ _ assms(3,2)]
  obtain tn k now where ev: "Ev (MediaTurn tn) \<in> set es" "Ev (MdnsStart k now) \<in> set es"
    using assms(1) by (auto simp: fair_round_def)
  have "announcing h2" if "host_step h1 (Ev (MdnsStart k now)) = Ret h2" for h1 h2
    using that by (auto simp: obind_eq_Ret_iff announcing_def device_step_def Let_def sends_def split: if_splits)
  then have "announcing h'" by (intro reach[OF stable_announcer(1) _ ev(2)])
  moreover have "\<not> dv_media (ho_device h')"
    by (rule reach[OF stable_ended(5) _ ev(1)]) (auto simp: obind_eq_Ret_iff stopped_def dest: stopped_turn)
  moreover have "\<not> ho_control h'"
    by (rule reach[OF stable_ended(1), of ControlStops]) (use assms(1) in \<open>auto simp: fair_round_def\<close>)
  moreover have "\<not> ho_servers h'"
    by (rule reach[OF stable_ended(2), of ServersStop]) (use assms(1) in \<open>auto simp: fair_round_def\<close>)
  moreover have "\<not> ho_ptp h'"
    by (rule reach[OF stable_ended(3), of PtpStops]) (use assms(1) in \<open>auto simp: fair_round_def\<close>)
  ultimately show ?thesis by simp
qed

lemma round_silences:
  assumes "fair_round es" "host_run h es = Ret h'" "stopped h" "announcing h"
  shows "silenced h'"
proof -
  obtain i where ev: "Ev (MdnsTurn i) \<in> set es" using assms(1) by (auto simp: fair_round_def)
  have "silenced h2" if "stopped h1 \<and> announcing h1" "host_step h1 (Ev (MdnsTurn i)) = Ret h2" for h1 h2
    using that by (cases "dv_mdns (ho_device h1)")
      (auto simp: stopped_def announcing_def silenced_def obind_eq_Ret_iff device_step_def mdns_turn_def split: if_splits)
  then show ?thesis
    using run_reaches[OF stable_conj[OF stable_stopped stable_announcer(1)] stable_announcer(2) _ ev _ assms(2)] assms(3,4)
    by blast
qed

lemma round_goes_on:
  assumes "fair_round es" "host_run h es = Ret h'" "ended h" "length (ho_todo h) \<le> Suc n"
  shows "length (ho_todo h') \<le> n"
proof -
  have "length (ho_todo h2) \<le> n" if "ended h1 \<and> length (ho_todo h1) \<le> Suc n" "host_step h1 Teardown = Ret h2" for h1 h2
    using that by (auto simp: ended_def silenced_def tear_def split: list.splits teardown_op.splits option.splits if_splits)
  moreover have "Teardown \<in> set es" using assms(1) by (simp add: fair_round_def)
  ultimately show ?thesis
    using run_reaches[OF stable_conj[OF stable_ended_all stable_ended(4)] stable_ended(4) _ _ _ assms(2)] assms(3,4)
    by blast
qed

lemma host_run_append: "host_run h (xs @ ys) = obind (host_run h xs) (\<lambda>h. host_run h ys)"
  by (simp add: host_run_def ofold_append)

lemma rounds_go_on:
  assumes "list_all fair_round rs" "host_run h (concat rs) = Ret h'" "ended h" "length (ho_todo h) \<le> length rs"
  shows "ho_todo h' = []"
  using assms
proof (induction rs arbitrary: h)
  case Nil
  then show ?case by (simp add: host_run_def)
next
  case (Cons r rs)
  then obtain h1 where run: "host_run h r = Ret h1" "host_run h1 (concat rs) = Ret h'"
    by (auto simp: host_run_append obind_eq_Ret_iff)
  have "length (ho_todo h1) \<le> length rs" using round_goes_on[OF _ run(1) Cons.prems(3)] Cons.prems(1,4) by simp
  moreover have "ended h1" using stable_run[OF stable_ended_all Cons.prems(3) run(1)] .
  ultimately show ?case using Cons.IH[OF _ run(2)] Cons.prems(1) by simp
qed

lemma rounds_end:
  assumes "list_all fair_round rs" "host_run h (concat rs) = Ret h'" "10 \<le> length rs" "ho_todo h = device_shutdown hs"
  shows "ended h' \<and> ho_todo h' = []"
proof -
  obtain r1 r2 r3 rs' where rs: "rs = r1 # r2 # r3 # rs'" "7 \<le> length rs'"
    using assms(3) by (auto simp: numeral_eq_Suc Suc_le_length_iff)
  obtain h1 h2 h3 where run: "host_run h r1 = Ret h1" "host_run h1 r2 = Ret h2" "host_run h2 r3 = Ret h3"
    "host_run h3 (concat rs') = Ret h'"
    using assms(2) by (auto simp: rs host_run_append obind_eq_Ret_iff)
  have fair: "fair_round r1" "fair_round r2" "fair_round r3" "list_all fair_round rs'" using assms(1) by (simp_all add: rs)
  have s1: "stopped h1" by (rule round_stops[OF fair(1) run(1)]) (simp add: assms(4) device_shutdown_def)
  note stop = stable_run[OF stable_stopped s1 run(2)]
  have e2: "\<not> ho_control h2 \<and> \<not> ho_servers h2 \<and> \<not> ho_ptp h2 \<and> \<not> dv_media (ho_device h2) \<and> announcing h2"
    using round_ends[OF fair(2) run(2) s1] .
  have "ended h3"
    unfolding ended_def
    using e2 stable_run[OF _ _ run(3)] stable_ended stable_stopped stop round_silences[OF fair(3) run(3) stop] by blast
  moreover have "length (ho_todo h3) \<le> length (ho_todo h)"
    using stable_run[OF stable_ended(4) _ run(1)] stable_run[OF stable_ended(4) _ run(2)]
      stable_run[OF stable_ended(4) _ run(3)] order_refl by meson
  moreover have "length (ho_todo h) \<le> 7"
    by (simp add: assms(4) device_shutdown_def device_drop_def media_join_def announcer_stop_def)
  ultimately have "ho_todo h' = []" using rounds_go_on[OF fair(4) run(4)] rs(2) by linarith
  then show ?thesis using stable_run[OF stable_ended_all \<open>ended h3\<close> run(4)] by simp
qed

lemma ended_step_out:
  assumes "ended h" "host_step h ev = Ret h'"
  shows "dv_out (ho_device h') = dv_out (ho_device h)"
proof -
  have "dv_out d' = dv_out (ho_device h)" if "device_step (ho_device h) e = Ret d'" "e = AppStop \<or> admits h e0 \<and> e = seen h e0" for e e0 d'
    using that assms(1)
    by (cases e0) (auto simp: ended_def silenced_def device_step_def Let_def obind_eq_Ret_iff
        split: if_splits option.split_asm announcer.split_asm)
  then show ?thesis using host_step_device[OF assms(2)] by auto
qed

lemma ended_run_out:
  "ended h \<Longrightarrow> host_run h evs = Ret h' \<Longrightarrow> dv_out (ho_device h') = dv_out (ho_device h)"
proof (induction evs arbitrary: h)
  case (Cons ev evs)
  then obtain h1 where "host_step h ev = Ret h1" "host_run h1 evs = Ret h'" by (auto simp: host_run_def obind_eq_Ret_iff)
  with Cons show ?case using ended_step_out stableD[OF stable_ended_all] by metis
qed (simp add: host_run_def)

lemma stable_no_flows: "stable (\<lambda>h. dv_media (ho_device h) \<or> dv_flows (ho_device h) = Map.empty)"
  unfolding stable_def using host_step_device device_step_stopped(3) by metis

text \<open>
  C19: a shutdown returns and is final. From any state of a started device, whichever of the
  announcer and the listener it runs, ten rounds in which every thread gets a turn complete
  all that \<open>shutdown\<close> does, whatever else happens in between; then every thread and server
  has ended, the media thread has no flow, and whatever happens afterwards no server and no
  announcer sends anything.
\<close>

theorem shutdown_returns:
  assumes "start_shared os_pid ifaces s = Ret (Inr sh)" "host_run (host_new threads sh) evs = Ret h"
    and "list_all fair_round rounds" "10 \<le> length rounds"
  shows "\<exists>h'. host_run (h\<lparr>ho_todo := device_shutdown (handles_of threads)\<rparr>) (concat rounds) = Ret h' \<and>
    ho_todo h' = [] \<and> ended h' \<and> dv_flows (ho_device h') = Map.empty \<and>
    (\<forall>later. \<exists>h2. host_run h' later = Ret h2 \<and> ended h2 \<and> dv_out (ho_device h2) = dv_out (ho_device h'))"
proof -
  let ?h = "h\<lparr>ho_todo := device_shutdown (handles_of threads)\<rparr>"
  have new: "device_ok (ho_device (host_new threads sh))"
    using device_new_ok[OF start_shared_ok(1)[OF assms(1)]] by (simp add: host_new_def)
  have ok: "device_ok (ho_device h)" using host_run_ok[OF new, of evs] assms(2) by simp
  then obtain h' where h': "host_run ?h (concat rounds) = Ret h'" "device_ok (ho_device h')"
    using host_run_ok[of ?h "concat rounds"] by auto
  have e: "ended h' \<and> ho_todo h' = []" using rounds_end[OF assms(3) h'(1) assms(4)] by simp
  have "dv_media (ho_device h) \<or> dv_flows (ho_device h) = Map.empty"
    using stable_run[OF stable_no_flows _ assms(2)] by (simp add: host_new_def device_new_def)
  then have "dv_media (ho_device h') \<or> dv_flows (ho_device h') = Map.empty"
    using stable_run[OF stable_no_flows _ h'(1)] by simp
  then have "dv_flows (ho_device h') = Map.empty" using e by (simp add: ended_def)
  moreover have "\<exists>h2. host_run h' later = Ret h2 \<and> ended h2 \<and> dv_out (ho_device h2) = dv_out (ho_device h')" for later
    using host_run_ok[OF h'(2), of later] e stable_run[OF stable_ended_all] ended_run_out by blast
  ultimately show ?thesis using h'(1) e by blast
qed

definition demo_turn :: turn where
  "demo_turn = \<lparr>tn_recv = 0, tn_addr = (\<lambda>_. None), tn_now = 0, tn_order = [], tn_socks = (\<lambda>_. []), tn_stale = 0\<rparr>"

definition demo_mdns_input :: mdns_input where
  "demo_mdns_input = \<lparr>mi_stop = False, mi_now = 0, mi_after = 0, mi_recv = RecvFailed TimedOut\<rparr>"

theorem shutdown_returns_witness:
  "\<exists>h'. host_run ((host_new [Announcer, MediaLoop, ControlPlane] demo_device)\<lparr>ho_todo :=
        [SignalStop, AwaitControl, JoinMedia, StopAnnouncer, JoinAnnouncer, SignalStop]\<rparr>)
      (concat (replicate 10 [Teardown, ControlStops, ServersStop, PtpStops, Ev (MediaTurn demo_turn), Ev (MdnsStart 5 0),
        Ev (MdnsTurn demo_mdns_input)])) = Ret h' \<and> ho_todo h' = [] \<and> ended h'"
proof -
  have "host_run (host_new [Announcer, MediaLoop, ControlPlane] demo_device) [] =
      Ret (host_new [Announcer, MediaLoop, ControlPlane] demo_device)" by (simp add: host_run_def)
  from shutdown_returns[OF demo_start this, of "replicate 10 [Teardown, ControlStops, ServersStop, PtpStops,
      Ev (MediaTurn demo_turn), Ev (MdnsStart 5 0), Ev (MdnsTurn demo_mdns_input)]"]
  show ?thesis
    by (auto simp: fair_round_def list_all_iff handles_of_def device_shutdown_def device_drop_def media_join_def announcer_stop_def)
qed

section \<open>What a shutdown leaves\<close>

text \<open>
  C20: a shutdown does not end the tasks that establish flows. A task that has resolved its
  transmitter when the device is stopped and its media thread has ended goes on: it binds a
  socket, requests a flow of the transmitter and lists it. The media thread is gone, so the
  channel ends unresolved and nobody receives the flow, but it stays listed and linked, and
  the request is the last thing the transmitter hears: no stop is sent to it.
\<close>

theorem shutdown_leaves_request:
  assumes rec: "sr_local_id rec \<noteq> 0" "sr_tx_channel rec = Some ch" "sr_tx_host rec = Some host"
    and i: "unat (sr_local_id rec) - 1 < length (sh_subs sh)" and ended: "sh_stopped sh" "\<not> sh_media_open sh"
    and rate: "rt_sample_rate r = st_sample_rate (sh_settings sh)"
    and net: "ou_bind ou = Inr sock" "ou_local ou = Inr port" "ou_querier ou = None" "ou_reply ou = Some reply"
      "grants (sh_flows_seq sh) reply handle"
  shows "\<exists>pkt sh'. flow_request sh r port = Ret pkt \<and>
    establish_run (replicate 7 ou) (sh, \<lparr>tk_rec = rec, tk_phase = Resolved (Inr r)\<rparr>) =
      Ret (sh', \<lparr>tk_rec = rec, tk_phase = Failed\<rparr>) \<and>
    sh_stopped sh' \<and> sh_sent sh' = sh_sent sh @ [(rt_flows_addr r, pkt)] \<and>
    map fi_flow_id (sh_rx_flows sh') = map fi_flow_id (sh_rx_flows sh) @ [sh_next_flow_id sh] \<and>
    sub_status (sh_subs sh' ! (unat (sr_local_id rec) - 1)) = STATUS_UNRESOLVED \<and>
    sub_flow_id (sh_subs sh' ! (unat (sr_local_id rec) - 1)) = Some (sh_next_flow_id sh)"
proof -
  obtain pkt where pkt: "flow_request sh r port = Ret pkt"
    unfolding flow_request_def using encode_request_flow_ok by blast
  define sh1 where "sh1 = linked rec r port pkt handle sh"
  define sh' where "sh' = set_status (unat (sr_local_id rec) - 1) STATUS_UNRESOLVED sh1"
  have seven: "replicate 7 ou = replicate 6 ou @ [ou]" by (simp add: eval_nat_numeral)
  have closed: "\<not> sh_media_open sh1" using ended(2) by (simp add: sh1_def linked_def established_def Let_def)
  have "establish_step ou sh1 \<lparr>tk_rec = rec, tk_phase = Handing port (sh_next_flow_id sh)\<rparr> =
      Ret (sh', \<lparr>tk_rec = rec, tk_phase = Failed\<rparr>)"
    using rec closed by (simp add: establish_step_def Let_def media_send_def sh'_def)
  then have "establish_run (replicate 7 ou) (sh, \<lparr>tk_rec = rec, tk_phase = Resolved (Inr r)\<rparr>) =
      Ret (sh', \<lparr>tk_rec = rec, tk_phase = Failed\<rparr>)"
    using linked_run[OF rec i rate net pkt] by (simp add: seven establish_run_append establish_run_simps sh1_def)
  then show ?thesis
    using pkt ended i
    by (auto simp: sh'_def sh1_def linked_def established_def Let_def set_status_def set_sub_def)
qed

theorem shutdown_leaves_request_witness:
  "\<exists>d pkt sh'. device_run (device_new demo_device) [AppStop, MediaTurn demo_turn] = Ret d \<and>
     flow_request (dv_shared d) demo_tx 14336 = Ret pkt \<and>
     establish_run (replicate 7 demo_outside) (dv_shared d, \<lparr>tk_rec = demo_rec, tk_phase = Resolved (Inr demo_tx)\<rparr>) =
       Ret (sh', \<lparr>tk_rec = demo_rec, tk_phase = Failed\<rparr>) \<and> sh_sent sh' = sh_sent (dv_shared d) @ [(((127, 0, 0, 1), 5000), pkt)]"
proof -
  define sh where "sh = demo_device\<lparr>sh_stopped := True, sh_media_tx := [], sh_media_open := False\<rparr>"
  have "device_run (device_new demo_device) [AppStop, MediaTurn demo_turn] =
      Ret ((device_new demo_device)\<lparr>dv_shared := sh, dv_media := False\<rparr>)"
    by (simp add: device_run_def device_step_def device_new_def signal_stop_def media_send_def media_turn_def
        media_command_step_def demo_fields sh_def)
  moreover have "\<exists>pkt sh'. flow_request sh demo_tx 14336 = Ret pkt \<and>
     establish_run (replicate 7 demo_outside) (sh, \<lparr>tk_rec = demo_rec, tk_phase = Resolved (Inr demo_tx)\<rparr>) =
       Ret (sh', \<lparr>tk_rec = demo_rec, tk_phase = Failed\<rparr>) \<and> sh_sent sh' = sh_sent sh @ [(((127, 0, 0, 1), 5000), pkt)]"
    using shutdown_leaves_request[of demo_rec "lit ''1''" "lit ''faketx''" sh demo_tx demo_outside 14336 14336
      demo_reply "Some [1, 2, 3, 4, 5, 6]"] demo_grants
    by (auto simp: demo_rec_def sh_def demo_fields demo_tx_def default_settings_def demo_outside_def)
  ultimately show ?thesis by (intro exI[of _ "(device_new demo_device)\<lparr>dv_shared := sh, dv_media := False\<rparr>"]) simp
qed

end
