(* ===== verification/Launch.thy ===== *)
theory Launch
  imports Teardown Started
begin

text \<open>
  The start of a device, \<open>start_inner\<close> of \<open>src/device/mod.rs\<close>, as what it does to the process:
  each thread it starts is a change of the host, and a return with an error drops what the
  function holds by then. The host is there after the return whether or not a device is.
\<close>

section \<open>Starting the threads\<close>

text \<open>The host before any thread runs; the receiver of the media thread's commands exists.\<close>

definition host_idle :: "shared \<Rightarrow> host" where
  "host_idle sh =
     \<lparr>ho_device = (device_new sh)\<lparr>dv_media := False\<rparr>, ho_announcer = False, ho_mdns_stop = False, ho_control = False,
      ho_servers = False, ho_ptp = False, ho_todo = []\<rparr>"

definition ip_of :: "host \<Rightarrow> ipv4" where
  "ip_of h = id_ip (sh_identity (dv_shared (ho_device h)))"

text \<open>Each part: what it starts when it succeeds. A denied PTP port only disables the listener.\<close>

definition launch_mdns :: "os \<Rightarrow> host \<Rightarrow> host \<times> (dev_error + unit)" where
  "launch_mdns os h = (case mdns_start os (ip_of h) of Inl e \<Rightarrow> (h, Inl e) | Inr _ \<Rightarrow> (h\<lparr>ho_announcer := True\<rparr>, Inr ()))"

definition launch_media :: "os \<Rightarrow> host \<Rightarrow> host \<times> (dev_error + unit)" where
  "launch_media os h =
     (case media_start os of
        Inl e \<Rightarrow> (h, Inl e)
      | Inr _ \<Rightarrow> (h\<lparr>ho_device := (ho_device h)\<lparr>dv_media := True\<rparr>\<rparr>, Inr ()))"

definition launch_ptp :: "os \<Rightarrow> host \<Rightarrow> host \<times> (dev_error + bool)" where
  "launch_ptp os h =
     (case ptp_start os (ip_of h) of
        Inr _ \<Rightarrow> (h\<lparr>ho_ptp := True\<rparr>, Inr True)
      | Inl (PtpBindDenied port) \<Rightarrow> (h, Inr False)
      | Inl e \<Rightarrow> (h, Inl e))"

text \<open>The control task says that its sockets are bound, or ends with the error it reports.\<close>

definition launch_control :: "os \<Rightarrow> host \<Rightarrow> host \<times> (dev_error + unit)" where
  "launch_control os h =
     (case run_control os (sh_identity (dv_shared (ho_device h))) of
        Inl e \<Rightarrow> (h, Inl e)
      | Inr _ \<Rightarrow> (h\<lparr>ho_control := True, ho_servers := True\<rparr>, Inr ()))"

section \<open>Returning with an error\<close>

text \<open>
  A join handle that is dropped detaches its thread. The \<open>Drop\<close> of a \<open>MediaThread\<close> takes its
  handle and drops it; a \<open>MdnsAnnouncer\<close> has no \<open>Drop\<close>, so its handle is dropped and its flag
  not set. The receiver of commands, when no media thread took it, is dropped too.
\<close>

definition drop_join_handle :: "host \<Rightarrow> host" where
  "drop_join_handle h = h"

definition drop_media_thread :: "host \<Rightarrow> host" where
  "drop_media_thread h = drop_join_handle h"

definition drop_announcer :: "host \<Rightarrow> host" where
  "drop_announcer h = drop_join_handle h"

definition drop_receiver :: "host \<Rightarrow> host" where
  "drop_receiver h = h\<lparr>ho_device := (ho_device h)\<lparr>dv_shared := (dv_shared (ho_device h))\<lparr>sh_media_open := False\<rparr>\<rparr>\<rparr>"

text \<open>The locals of \<open>start_inner\<close>, in the reverse of their order.\<close>

definition drop_locals :: "handles \<Rightarrow> host \<Rightarrow> host" where
  "drop_locals hs h =
     (let h = (if hd_control hs then drop_join_handle h else h);
          h = (if hd_ptp hs then drop_join_handle h else h);
          h = (if hd_media hs then drop_media_thread h else drop_receiver h)
      in if hd_mdns hs then drop_announcer h else h)"

definition start_threads :: "os \<Rightarrow> bool \<Rightarrow> bool \<Rightarrow> host \<Rightarrow> host \<times> (dev_error + handles)" where
  "start_threads os mdns ptp h =
     (let hs = \<lparr>hd_control = False, hd_media = False, hd_mdns = False, hd_ptp = False\<rparr>
      in case (if mdns then launch_mdns os h else (h, Inr ())) of
           (h, Inl e) \<Rightarrow> (drop_locals hs h, Inl e)
         | (h, Inr _) \<Rightarrow>
             let hs = hs\<lparr>hd_mdns := mdns\<rparr>
             in case launch_media os h of
                  (h, Inl e) \<Rightarrow> (drop_locals hs h, Inl e)
                | (h, Inr _) \<Rightarrow>
                    let hs = hs\<lparr>hd_media := True\<rparr>
                    in case (if ptp then launch_ptp os h else (h, Inr False)) of
                         (h, Inl e) \<Rightarrow> (drop_locals hs h, Inl e)
                       | (h, Inr listens) \<Rightarrow>
                           let hs = hs\<lparr>hd_ptp := listens, hd_control := True\<rparr>
                           in case launch_control os h of
                                (h, Inl e) \<Rightarrow> (drop_locals hs h, Inl e)
                              | (h, Inr _) \<Rightarrow> (h, Inr hs))"

text \<open>
  What \<open>start_inner\<close> leaves: the host, when it came so far that there is one, and an error or the
  handles of the device it returns.
\<close>

definition start_inner ::
  "os \<Rightarrow> u32 \<Rightarrow> netdev_iface list \<Rightarrow> settings \<Rightarrow> bool \<Rightarrow> bool \<Rightarrow> (host option \<times> (dev_error + handles)) outcome" where
  "start_inner os os_pid ifaces s mdns ptp =
     obind (start_shared os_pid ifaces s) (\<lambda>started. Ret (case started of
       Inl e \<Rightarrow> (None, Inl e)
     | Inr sh \<Rightarrow> (let (h, res) = start_threads os mdns ptp (host_idle sh) in (Some h, res))))"

lemmas launch_defs = launch_mdns_def launch_media_def launch_ptp_def launch_control_def

lemmas drop_defs = drop_locals_def drop_join_handle_def drop_media_thread_def drop_announcer_def drop_receiver_def

lemma ip_of_simps [simp]:
  "ip_of (host_idle sh) = id_ip (sh_identity sh)" "ip_of (h\<lparr>ho_announcer := a\<rparr>) = ip_of h"
  "ip_of (h\<lparr>ho_device := (ho_device h)\<lparr>dv_media := b\<rparr>\<rparr>) = ip_of h"
  by (simp_all add: ip_of_def host_idle_def device_new_def)

text \<open>A start that succeeds leaves the host and the handles of a device with those threads.\<close>

lemma start_threads_Inr:
  assumes "start_threads os mdns ptp (host_idle sh) = (h, Inr hs)"
  shows "\<exists>threads. h = host_new threads sh \<and> hs = handles_of threads \<and> (Announcer \<in> set threads \<longleftrightarrow> mdns)"
    "run_control os (sh_identity sh) = Inr ()"
proof -
  define threads where "threads = (if mdns then [Announcer] else []) @ (if ho_ptp h then [PtpListener] else [])"
  have "h = host_new threads sh \<and> hs = handles_of threads \<and> run_control os (sh_identity sh) = Inr ()"
    using assms
    by (auto simp: start_threads_def launch_defs Let_def host_idle_def host_new_def handles_of_def threads_def device_new_def
      split: if_splits sum.splits dev_error.splits)
  then show "\<exists>threads. h = host_new threads sh \<and> hs = handles_of threads \<and> (Announcer \<in> set threads \<longleftrightarrow> mdns)"
    "run_control os (sh_identity sh) = Inr ()"
    by (auto simp: threads_def intro!: exI[of _ threads])
qed

section \<open>The identity of what is started\<close>

lemma start_threads_identity:
  "start_threads os mdns ptp (host_idle sh) = (h, res) \<Longrightarrow> sh_identity (dv_shared (ho_device h)) = sh_identity sh"
  by (auto simp: start_threads_def launch_defs drop_defs Let_def host_idle_def device_new_def
    split: if_splits sum.splits dev_error.splits)

lemma run_control_usable: "run_control os i = Inr u \<Longrightarrow> usable_ip (id_ip i)"
  by (auto simp: run_control_def Let_def bind_unicast_def reject_eq split: if_splits)

text \<open>An operating system where every call succeeds.\<close>

definition quiet_host_os :: os where
  "quiet_host_os = \<lparr>os_windows = False, os_socket = None, os_bind = (\<lambda>_ p. Inr p), os_multicast_if = (\<lambda>_. None),
     os_join = (\<lambda>_ _. None), os_option = (\<lambda>_. None), os_spawn = (\<lambda>_. None)\<rparr>"

text \<open>
  C33: a device starts without a panic from settings and interfaces of the types of the
  program, whatever their values, and its identity is then well-typed: a device id of eight
  bytes, a device name and a factory name that are single DNS labels of at most 31 bytes, and a
  name for each of at least one channel. A device that is returned runs on an address that is
  neither unspecified nor of a group nor broadcast; where the interface's name is the text of such an address,
  which the choice of the interface lets through, the start fails.
\<close>

theorem started_identity_typed:
  assumes "typed_input ifaces s"
  shows "case start_inner os os_pid ifaces s mdns ptp of
    Panic \<Rightarrow> False
  | Ret (None, res) \<Rightarrow> (\<exists>e. res = Inl e)
  | Ret (Some h, res) \<Rightarrow>
      (let i = sh_identity (dv_shared (ho_device h)) in
         length (id_device_id i) = 8 \<and> host_label (id_friendly i) \<and> length (id_friendly i) \<le> 31 \<and>
         host_label (id_factory i) \<and> length (id_factory i) \<le> 31 \<and>
         length (id_rx_names i) = unat (st_rx_channels s) \<and> 0 < length (id_rx_names i) \<and>
         (\<forall>hs. res = Inr hs \<longrightarrow> usable_ip (id_ip i)))"
proof -
  obtain started where st: "start_shared os_pid ifaces s = Ret started"
    using identity_typed[OF assms, of os_pid] by (cases "start_shared os_pid ifaces s") auto
  show ?thesis
  proof (cases started)
    case (Inl e)
    then show ?thesis using st by (simp add: start_inner_def)
  next
    case (Inr sh)
    obtain h res where run: "start_threads os mdns ptp (host_idle sh) = (h, res)" by fastforce
    have "(\<exists>hs. res = Inr hs) \<longrightarrow> usable_ip (id_ip (sh_identity sh))"
      using start_threads_Inr(2)[of os mdns ptp sh h] run run_control_usable by blast
    then show ?thesis
      using identity_typed[OF assms, of os_pid] start_threads_identity[OF run] st Inr run
      by (simp add: start_inner_def Let_def)
  qed
qed

theorem started_identity_typed_witness:
  "\<exists>h hs. start_inner quiet_host_os 7 [] (default_settings 7) True False = Ret (Some h, Inr hs) \<and>
     usable_ip (id_ip (sh_identity (dv_shared (ho_device h)))) \<and> host_label (id_factory (sh_identity (dv_shared (ho_device h))))"
proof -
  have typed: "typed_input [] (default_settings 7)" by (simp add: typed_input_def default_settings_def)
  have "\<exists>h hs. start_inner quiet_host_os 7 [] (default_settings 7) True False = Ret (Some h, Inr hs)"
    by (simp add: start_inner_def demo_start start_threads_def launch_defs Let_def ip_of_def host_idle_def device_new_def
      demo_fields run_control_def quiet_host_os_def usable_ip_def mdns_start_def media_start_def bind_mdns_def bind_unicast_def
      reject_eq call_def set_multicast_if_v4_def join_multicast_v4_def std_to_tokio_def cfg_windows_def)
  then obtain h hs where "start_inner quiet_host_os 7 [] (default_settings 7) True False = Ret (Some h, Inr hs)" by blast
  with started_identity_typed[OF typed, of quiet_host_os 7 True False] show ?thesis by (auto simp: Let_def)
qed

section \<open>A start that fails\<close>

lemma idle_media_turn:
  assumes "\<not> sh_stopped sh" "sh_media_tx sh = []"
  shows "\<exists>clk'. media_turn tn (sh\<lparr>sh_overlay := clk\<rparr>, Map.empty) = Ret (Some (sh\<lparr>sh_overlay := clk'\<rparr>, Map.empty))"
proof -
  have "ofold (flow_turn now socks) (sh1, Map.empty) ks = Ret (sh1, Map.empty)" for now socks sh1 ks
    by (induction ks) (simp_all add: flow_turn_def)
  then show ?thesis using assms by (auto simp: media_turn_def media_command_step_def)
qed

text \<open>What is left when nobody has a device: the threads, no task, no flow, no command.\<close>

definition left_alone :: "host \<Rightarrow> bool" where
  "left_alone h \<longleftrightarrow>
     (let d = ho_device h in
      \<not> stopped h \<and> sh_media_tx (dv_shared d) = [] \<and> dv_tasks d = [] \<and> dv_flows d = Map.empty \<and> dv_media d \<and>
      dv_mdns d \<noteq> Silent \<and> ho_announcer h \<and> \<not> ho_mdns_stop h \<and> \<not> ho_servers h \<and> ho_ptp h \<and> ho_todo h = [] \<and> device_ok d)"

lemma mdns_turn_goes_on:
  assumes "mdns_turn i sh t = Ret r" "\<not> mi_stop i" "\<not> sh_stopped sh"
  shows "\<exists>out t'. r = Some (out, t')"
  using assms by (cases "mi_recv i") (auto simp: mdns_turn_def obind_eq_Ret_iff split: if_splits)

lemma try_read_ring: "try_read lcl now dst sh = Ret (sh', dst', res) \<Longrightarrow> \<exists>r. sh' = sh\<lparr>sh_ring := r\<rparr>"
  by (cases sh) (auto simp: try_read_def Let_def obind_eq_Ret_iff split: if_splits)

lemma left_alone_device:
  assumes "left_alone h" "ev \<noteq> AppStop" "admits h ev" "device_step (ho_device h) (seen h ev) = Ret d'"
  shows "left_alone (h\<lparr>ho_device := d'\<rparr>)" "sh_identity (dv_shared d') = sh_identity (dv_shared (ho_device h))"
    "sh_settings (dv_shared d') = sh_settings (dv_shared (ho_device h))"
proof -
  define d where "d = ho_device h"
  have ok: "device_ok d'"
    using device_step_ok[of d "seen h ev"] assms(1,4) by (auto simp: left_alone_def Let_def d_def)
  have l: "\<not> sh_stopped (dv_shared d)" "sh_media_tx (dv_shared d) = []" "dv_tasks d = []" "dv_flows d = Map.empty"
    "dv_media d" "dv_mdns d \<noteq> Silent" "\<not> ho_mdns_stop h" "\<not> ho_servers h"
    using assms(1) by (simp_all add: left_alone_def Let_def d_def stopped_def)
  have "\<not> sh_stopped (dv_shared d') \<and> sh_media_tx (dv_shared d') = [] \<and> dv_tasks d' = [] \<and> dv_flows d' = Map.empty \<and>
    dv_media d' \<and> dv_mdns d' \<noteq> Silent \<and> sh_identity (dv_shared d') = sh_identity (dv_shared d) \<and>
    sh_settings (dv_shared d') = sh_settings (dv_shared d)"
  proof (cases ev)
    case (MediaTurn tn)
    obtain clk' where "media_turn tn (dv_shared d, Map.empty) = Ret (Some ((dv_shared d)\<lparr>sh_overlay := clk'\<rparr>, Map.empty))"
      using idle_media_turn[OF l(1,2), of tn "sh_overlay (dv_shared d)"] by auto
    then show ?thesis using assms(4) l by (auto simp: MediaTurn device_step_def Let_def d_def[symmetric])
  next
    case (MdnsTurn i)
    show ?thesis
    proof (cases "dv_mdns d")
      case (Announcing t)
      then obtain r where "mdns_turn (i\<lparr>mi_stop := False\<rparr>) (dv_shared d) t = Ret r"
        "(case r of None \<Rightarrow> Ret (d\<lparr>dv_mdns := Silent\<rparr>) | Some (out, t) \<Rightarrow> Ret (sends out (d\<lparr>dv_mdns := Announcing t\<rparr>))) = Ret d'"
        using assms(4) l(7) by (auto simp: MdnsTurn device_step_def Let_def d_def[symmetric] obind_eq_Ret_iff)
      then show ?thesis using mdns_turn_goes_on l by (fastforce simp: sends_def)
    qed (use assms(4) l in \<open>auto simp: MdnsTurn device_step_def Let_def d_def[symmetric]\<close>)
  next
    case (MdnsStart k now)
    obtain out where "mdns_prologue (dv_shared d) 5 = Ret (out, True)" using mdns_prologue_ok[of "dv_shared d" 5] by auto
    then show ?thesis
      using assms(4) l by (cases "dv_mdns d = NotAnnounced") (auto simp: MdnsStart device_step_def Let_def d_def[symmetric] sends_def)
  next
    case (AppRead lcl now dst)
    obtain sh' dst' res where r: "try_read lcl now dst (dv_shared d) = Ret (sh', dst', res)"
      using assms(4) by (auto simp: AppRead device_step_def Let_def d_def[symmetric] obind_eq_Ret_iff)
    then have "\<exists>r. sh' = (dv_shared d)\<lparr>sh_ring := r\<rparr>" by (rule try_read_ring)
    then show ?thesis using assms(4) l r by (auto simp: AppRead device_step_def Let_def d_def[symmetric])
  next
    case (PtpPacket m)
    then show ?thesis using assms(4) l by (auto simp: device_step_def Let_def d_def[symmetric] obind_eq_Ret_iff)
  qed (use assms(2-4) l in \<open>simp_all add: device_step_def Let_def d_def[symmetric] set_rx_wakeup_def
      set_subscribe_override_def\<close>, auto simp: set_rx_wakeup_def set_subscribe_override_def)
  then show "left_alone (h\<lparr>ho_device := d'\<rparr>)" "sh_identity (dv_shared d') = sh_identity (dv_shared (ho_device h))"
    "sh_settings (dv_shared d') = sh_settings (dv_shared (ho_device h))"
    using assms(1) ok by (simp_all add: left_alone_def Let_def d_def stopped_def)
qed

text \<open>What the announcer of a host sends when it announces its device.\<close>

definition announcement :: "host \<Rightarrow> bytes outcome" where
  "announcement h = announce (dv_shared (ho_device h))"

lemma left_alone_step:
  assumes "left_alone h" "ev \<noteq> Ev AppStop"
  shows "\<exists>h'. host_step h ev = Ret h' \<and> left_alone h' \<and> announcement h' = announcement h"
proof (cases ev)
  case (Ev e)
  have "device_ok (ho_device h)" using assms(1) by (simp add: left_alone_def Let_def)
  then obtain d where d: "device_step (ho_device h) (seen h e) = Ret d" using device_step_ok by blast
  show ?thesis
    using left_alone_device[OF assms(1) _ _ d] assms Ev d by (cases "admits h e") (auto simp: announcement_def announce_def)
qed (use assms(1) in \<open>auto simp: left_alone_def Let_def\<close>)

lemma left_alone_run:
  "left_alone h \<Longrightarrow> Ev AppStop \<notin> set evs \<Longrightarrow> \<exists>h'. host_run h evs = Ret h' \<and> left_alone h' \<and> announcement h' = announcement h"
proof (induction evs arbitrary: h)
  case (Cons ev evs)
  then obtain h1 where "host_step h ev = Ret h1" "left_alone h1" "announcement h1 = announcement h"
    using left_alone_step[of h ev] by auto
  then show ?case using Cons.IH[of h1] Cons.prems(2) by (auto simp: host_run_def)
qed (simp add: host_run_def)

lemma left_alone_announces:
  assumes "left_alone h" "dv_mdns (ho_device h) = Announcing t" "60 * 1000000000 < mi_now i - t"
  shows "\<exists>pkt more h'. announcement h = Ret pkt \<and> host_step h (Ev (MdnsTurn i)) = Ret h' \<and>
    dv_out (ho_device h') = dv_out (ho_device h) @ (MDNS_DEST, pkt) # more"
proof -
  obtain pkt where pkt: "announce (dv_shared (ho_device h)) = Ret pkt" using announce_ok by blast
  note turn = assms pkt announcement_def left_alone_def Let_def stopped_def device_step_def mdns_turn_def sends_def
  show ?thesis
  proof (cases "mi_recv i")
    case (Packet buf src)
    obtain out where "mdns_respond (dv_shared (ho_device h)) src buf = Ret out" using mdns_respond_ok by blast
    then show ?thesis using assms Packet by (auto simp: turn(4-))
  qed (use assms in \<open>auto simp: turn(4-)\<close>)
qed

text \<open>
  C26: a start that fails does not clean up. When the announcer, the media thread and the PTP
  listener start and the port of the ARC server is taken, the start returns that error, and the
  host it leaves goes on: whatever happens then, as long as nobody stops the device, which nobody
  holds, nothing panics, the media thread, the announcer and the listener run and find the
  device neither stopped nor themselves told to end, and the announcer announces the device each time
  its last announcement is more than a minute old.
\<close>

theorem failed_start_leaves_threads:
  assumes "start_shared os_pid ifaces s = Ret (Inr sh)" "usable_ip (id_ip (sh_identity sh))"
    and "mdns_start os (id_ip (sh_identity sh)) = Inr ()" "media_start os = Inr ()"
      "ptp_start os (id_ip (sh_identity sh)) = Inr ()"
    and "os_bind os (id_ip (sh_identity sh)) (id_arc_port (sh_identity sh)) = Inl AddrInUse"
  shows "\<exists>h. start_inner os os_pid ifaces s True True = Ret (Some h, Inl (PortInUse (id_arc_port (sh_identity sh)) (lit ''arc''))) \<and>
    (\<forall>evs. Ev AppStop \<notin> set evs \<longrightarrow>
      (\<exists>h'. host_run h evs = Ret h' \<and> \<not> stopped h' \<and> dv_media (ho_device h') \<and> ho_ptp h' \<and>
        ho_announcer h' \<and> \<not> ho_mdns_stop h' \<and> dv_mdns (ho_device h') \<noteq> Silent \<and>
        (\<forall>t i. dv_mdns (ho_device h') = Announcing t \<and> 60 * 1000000000 < mi_now i - t \<longrightarrow>
          (\<exists>pkt more h''. announce sh = Ret pkt \<and> host_step h' (Ev (MdnsTurn i)) = Ret h'' \<and>
            dv_out (ho_device h'') = dv_out (ho_device h') @ (MDNS_DEST, pkt) # more))))"
proof -
  define h where "h = (host_idle sh)\<lparr>ho_device := device_new sh, ho_announcer := True, ho_ptp := True\<rparr>"
  note start = start_shared_ok[OF assms(1)]
  have "socket_opens os"
    using assms(2,5)
    by (cases "os_socket os"; cases "cfg_windows os set_exclusive_addr_use")
      (simp_all add: ptp_start_def bind_ptp_def call_def reject_eq socket_opens_def)
  then have "run_control os (sh_identity sh) = Inl (PortInUse (id_arc_port (sh_identity sh)) (lit ''arc''))"
    using assms(2,6) by (simp add: run_control_def Let_def bind_unicast_eq map_in_use_def)
  then have res: "start_inner os os_pid ifaces s True True =
      Ret (Some h, Inl (PortInUse (id_arc_port (sh_identity sh)) (lit ''arc'')))"
    using assms
    by (simp add: start_inner_def start_threads_def launch_defs drop_defs Let_def h_def host_idle_def device_new_def ip_of_def)
  have alone: "left_alone h" "announcement h = announce sh"
    using start(5,6) device_new_ok[OF start(1)]
    by (simp_all add: left_alone_def Let_def h_def host_idle_def device_new_def stopped_def announcement_def)
  have lives: "\<not> stopped h' \<and> dv_media (ho_device h') \<and> ho_ptp h' \<and> ho_announcer h' \<and> \<not> ho_mdns_stop h' \<and> dv_mdns (ho_device h') \<noteq> Silent"
    if "left_alone h'" for h' using that by (simp add: left_alone_def Let_def)
  show ?thesis
  proof (rule exI[of _ h], rule conjI, rule res, intro allI impI)
    fix evs assume "Ev AppStop \<notin> set evs"
    then obtain h' where h': "host_run h evs = Ret h'" "left_alone h'" "announcement h' = announce sh"
      using left_alone_run[OF alone(1)] alone(2) by auto
    have "\<forall>t i. dv_mdns (ho_device h') = Announcing t \<and> 60 * 1000000000 < mi_now i - t \<longrightarrow>
        (\<exists>pkt more h''. announce sh = Ret pkt \<and> host_step h' (Ev (MdnsTurn i)) = Ret h'' \<and>
          dv_out (ho_device h'') = dv_out (ho_device h') @ (MDNS_DEST, pkt) # more)"
      using left_alone_announces[OF h'(2)] unfolding h'(3) by blast
    with h'(1) lives[OF h'(2)]
    show "\<exists>h'. host_run h evs = Ret h' \<and> \<not> stopped h' \<and> dv_media (ho_device h') \<and> ho_ptp h' \<and>
        ho_announcer h' \<and> \<not> ho_mdns_stop h' \<and> dv_mdns (ho_device h') \<noteq> Silent \<and>
        (\<forall>t i. dv_mdns (ho_device h') = Announcing t \<and> 60 * 1000000000 < mi_now i - t \<longrightarrow>
          (\<exists>pkt more h''. announce sh = Ret pkt \<and> host_step h' (Ev (MdnsTurn i)) = Ret h'' \<and>
            dv_out (ho_device h'') = dv_out (ho_device h') @ (MDNS_DEST, pkt) # more))" by blast
  qed
qed

text \<open>An operating system where only the port of the ARC server is taken.\<close>

definition busy_os :: os where
  "busy_os = \<lparr>os_windows = False, os_socket = None, os_bind = (\<lambda>ip p. if p = 4440 then Inl AddrInUse else Inr p),
     os_multicast_if = (\<lambda>_. None), os_join = (\<lambda>_ _. None), os_option = (\<lambda>_. None), os_spawn = (\<lambda>_. None)\<rparr>"

theorem failed_start_leaves_threads_witness:
  "\<exists>h h'. start_inner busy_os 7 [] (default_settings 7) True True = Ret (Some h, Inl (PortInUse 4440 (lit ''arc''))) \<and>
     host_run h [Ev (MdnsStart 5 0), PtpStops, ServersStop, Teardown] = Ret h' \<and> dv_media (ho_device h') \<and> ho_ptp h' \<and>
     dv_mdns (ho_device h') \<noteq> Silent"
proof -
  have os: "usable_ip (127, 0, 0, 1)" "mdns_start busy_os (127, 0, 0, 1) = Inr ()" "media_start busy_os = Inr ()"
    "ptp_start busy_os (127, 0, 0, 1) = Inr ()" "os_bind busy_os (127, 0, 0, 1) 4440 = Inl AddrInUse"
    by (simp_all add: busy_os_def usable_ip_def mdns_start_def media_start_def ptp_start_def bind_mdns_def
      bind_ptp_def reject_eq call_def set_multicast_if_v4_def join_multicast_v4_def MDNS_PORT_def PTP_EVENT_def
      PTP_GENERAL_def cfg_windows_def)
  obtain h where h: "start_inner busy_os 7 [] (default_settings 7) True True = Ret (Some h, Inl (PortInUse 4440 (lit ''arc'')))"
    "\<forall>evs. Ev AppStop \<notin> set evs \<longrightarrow> (\<exists>h'. host_run h evs = Ret h' \<and> dv_media (ho_device h') \<and> ho_ptp h' \<and> dv_mdns (ho_device h') \<noteq> Silent)"
    using failed_start_leaves_threads[OF demo_start, of busy_os] os unfolding demo_fields by blast
  have "Ev AppStop \<notin> set [Ev (MdnsStart 5 0), PtpStops, ServersStop, Teardown]" by simp
  with h show ?thesis by blast
qed

end
