(* ===== verification/Notices.thy ===== *)
theory Notices
  imports Console Started
begin

text \<open>
  What a device tells unasked: the notice of a change of its channels' names, from the
  controller's request through the queue between two servers to the packet on the wire.
\<close>

section \<open>The size of a notice\<close>

lemma mark_channels_length:
  assumes "3 \<le> length c" "ofold mark_channel c chs = Ret c'" "\<forall>ch \<in> set chs. ch < n"
  shows "length c' \<le> max (length c) (n div 8 + 3)"
  using assms
proof (induction chs arbitrary: c)
  case (Cons ch chs)
  obtain c1 where c1: "mark_channel c ch = Ret c1" "length c1 = max (length c) (ch div 8 + 3)"
    using mark_channel_spec[OF Cons.prems(1), of ch] by blast
  have "ch div 8 \<le> n div 8" using Cons.prems(3) by (simp add: div_le_mono)
  moreover have "length c' \<le> max (length c1) (n div 8 + 3)"
    using Cons.IH[of c1] Cons.prems c1 by simp
  ultimately show ?case using c1(2) by (simp add: max_def split: if_splits)
qed simp

lemma channel_change_wire:
  assumes "chs \<noteq> []" "\<forall>ch \<in> set chs. ch < 65536"
  shows "\<exists>c. channel_change chs = Ret c \<and> length c < 65504 \<and> (\<forall>ch. marked c ch \<longleftrightarrow> ch \<in> set chs)"
proof -
  obtain c where c: "channel_change chs = Ret c" "\<forall>ch. marked c ch \<longleftrightarrow> ch \<in> set chs"
    using channel_change_marks[OF assms(1)] by blast
  then obtain m where m: "ofold mark_channel (replicate 3 0) chs = Ret m" "length c = length m"
    using assms(1) by (auto simp: channel_change_def Let_def obind_eq_Ret_iff set_rng_def split: if_splits)
  have "length m \<le> max 3 (65536 div 8 + 3)" using mark_channels_length[OF _ m(1) assms(2)] by simp
  then show ?thesis using c m(2) by auto
qed

section \<open>From the request to the notice\<close>

text \<open>The channels a request renames.\<close>

definition renamed :: "nat \<Rightarrow> rename_req list \<Rightarrow> nat set" where
  "renamed n rs = {unat (rn_local_id r) - 1 | r. r \<in> set rs \<and> rn_local_id r \<noteq> 0 \<and> unat (rn_local_id r) - 1 < n}"

lemma rename_names_changed:
  "set (snd (rename_names rs names changed)) = set changed \<union> renamed (length names) rs"
proof (induction rs names changed rule: rename_names.induct)
  case (2 r rs names changed)
  then show ?case by (auto simp: Let_def renamed_def)
qed (simp add: renamed_def)

lemma rename_rx_queue:
  "\<exists>chs. rename_rx rs sh = (sh\<lparr>sh_rx_names := fst (rename_names rs (sh_rx_names sh) []),
      sh_info_tx := sh_info_tx sh @ (if chs = [] then [] else [ChannelChange chs])\<rparr>) \<and> set chs = renamed (length (sh_rx_names sh)) rs"
proof -
  obtain names chs where r: "rename_names rs (sh_rx_names sh) [] = (names, chs)" by fastforce
  then show ?thesis
    using rename_names_changed[of rs "sh_rx_names sh" "[]"] by (intro exI[of _ chs]) (simp add: rename_rx_def)
qed

text \<open>
  C6: a controller that renames channels is told so, and so is everybody else: the request is
  acknowledged, and the info server, whose queue was empty, then sends one notice to the
  multicast group, which reads back with the device's identity and the next sequence number and
  marks exactly the channels renamed. A request that renames none makes no notice.
\<close>

theorem rename_is_noticed:
  assumes dev: "device_ok d" "dv_info d = Some sq" "sh_info_tx (dv_shared d) = []"
      "length (id_device_id (sh_identity (dv_shared d))) = 8" "length (st_vendor_tag (sh_settings (dv_shared d))) = 8"
    and req: "rr_decode (take 2048 buf) = Ret (Some (hdr, content))" "h_opcode1 hdr = OP_RENAME_RX"
      "parse_rename_rx (take 2048 buf) content = Ret rs"
  shows "\<exists>d'. device_run d [ArcTurn (Packet buf src), InfoTurn InfoEvent] = Ret d' \<and>
    (let ks = renamed (unat (st_rx_channels (sh_settings (dv_shared d)))) rs in
       if ks = {} then dv_out d' = dv_out d @ [(src, rr_encode_ok hdr [])] \<and> dv_info d' = Some sq
       else \<exists>pkt h c. dv_out d' = dv_out d @ [(src, rr_encode_ok hdr []), (INFO_DEST, pkt)] \<and> dv_info d' = Some (sq + 1) \<and>
         mcast_decode pkt = Ret (Some (h, c)) \<and> mc_seqnum h = sq \<and> mc_opcode h = OPCODE_CH_CHANGE \<and>
         mc_device_id h = id_device_id (sh_identity (dv_shared d)) \<and>
         mc_process h = id_process_id (sh_identity (dv_shared d)) \<and> (\<forall>ch. marked c ch \<longleftrightarrow> ch \<in> ks))"
proof -
  define sh where "sh = dv_shared d"
  define ks where "ks = renamed (unat (st_rx_channels (sh_settings sh))) rs"
  obtain chs where q: "rename_rx rs sh = (sh\<lparr>sh_rx_names := fst (rename_names rs (sh_rx_names sh) []),
      sh_info_tx := sh_info_tx sh @ (if chs = [] then [] else [ChannelChange chs])\<rparr>)" "set chs = renamed (length (sh_rx_names sh)) rs"
    using rename_rx_queue by blast
  have n: "length (sh_rx_names sh) = unat (st_rx_channels (sh_settings sh))"
    using shared_okD(6)[of sh] dev(1) by (simp add: device_ok_def sh_def)
  then have chs: "set chs = ks" using q(2) by (simp add: ks_def)
  define sh1 where "sh1 = rename_rx rs sh"
  have "arc_handle sh (take 2048 buf) = Ret (Some (rr_encode_ok hdr []), sh1, [])"
    using req by (simp add: arc_handle_def Let_def arc_op_defs sh1_def)
  then have arc: "device_step d (ArcTurn (Packet buf src)) =
      Ret (sends [(src, rr_encode_ok hdr [])] (d\<lparr>dv_shared := sh1\<rparr>))"
    by (simp add: device_step_def reply_to_def sh_def)
  show ?thesis
  proof (cases "chs = []")
    case True
    then have "sh_info_tx sh1 = []" using q(1) dev(3) by (simp add: sh1_def sh_def)
    then have "device_run d [ArcTurn (Packet buf src), InfoTurn InfoEvent] = Ret (sends [(src, rr_encode_ok hdr [])] (d\<lparr>dv_shared := sh1\<rparr>))"
      using arc dev(2) by (simp add: device_run_def device_step_def sends_def)
    then show ?thesis using chs True dev(2) by (simp add: ks_def sh_def sends_def)
  next
    case False
    then have tx: "sh_info_tx sh1 = [ChannelChange chs]" using q(1) dev(3) by (simp add: sh1_def sh_def)
    have same: "sh_identity sh1 = sh_identity sh" "sh_settings sh1 = sh_settings sh" by (simp_all add: sh1_def q(1))
    have "ch < 65536" if "ch \<in> set chs" for ch
      using that chs unat_less_u16[of "st_rx_channels (sh_settings sh)"] by (auto simp: ks_def renamed_def)
    then obtain c where c: "channel_change chs = Ret c" "length c < 65504" "\<forall>ch. marked c ch \<longleftrightarrow> ch \<in> set chs"
      using channel_change_wire[OF False] by blast
    define pkt where "pkt = wrap sh1 sq START_INFO OPCODE_CH_CHANGE c"
    obtain h where h: "mcast_decode pkt = Ret (Some (h, c))" "mc_seqnum h = sq" "mc_opcode h = OPCODE_CH_CHANGE"
      "mc_device_id h = id_device_id (sh_identity sh)" "mc_process h = id_process_id (sh_identity sh)"
      using mcast_roundtrip[of "id_device_id (sh_identity sh)" "st_vendor_tag (sh_settings sh)" OPCODE_CH_CHANGE c] dev(4,5) c(2)
      by (auto simp: pkt_def wrap_def same OPCODE_CH_CHANGE_def sh_def)
    have "info_step InfoEvent sh1 sq = Ret (sh1\<lparr>sh_info_tx := []\<rparr>, [(INFO_DEST, pkt)], sq + 1)"
      using tx c(1) by (simp add: send_channel_change_def next_seq_def pkt_def)
    then have "device_run d [ArcTurn (Packet buf src), InfoTurn InfoEvent] =
        Ret (sends [(INFO_DEST, pkt)] ((sends [(src, rr_encode_ok hdr [])] (d\<lparr>dv_shared := sh1\<rparr>))
          \<lparr>dv_shared := sh1\<lparr>sh_info_tx := []\<rparr>, dv_info := Some (sq + 1)\<rparr>))"
      using arc dev(2) by (simp add: device_run_def device_step_def sends_def)
    moreover have "ks \<noteq> {}" using chs False by auto
    ultimately show ?thesis
      using h c(3) chs unfolding ks_def[symmetric] sh_def[symmetric] by (auto simp: Let_def sends_def)
  qed
qed

theorem rename_is_noticed_witness:
  "\<exists>d' pkt h c. device_run (device_new demo_device) [InfoStart, ArcTurn (Packet demo_rename ((10, 0, 0, 9), 4000)), InfoTurn InfoEvent] = Ret d' \<and>
     (INFO_DEST, pkt) \<in> set (dv_out d') \<and> mcast_decode pkt = Ret (Some (h, c)) \<and> mc_seqnum h = 3 \<and> marked c 0 \<and> \<not> marked c 1"
proof -
  obtain out where "info_start demo_device = Ret (out, 3)" using info_start_ok by blast
  then obtain d where d: "device_step (device_new demo_device) InfoStart = Ret d" "dv_info d = Some 3" "dv_shared d = demo_device"
    by (auto simp: device_step_def device_new_def sends_def)
  have run: "device_run (device_new demo_device) (InfoStart # evs) = device_run d evs" for evs
    by (simp add: device_run_def d(1))
  have ok: "device_ok d"
    using device_run_ok[OF device_new_ok[OF start_shared_ok(1)[OF demo_start]], of "[InfoStart]"] d(1) by (simp add: device_run_def)
  have len: "take 2048 demo_rename = demo_rename" by (simp add: demo_rename_def lit_def)
  have dec: "rr_decode (take 2048 demo_rename) = Ret (Some (\<lparr>h_start_code = 0x2729, h_total_length = 19, h_seqnum = 7,
      h_opcode1 = OP_RENAME_RX, h_opcode2 = 0\<rparr>, [0, 1] @ [0, 1, 0, 16] @ lit ''Hi'' @ [0]))"
    unfolding len unfolding demo_rename_def
    using rr_decode_encode[where c = "[0, 1] @ [0, 1, 0, 16] @ lit ''Hi'' @ [0]"] by (simp add: lit_def)
  have parse: "parse_rename_rx (take 2048 demo_rename) ([0, 1] @ [0, 1, 0, 16] @ lit ''Hi'' @ [0]) =
      Ret [\<lparr>rn_local_id = 1, rn_new_name = lit ''Hi''\<rparr>]" by code_simp
  have ks: "renamed (unat (st_rx_channels (sh_settings (dv_shared d)))) [\<lparr>rn_local_id = 1, rn_new_name = lit ''Hi''\<rparr>] = {0}"
    by (auto simp: renamed_def d(3) demo_fields default_settings_def)
  have typed: "sh_info_tx (dv_shared d) = []" "length (id_device_id (sh_identity (dv_shared d))) = 8"
    "length (st_vendor_tag (sh_settings (dv_shared d))) = 8"
    using demo_id by (simp_all add: d(3) demo_fields default_settings_def lit_def)
  obtain d' pkt h c a where w: "device_run d [ArcTurn (Packet demo_rename ((10, 0, 0, 9), 4000)), InfoTurn InfoEvent] = Ret d'"
    "dv_out d' = dv_out d @ [a, (INFO_DEST, pkt)]" "mcast_decode pkt = Ret (Some (h, c))" "mc_seqnum h = 3"
    "\<forall>ch. marked c ch \<longleftrightarrow> ch \<in> {0}"
    using rename_is_noticed[OF ok d(2) typed dec _ parse, of "((10, 0, 0, 9), 4000)"] unfolding ks by (auto simp: Let_def)
  then have "marked c 0 \<and> \<not> marked c 1" "(INFO_DEST, pkt) \<in> set (dv_out d')" by simp_all
  with w show ?thesis unfolding run by blast
qed

end
