(* ===== verification/Receiver.thy ===== *)
theory Receiver
  imports Teardown
begin

text \<open>
  \<open>examples/rx.rs\<close>: the receiver on the command line. It makes settings of its arguments,
  starts a device, prints its ports, and then reads a block every 10 ms and reports the peaks
  of its channels every second. The parsing of the command line itself is clap's: the model
  starts from the parsed arguments. The lines that are printed are values; the text of a
  level in decibels, which needs the logarithm of the platform, is a parameter.
\<close>

section \<open>Text\<close>

text \<open>The UTF-8 of a string, the padding \<open>{:<w}\<close>, which counts characters, and \<open>{:?}\<close> of ports.\<close>

definition utf8 :: "nat list \<Rightarrow> rstr" where "utf8 bs = map of_nat bs"

definition chars :: "rstr \<Rightarrow> nat" where
  "chars s = length (filter (\<lambda>b. unat b < 128 \<or> 192 \<le> unat b) s)"

definition pad_right :: "nat \<Rightarrow> rstr \<Rightarrow> rstr" where
  "pad_right w s = s @ replicate (w - chars s) 32"

fun join_str :: "rstr \<Rightarrow> rstr list \<Rightarrow> rstr" where
  "join_str sep [] = []"
| "join_str sep [s] = s"
| "join_str sep (s # ss) = s @ sep @ join_str sep ss"

definition show_ports :: "u16 list \<Rightarrow> rstr" where
  "show_ports ps = lit ''['' @ join_str (lit '', '') (map (\<lambda>p. show_dec (unat p)) ps) @ lit '']''"

section \<open>Arguments\<close>

datatype bit_depth = Depth16 | Depth24 | Depth32

fun bits_from :: "bit_depth \<Rightarrow> pcm_bits" where
  "bits_from Depth16 = B16"
| "bits_from Depth24 = B24"
| "bits_from Depth32 = B32"

record listen_args =
  la_bind :: rstr
  la_name :: rstr
  la_rx_channels :: u16
  la_sample_rate :: u32
  la_bits :: bit_depth
  la_latency_ms :: u64
  la_alt_port :: "u16 option"

definition parse_sample_rate :: "rstr \<Rightarrow> rstr + u32" where
  "parse_sample_rate raw =
     (let allowed = [44100, 48000, 88200, 96000]
      in case parse_u32 raw of
           None \<Rightarrow> Inl (utf8 [115, 97, 109, 112, 108, 101, 45, 114, 97, 116, 101, 32, 227, 129, 175, 230, 149, 180, 230,
             149, 176, 227, 129, 167, 230, 140, 135, 229, 174, 154, 227, 129, 151, 227, 129, 166, 227, 129, 143, 227, 129,
             160, 227, 129, 149, 227, 129, 132, 58, 32] @ raw)
         | Some rate \<Rightarrow>
             if List.member allowed rate then Inr rate
             else Inl (utf8 [115, 97, 109, 112, 108, 101, 45, 114, 97, 116, 101, 32, 227, 129, 175, 32] @
               join_str (lit '' / '') (map (\<lambda>n :: u32. show_dec (unat n)) allowed) @
               utf8 [32, 227, 129, 174, 227, 129, 132, 227, 129, 154, 227, 130, 140, 227, 129, 139, 227, 129, 167, 227, 129, 153]))"

definition parse_bind :: "rstr \<Rightarrow> bind" where
  "parse_bind raw = (case parse_ipv4 raw of Some ip \<Rightarrow> BindIp ip | None \<Rightarrow> BindInterface raw)"

definition settings_from_args :: "u32 \<Rightarrow> listen_args \<Rightarrow> settings" where
  "settings_from_args os_pid args =
     (let latency = unat (la_latency_ms args) * 1000000
      in (default_settings os_pid)\<lparr>st_name := la_name args, st_bind := parse_bind (la_bind args),
           st_rx_channels := la_rx_channels args, st_sample_rate := la_sample_rate args,
           st_bits := bits_from (la_bits args), st_rx_latency := latency, st_tx_latency := latency,
           st_alt_port := la_alt_port args\<rparr>)"

section \<open>What it prints\<close>

definition iface_line :: "rstr \<Rightarrow> rstr \<Rightarrow> rstr \<Rightarrow> rstr" where
  "iface_line name display ip = pad_right 24 name @ lit '' '' @ pad_right 24 display @ lit '' '' @ ip"

definition iface_lines :: "netdev_iface \<Rightarrow> rstr list" where
  "iface_lines i =
     (let display = (case nd_friendly i of Some n \<Rightarrow> n | None \<Rightarrow> (case nd_description i of Some d \<Rightarrow> d | None \<Rightarrow> []))
      in if nd_ipv4 i = [] then []
         else map (\<lambda>ip. iface_line (nd_name i) display (show_ipv4 ip))
                (filter (\<lambda>ip. \<not> is_unspecified ip) (map fst (nd_ipv4 i))))"

definition print_ifaces :: "netdev_iface list \<Rightarrow> rstr list" where
  "print_ifaces ifaces =
     iface_line (lit ''NAME'') (lit ''DISPLAY'') (lit ''IPv4'') # concat (map iface_lines ifaces)"

definition print_ports :: "rstr \<Rightarrow> rstr \<Rightarrow> bound_ports \<Rightarrow> rstr list" where
  "print_ports name bnd ports =
     (let dec = (\<lambda>p :: u16. show_dec (unat p))
      in [lit ''device  '' @ name, lit ''bind    '' @ bnd, lit ''ARC     UDP '' @ dec (bp_arc ports),
          lit ''CMC     UDP '' @ dec (bp_cmc ports), lit ''info    UDP '' @ dec (bp_info ports)] @
         (case bp_mdns ports of Some p \<Rightarrow> [lit ''mDNS    UDP '' @ dec p] | None \<Rightarrow> []) @
         (case bp_ptp_event ports of
            Some p \<Rightarrow> [lit ''PTP     UDP '' @ dec p @ lit '' / '' @
              dec (case bp_ptp_general ports of Some g \<Rightarrow> g | None \<Rightarrow> 0)]
          | None \<Rightarrow> []) @
         [if bp_media ports = [] then
            lit ''media   '' @ utf8 [227, 131, 145, 227, 131, 131, 227, 131, 129, 229, 190, 140, 227, 129, 171] @
            lit '' 0x3800..=0x397F'' @
            utf8 [32, 227, 129, 184, 32, 98, 105, 110, 100, 32, 227, 129, 151, 227, 129, 190, 227, 129, 153]
          else lit ''media   '' @ show_ports (bp_media ports)] @
         [utf8 [67, 116, 114, 108, 43, 67, 32, 227, 129, 167, 229, 129, 156, 230, 173, 162, 227, 129, 151, 227, 129, 190,
            227, 129, 153, 227, 128, 130]])"

fun clock_label :: "app_clock_status \<Rightarrow> rstr" where
  "clock_label AppUnlocked = lit ''unlocked''"
| "clock_label AppMediaDriven = lit ''media''"
| "clock_label AppPtpLocked = lit ''ptp''"

text \<open>
  \<open>unsigned_abs\<close> and \<open>saturating_abs\<close> of a sample; \<open>db_text\<close> prints \<open>20 log10 (m / 2 ^ 31)\<close>
  with one decimal in six columns.
\<close>

definition unsigned_abs :: "sample \<Rightarrow> u32" where
  "unsigned_abs s = (if sint s < 0 then - s else s)"

definition saturating_abs :: "sample \<Rightarrow> sample" where
  "saturating_abs s = (if s = 0x80000000 then 0x7FFFFFFF else if sint s < 0 then - s else s)"

definition peak_dbfs :: "(u32 \<Rightarrow> rstr) \<Rightarrow> sample \<Rightarrow> rstr" where
  "peak_dbfs db_text peak = (if peak = 0 then lit ''-inf'' else db_text (unsigned_abs peak))"

record report =
  rp_clock :: app_clock_status
  rp_frames :: u64
  rp_peaks :: "sample list"

definition report_line :: "(u32 \<Rightarrow> rstr) \<Rightarrow> report \<Rightarrow> rstr" where
  "report_line db_text rp =
     lit ''clock='' @ pad_right 6 (clock_label (rp_clock rp)) @ lit '' frames='' @
     pad_right 7 (show_dec (unat (rp_frames rp))) @ lit '' peak_dBFS=['' @
     join_str (lit '' '') (map (peak_dbfs db_text) (rp_peaks rp)) @ lit '']''"

text \<open>\<open>main\<close>: a result's line on the error output, and the exit code.\<close>

definition main_result :: "(io_kind \<Rightarrow> rstr) \<Rightarrow> dev_error + unit \<Rightarrow> rstr list \<times> nat" where
  "main_result io res = (case res of Inl e \<Rightarrow> ([lit ''error: '' @ show_error io e], 1) | Inr _ \<Rightarrow> ([], 0))"

section \<open>Listening\<close>

record meter =
  me_buf :: "sample list"
  me_peaks :: "sample list"
  me_frames :: u64
  me_last :: nat

definition meter_new :: "u16 \<Rightarrow> nat \<Rightarrow> meter" where
  "meter_new channels now =
     \<lparr>me_buf = replicate (64 * unat channels) 0, me_peaks = replicate (unat channels) 0, me_frames = 0, me_last = now\<rparr>"

definition sample_max :: "sample \<Rightarrow> sample \<Rightarrow> sample" where
  "sample_max a b = (if sint a \<le> sint b then b else a)"

definition peak_sample :: "sample list \<Rightarrow> nat \<Rightarrow> nat \<Rightarrow> sample list \<Rightarrow> nat \<Rightarrow> sample list outcome" where
  "peak_sample buf channels frame_i peaks ch =
     obind (idx buf (frame_i * channels + ch)) (\<lambda>s.
     obind (idx peaks ch) (\<lambda>p. set_idx peaks ch (sample_max p (saturating_abs s))))"

definition peak_frame :: "sample list \<Rightarrow> nat \<Rightarrow> sample list \<Rightarrow> nat \<Rightarrow> sample list outcome" where
  "peak_frame buf channels peaks frame_i = ofold (peak_sample buf channels frame_i) peaks [0..<channels]"

text \<open>
  A turn of the loop: \<open>lcl\<close> and \<open>now\<close> are the clocks \<open>try_read\<close> reads, \<open>elapsed_at\<close> and
  \<open>after\<close> the times at which the window is looked at and noted anew. An error of the device
  ends the loop.
\<close>

record listen_input =
  li_lcl :: u64
  li_now :: nat
  li_elapsed_at :: nat
  li_after :: nat

definition listen_turn ::
  "listen_input \<Rightarrow> shared \<times> meter \<Rightarrow> (shared \<times> (dev_error + meter \<times> report option)) outcome" where
  "listen_turn i st =
     (let (sh, m) = st;
          channels = unat (st_rx_channels (sh_settings sh));
          frame = \<lparr>af_media_time = \<lparr>mt_sample_index = 0, mt_ns = 0\<rparr>, af_sample_rate = 0, af_channels = 0,
            af_samples = me_buf m\<rparr>
      in obind (try_read (li_lcl i) (li_now i) frame sh) (\<lambda>(sh, frame, res). case res of
           Inl e \<Rightarrow> Ret (sh, Inl e)
         | Inr n \<Rightarrow>
             obind (ofold (peak_frame (af_samples frame) channels) (me_peaks m) [0..<n]) (\<lambda>peaks.
             let m = m\<lparr>me_buf := af_samples frame, me_frames := me_frames m + of_nat n, me_peaks := peaks\<rparr>
             in if li_elapsed_at i - me_last m \<ge> 1000000000 then
                  Ret (sh, Inr (m\<lparr>me_frames := 0, me_peaks := map (\<lambda>_. 0) (me_peaks m), me_last := li_after i\<rparr>,
                    Some \<lparr>rp_clock = device_clock_status sh, rp_frames = me_frames m, rp_peaks = me_peaks m\<rparr>))
                else Ret (sh, Inr (m, None)))))"

text \<open>Turns of the loop, each with the state it finds the device in; the reports, and the meter or the error at the end.\<close>

fun listen_run :: "(listen_input \<times> shared) list \<Rightarrow> meter \<Rightarrow> (report list \<times> (dev_error + meter)) outcome" where
  "listen_run [] m = Ret ([], Inr m)"
| "listen_run ((i, sh) # turns) m =
     obind (listen_turn i (sh, m)) (\<lambda>(_, res). case res of
       Inl e \<Rightarrow> Ret ([], Inl e)
     | Inr (m, rp) \<Rightarrow>
         obind (listen_run turns m) (\<lambda>(rps, r). Ret ((case rp of Some r \<Rightarrow> [r] | None \<Rightarrow> []) @ rps, r)))"

section \<open>What the meter shows\<close>

lemma sint_bounds32: "- 2147483648 \<le> sint (s :: sample) \<and> sint s \<le> 2147483647"
  using sint_ge[of s] sint_lt[of s] by simp

lemma sint_saturating_abs: "sint (saturating_abs s) = min \<bar>sint s\<bar> 2147483647"
proof (cases "s = 0x80000000")
  case True
  then show ?thesis by (simp add: saturating_abs_def)
next
  case False
  then have "sint s \<noteq> sint (0x80000000 :: sample)" using signed_word_eqI by blast
  then have "- 2147483648 < sint s" using sint_bounds32[of s] by simp
  then show ?thesis
    using False sint_bounds32[of s]
    by (auto simp: saturating_abs_def intro!: sint_eqI32 simp: wi_hom_neg[symmetric])
qed

lemma sint_sample_max: "sint (sample_max a b) = max (sint a) (sint b)"
  by (simp add: sample_max_def)

text \<open>The loops, and the value a sample counts with.\<close>

definition level :: "sample \<Rightarrow> int" where "level s = min \<bar>sint s\<bar> 2147483647"

lemma peak_frame_eq:
  assumes "length peaks = n" "f * n + n \<le> length buf"
  shows "peak_frame buf n peaks f =
    Ret (map (\<lambda>ch. sample_max (peaks ! ch) (saturating_abs (buf ! (f * n + ch)))) [0..<n])"
proof -
  define upto_ch where "upto_ch k = map (\<lambda>ch. if ch < k then sample_max (peaks ! ch) (saturating_abs (buf ! (f * n + ch)))
    else peaks ! ch) [0..<n]" for k
  have "ofold (peak_sample buf n f) peaks [0..<k] = Ret (upto_ch k)" if "k \<le> n" for k
    using that
  proof (induction k)
    case 0
    then show ?case using assms(1) by (auto simp: upto_ch_def intro!: nth_equalityI)
  next
    case (Suc k)
    have "set_idx (upto_ch k) k (sample_max (upto_ch k ! k) (saturating_abs (buf ! (f * n + k)))) = Ret (upto_ch (Suc k))"
      using Suc.prems by (auto simp: set_idx_Ret upto_ch_def nth_list_update intro!: nth_equalityI)
    moreover have "f * n + k < length buf" "k < length (upto_ch k)" using assms(2) Suc.prems by (simp_all add: upto_ch_def)
    ultimately show ?case using Suc by (simp add: ofold_append peak_sample_def idx_Ret)
  qed
  then show ?thesis by (simp add: peak_frame_def upto_ch_def)
qed

lemma peaks_eq:
  assumes "length peaks = n" "k * n \<le> length buf"
  shows "\<exists>peaks'. ofold (peak_frame buf n) peaks [0..<k] = Ret peaks' \<and> length peaks' = n \<and>
    (\<forall>ch < n. sint (peaks' ! ch) = Max (insert (sint (peaks ! ch)) ((\<lambda>f. level (buf ! (f * n + ch))) ` {..<k})))"
  using assms(2)
proof (induction k)
  case 0
  then show ?case using assms(1) by simp
next
  case (Suc k)
  then obtain p where p: "ofold (peak_frame buf n) peaks [0..<k] = Ret p" "length p = n"
    "\<forall>ch < n. sint (p ! ch) = Max (insert (sint (peaks ! ch)) ((\<lambda>f. level (buf ! (f * n + ch))) ` {..<k}))" by auto
  have "k * n + n \<le> length buf" using Suc.prems by simp
  note one = peak_frame_eq[OF p(2) this]
  have "sint (sample_max (p ! ch) (saturating_abs (buf ! (k * n + ch)))) =
      Max (insert (sint (peaks ! ch)) ((\<lambda>f. level (buf ! (f * n + ch))) ` {..<Suc k}))" if "ch < n" for ch
  proof -
    let ?A = "insert (sint (peaks ! ch)) ((\<lambda>f. level (buf ! (f * n + ch))) ` {..<k})"
    have "insert (sint (peaks ! ch)) ((\<lambda>f. level (buf ! (f * n + ch))) ` {..<Suc k}) = insert (level (buf ! (k * n + ch))) ?A"
      by (auto simp: lessThan_Suc)
    moreover have "Max (insert (level (buf ! (k * n + ch))) ?A) = max (level (buf ! (k * n + ch))) (Max ?A)"
      by (rule Max_insert) simp_all
    ultimately show ?thesis
      using p(3) that by (simp add: sint_sample_max sint_saturating_abs level_def[symmetric] max.commute del: Max_insert)
  qed
  then show ?case using p one by (simp add: ofold_append)
qed

lemma ring_read_size:
  assumes "ring_read now pos nchan k dst r = Ret (r', dst', n, p)"
  shows "length dst' = length dst" "n \<le> k"
proof -
  have s: "read_sample p m f st ch = Ret st' \<Longrightarrow> length (snd st') = length (snd st)" for p m f st ch st'
    by (cases st) (auto simp: read_sample_def Let_def obind_eq_Ret_iff set_idx_def split: if_splits)
  have f: "read_frame p m st f = Ret st' \<Longrightarrow> length (snd st') = length (snd st)" for p m st f st'
    unfolding read_frame_def by (erule ofold_frame) (rule s)
  have "length (snd st') = length (snd st)" if "ofold (read_frame p m) st fs = Ret st'" for p m st fs st'
    using that by (rule ofold_frame) (rule f)
  then show "length dst' = length dst" "n \<le> k"
    using assms by (fastforce simp: ring_read_def Let_def obind_eq_Ret_iff split: if_splits option.splits)+
qed

lemma try_read_size:
  assumes "try_read lcl now dst sh = Ret (sh', dst', Inr n)"
  shows "length (af_samples dst') = length (af_samples dst)"
    "n \<le> length (af_samples dst) div unat (st_rx_channels (sh_settings sh))"
  using assms ring_read_size
  by (auto simp: try_read_def Let_def obind_eq_Ret_iff split: if_splits)

text \<open>
  Blocks as they are read, with the count of their frames: the level of a channel over all of
  them, and a meter whose window has read them.
\<close>

definition levels :: "nat \<Rightarrow> nat \<Rightarrow> nat \<times> sample list \<Rightarrow> int set" where
  "levels nch ch b = (\<lambda>f. level (snd b ! (f * nch + ch))) ` {..<fst b}"

definition heard_level :: "nat \<Rightarrow> nat \<Rightarrow> (nat \<times> sample list) list \<Rightarrow> int" where
  "heard_level nch ch blocks = Max (insert 0 (\<Union>b \<in> set blocks. levels nch ch b))"

definition reads :: "nat \<Rightarrow> listen_input \<times> shared \<Rightarrow> nat \<times> sample list \<Rightarrow> bool" where
  "reads nch t b \<longleftrightarrow> (\<exists>frame sh' frame'. length (af_samples frame) = 64 * nch \<and>
     try_read (li_lcl (fst t)) (li_now (fst t)) frame (snd t) = Ret (sh', frame', Inr (fst b)) \<and> snd b = af_samples frame')"

definition window :: "nat \<Rightarrow> (nat \<times> sample list) list \<Rightarrow> meter \<Rightarrow> bool" where
  "window nch blocks m \<longleftrightarrow> length (me_buf m) = 64 * nch \<and> length (me_peaks m) = nch \<and>
     me_frames m = of_nat (sum_list (map fst blocks)) \<and>
     (\<forall>ch < nch. sint (me_peaks m ! ch) = heard_level nch ch blocks)"

lemma heard_level_snoc:
  "heard_level nch ch (blocks @ [b]) = Max (insert (heard_level nch ch blocks) (levels nch ch b))"
proof -
  let ?A = "\<Union>b \<in> set blocks. levels nch ch b"
  have fin: "finite ?A" "finite (levels nch ch b)" by (simp_all add: levels_def)
  have "Max (insert 0 ?A \<union> levels nch ch b) = Max (insert (Max (insert 0 ?A)) (levels nch ch b))"
  proof (cases "levels nch ch b = {}")
    case False
    then have "Max (insert 0 ?A \<union> levels nch ch b) = max (Max (insert 0 ?A)) (Max (levels nch ch b))"
      using fin by (intro Max_Un) simp_all
    also have "\<dots> = Max (insert (Max (insert 0 ?A)) (levels nch ch b))"
      using fin False by (intro Max_insert[symmetric]) simp_all
    finally show ?thesis .
  qed simp
  then show ?thesis by (simp add: heard_level_def Un_commute)
qed

lemma window_new: "window (unat channels) [] (meter_new channels now)"
  by (simp add: window_def meter_new_def heard_level_def)

lemma try_read_running:
  assumes "shared_ok sh" "\<not> sh_stopped sh"
  shows "\<exists>sh' dst' n. try_read lcl now dst sh = Ret (sh', dst', Inr n)"
proof -
  obtain sh' dst' res where r: "try_read lcl now dst sh = Ret (sh', dst', res)" using try_read_ok[OF assms(1)] by blast
  then have "\<exists>n. res = Inr n"
    using assms(2) by (auto simp: try_read_def Let_def obind_eq_Ret_iff split: if_splits)
  with r show ?thesis by blast
qed

lemma listen_turn_window:
  assumes "shared_ok sh" "\<not> sh_stopped sh" "window nch blocks m" "nch = unat (st_rx_channels (sh_settings sh))"
  shows "\<exists>sh' b m' rp. listen_turn i (sh, m) = Ret (sh', Inr (m', rp)) \<and> reads nch (i, sh) b \<and> fst b \<le> 64 \<and>
    (if 1000000000 \<le> li_elapsed_at i - me_last m
     then window nch [] m' \<and> me_last m' = li_after i \<and>
       (\<exists>r. rp = Some r \<and> rp_frames r = of_nat (sum_list (map fst (blocks @ [b]))) \<and> length (rp_peaks r) = nch \<and>
         (\<forall>ch < nch. sint (rp_peaks r ! ch) = heard_level nch ch (blocks @ [b])))
     else window nch (blocks @ [b]) m' \<and> me_last m' = me_last m \<and> rp = None)"
proof -
  define frame where "frame = \<lparr>af_media_time = \<lparr>mt_sample_index = 0, mt_ns = 0\<rparr>, af_sample_rate = 0, af_channels = 0,
    af_samples = me_buf m\<rparr>"
  obtain sh' frame' n where r: "try_read (li_lcl i) (li_now i) frame sh = Ret (sh', frame', Inr n)"
    using try_read_running[OF assms(1,2)] by blast
  have nch: "0 < nch" using shared_okD(1)[OF assms(1)] assms(4) by simp
  have buf: "length (af_samples frame) = 64 * nch" using assms(3) by (simp add: frame_def window_def)
  have n: "n \<le> 64" "length (af_samples frame') = 64 * nch"
    using try_read_size[OF r] buf nch by (simp_all add: assms(4)[symmetric])
  then have "n * nch \<le> length (af_samples frame')" by simp
  then obtain peaks where p: "ofold (peak_frame (af_samples frame') nch) (me_peaks m) [0..<n] = Ret peaks"
    "length peaks = nch" "\<forall>ch < nch. sint (peaks ! ch) =
      Max (insert (sint (me_peaks m ! ch)) ((\<lambda>f. level (af_samples frame' ! (f * nch + ch))) ` {..<n}))"
    using peaks_eq[of "me_peaks m" nch n "af_samples frame'"] assms(3) by (auto simp: window_def)
  define b where "b = (n, af_samples frame')"
  have lev: "sint (peaks ! ch) = heard_level nch ch (blocks @ [b])" if "ch < nch" for ch
    using p(3) assms(3) that by (simp add: heard_level_snoc window_def levels_def b_def)
  have rd: "reads nch (i, sh) b" using r buf by (auto simp: reads_def b_def)
  have nb: "fst b = n" by (simp add: b_def)
  have turn: "listen_turn i (sh, m) =
      (let m = m\<lparr>me_buf := af_samples frame', me_frames := me_frames m + of_nat n, me_peaks := peaks\<rparr>
       in if li_elapsed_at i - me_last m \<ge> 1000000000 then
            Ret (sh', Inr (m\<lparr>me_frames := 0, me_peaks := map (\<lambda>_. 0) (me_peaks m), me_last := li_after i\<rparr>,
              Some \<lparr>rp_clock = device_clock_status sh', rp_frames = me_frames m, rp_peaks = me_peaks m\<rparr>))
          else Ret (sh', Inr (m, None)))"
    using r p(1) by (simp add: listen_turn_def frame_def[symmetric] assms(4)[symmetric])
  have "window nch [] (m\<lparr>me_buf := af_samples frame', me_frames := 0, me_peaks := map (\<lambda>_. 0) peaks, me_last := li_after i\<rparr>)"
    using n(2) p(2) by (simp add: window_def heard_level_def)
  moreover have "window nch (blocks @ [b]) (m\<lparr>me_buf := af_samples frame', me_frames := me_frames m + of_nat n, me_peaks := peaks\<rparr>)"
    using n(2) p(2) lev assms(3) by (simp add: window_def nb)
  moreover have "me_frames m + of_nat n = of_nat (sum_list (map fst (blocks @ [b])))"
    using assms(3) by (simp add: window_def nb)
  ultimately show ?thesis
    using turn rd n(1) lev p(2)
    by (cases "1000000000 \<le> li_elapsed_at i - me_last m"; intro exI[of _ sh'] exI[of _ b]) (simp_all add: nb Let_def)
qed

definition turn_ok :: "nat \<Rightarrow> listen_input \<times> shared \<Rightarrow> bool" where
  "turn_ok nch t \<longleftrightarrow> shared_ok (snd t) \<and> \<not> sh_stopped (snd t) \<and> unat (st_rx_channels (sh_settings (snd t))) = nch"

lemma listen_turn_quiet:
  assumes "turn_ok nch (i, sh)" "window nch blocks m" "li_elapsed_at i - me_last m < 1000000000"
  shows "\<exists>sh' b m'. listen_turn i (sh, m) = Ret (sh', Inr (m', None)) \<and> reads nch (i, sh) b \<and> fst b \<le> 64 \<and>
    window nch (blocks @ [b]) m' \<and> me_last m' = me_last m"
proof -
  obtain sh' b m' rp where "listen_turn i (sh, m) = Ret (sh', Inr (m', rp))" "reads nch (i, sh) b" "fst b \<le> 64"
    "window nch (blocks @ [b]) m' \<and> me_last m' = me_last m \<and> rp = None"
    using listen_turn_window[of sh nch blocks m i] assms unfolding turn_ok_def if_not_P[OF assms(3)[unfolded not_le[symmetric]]]
    by (metis fst_conv snd_conv)
  then show ?thesis by blast
qed

lemma listen_turn_report:
  assumes "turn_ok nch (i, sh)" "window nch blocks m" "1000000000 \<le> li_elapsed_at i - me_last m"
  shows "\<exists>sh' b m' r. listen_turn i (sh, m) = Ret (sh', Inr (m', Some r)) \<and> reads nch (i, sh) b \<and> fst b \<le> 64 \<and>
    window nch [] m' \<and> rp_frames r = of_nat (sum_list (map fst (blocks @ [b]))) \<and> length (rp_peaks r) = nch \<and>
    (\<forall>ch < nch. sint (rp_peaks r ! ch) = heard_level nch ch (blocks @ [b]))"
proof -
  obtain sh' b m' rp where "listen_turn i (sh, m) = Ret (sh', Inr (m', rp))" "reads nch (i, sh) b" "fst b \<le> 64"
    "window nch [] m' \<and> me_last m' = li_after i \<and>
       (\<exists>r. rp = Some r \<and> rp_frames r = of_nat (sum_list (map fst (blocks @ [b]))) \<and> length (rp_peaks r) = nch \<and>
         (\<forall>ch < nch. sint (rp_peaks r ! ch) = heard_level nch ch (blocks @ [b])))"
    using listen_turn_window[of sh nch blocks m i] assms unfolding turn_ok_def if_P[OF assms(3)]
    by (metis fst_conv snd_conv)
  then show ?thesis by blast
qed

lemma quiet_turns:
  assumes "list_all (turn_ok nch) turns" "window nch blocks m"
    and "\<forall>t \<in> set turns. li_elapsed_at (fst t) - me_last m < 1000000000"
  shows "\<exists>bs m'. listen_run turns m = Ret ([], Inr m') \<and> list_all2 (reads nch) turns bs \<and> list_all (\<lambda>b. fst b \<le> 64) bs \<and>
    window nch (blocks @ bs) m' \<and> me_last m' = me_last m"
  using assms
proof (induction turns arbitrary: blocks m)
  case (Cons t turns)
  obtain i sh where t: "t = (i, sh)" by (cases t)
  have "turn_ok nch (i, sh)" "li_elapsed_at i - me_last m < 1000000000" using Cons.prems t by simp_all
  then obtain sh' b m1 where one: "listen_turn i (sh, m) = Ret (sh', Inr (m1, None))" "reads nch (i, sh) b" "fst b \<le> 64"
    "window nch (blocks @ [b]) m1" "me_last m1 = me_last m"
    using listen_turn_quiet[OF _ Cons.prems(2)] by blast
  obtain bs m' where "listen_run turns m1 = Ret ([], Inr m')" "list_all2 (reads nch) turns bs" "list_all (\<lambda>b. fst b \<le> 64) bs"
    "window nch ((blocks @ [b]) @ bs) m'" "me_last m' = me_last m"
    using Cons.IH[OF _ one(4)] Cons.prems one(5) by auto
  with one t show ?case by (intro exI[of _ "b # bs"] exI[of _ m']) simp
qed auto

lemma listen_run_snoc:
  "listen_run turns m = Ret ([], Inr m1) \<Longrightarrow> listen_run (turns @ [t]) m = listen_run [t] m1"
proof (induction turns arbitrary: m)
  case (Cons u turns)
  obtain i sh where u: "u = (i, sh)" by (cases u)
  obtain sh' res where lt: "listen_turn i (sh, m) = Ret (sh', res)" using Cons.prems by (auto simp: u obind_eq_Ret_iff)
  show ?case
  proof (cases res)
    case (Inr mr)
    obtain m2 rp where mr: "mr = (m2, rp)" by (cases mr)
    then have "rp = None" "listen_run turns m2 = Ret ([], Inr m1)"
      using Cons.prems lt Inr by (cases rp; auto simp: u obind_eq_Ret_iff)+
    then show ?thesis using Cons.IH[of m2] lt Inr mr by (cases t) (auto simp: u case_prod_beta)
  qed (use Cons.prems lt in \<open>simp add: u\<close>)
qed simp

lemma sum_blocks: "list_all (\<lambda>b. fst b \<le> 64) bs \<Longrightarrow> sum_list (map fst bs) \<le> 64 * length bs"
  by (induction bs) simp_all

text \<open>
  C34: the meter reports what it has read, and only that. Over a window of turns, in whatever
  states they find a running device, the report that ends it gives for every channel the
  greatest level of all samples read since the window began, with the lowest sample counted as
  the greatest, and the count of the frames read; no turn panics and the next window begins
  empty. A turn reads at most 64 frames and comes 10 ms or more after the one before: of the
  441 or more frames a channel receives in that time the meter sees at most 64.
\<close>

theorem meter_reports_peaks:
  assumes "list_all (turn_ok nch) (turns @ [t])" "window nch [] m"
    and "\<forall>t \<in> set turns. li_elapsed_at (fst t) - me_last m < 1000000000"
    and "1000000000 \<le> li_elapsed_at (fst t) - me_last m"
  shows "\<exists>blocks r m'. listen_run (turns @ [t]) m = Ret ([r], Inr m') \<and> window nch [] m' \<and>
    list_all2 (reads nch) (turns @ [t]) blocks \<and> length (rp_peaks r) = nch \<and>
    (\<forall>ch < nch. sint (rp_peaks r ! ch) = heard_level nch ch blocks) \<and>
    rp_frames r = of_nat (sum_list (map fst blocks)) \<and> sum_list (map fst blocks) \<le> 64 * length (turns @ [t])"
proof -
  obtain bs m1 where q: "listen_run turns m = Ret ([], Inr m1)" "list_all2 (reads nch) turns bs" "list_all (\<lambda>b. fst b \<le> 64) bs"
    "window nch bs m1" "me_last m1 = me_last m"
    using quiet_turns[of nch turns "[]" m] assms by auto
  obtain i sh where t: "t = (i, sh)" by (cases t)
  have "turn_ok nch (i, sh)" "1000000000 \<le> li_elapsed_at i - me_last m1" using assms(1,4) q(5) t by simp_all
  then obtain sh' b m' r where one: "listen_turn i (sh, m1) = Ret (sh', Inr (m', Some r))" "reads nch (i, sh) b" "fst b \<le> 64"
    "window nch [] m'" "rp_frames r = of_nat (sum_list (map fst (bs @ [b])))" "length (rp_peaks r) = nch"
    "\<forall>ch < nch. sint (rp_peaks r ! ch) = heard_level nch ch (bs @ [b])"
    using listen_turn_report[OF _ q(4)] by blast
  have "listen_run (turns @ [t]) m = Ret ([r], Inr m')" using listen_run_snoc[OF q(1)] one(1) by (simp add: t)
  moreover have "list_all2 (reads nch) (turns @ [t]) (bs @ [b])" using q(2) one(2) t by (simp add: list_all2_appendI)
  moreover have "sum_list (map fst (bs @ [b])) \<le> 64 * length (turns @ [t])"
    using sum_blocks[of "bs @ [b]"] q(2,3) one(3) by (simp add: list_all2_lengthD)
  ultimately show ?thesis using one by blast
qed

theorem meter_reports_peaks_witness:
  "\<exists>r m'. listen_run [(\<lparr>li_lcl = 0, li_now = 0, li_elapsed_at = 1000000000, li_after = 1000000000\<rparr>, demo_device)]
     (meter_new 1 0) = Ret ([r], Inr m') \<and> length (rp_peaks r) = 1"
proof -
  have "list_all (turn_ok 1) ([] @ [(\<lparr>li_lcl = 0, li_now = 0, li_elapsed_at = 1000000000, li_after = 1000000000\<rparr>, demo_device)])"
    using start_shared_ok(1)[OF demo_start] by (simp add: turn_ok_def demo_fields default_settings_def)
  from meter_reports_peaks[OF this, of "meter_new 1 0"] show ?thesis
    using window_new[of 1 0] by (auto simp: meter_new_def)
qed

section \<open>The arguments make valid settings\<close>

text \<open>
  The command line lets exactly the right rates through, and settings made of its
  arguments are valid exactly if the name is a DNS label of at most 31 bytes, there is a
  channel, and the address, where one is given, is usable: its own checks of the rate and the
  latency leave nothing of these to the device. The four rates read back from their text.
\<close>

theorem arguments_make_valid_settings:
  assumes "parse_sample_rate raw = Inr (la_sample_rate a)" "4 \<le> unat (la_latency_ms a)"
  shows "la_sample_rate a \<in> set ALLOWED_RATES \<and>
    (\<forall>r \<in> set ALLOWED_RATES. parse_sample_rate (show_dec (unat r)) = Inr r) \<and>
    (validate (settings_from_args pid a) = Inr () \<longleftrightarrow>
      validate_name (la_name a) = Inr () \<and> la_rx_channels a \<noteq> 0 \<and>
      (\<forall>ip. parse_ipv4 (la_bind a) = Some ip \<longrightarrow> usable_ip ip))"
proof -
  have r: "la_sample_rate a \<in> set ALLOWED_RATES"
    using assms(1) by (auto simp: parse_sample_rate_def ALLOWED_RATES_def Let_def split: option.splits if_splits)
  moreover have "parse_sample_rate (show_dec (unat r)) = Inr r" if "r \<in> set ALLOWED_RATES" for r
  proof -
    have "unat r < 4294967296" using that by (auto simp: ALLOWED_RATES_def)
    then have "parse_u32 (show_dec (unat r)) = Some r" by (simp add: parse_u32_def parse_show_dec)
    then show ?thesis using that by (auto simp: parse_sample_rate_def ALLOWED_RATES_def Let_def)
  qed
  moreover have "validate (settings_from_args pid a) = Inr () \<longleftrightarrow>
      validate_name (la_name a) = Inr () \<and> la_rx_channels a \<noteq> 0 \<and>
      (\<forall>ip. parse_ipv4 (la_bind a) = Some ip \<longrightarrow> usable_ip ip)"
  proof -
    have lat: "MIN_LATENCY \<le> unat (la_latency_ms a) * 1000000" using assms(2) by (simp add: MIN_LATENCY_def)
    have zero: "la_rx_channels a < 1 \<longleftrightarrow> la_rx_channels a = 0" by (simp add: word_less_nat_alt unat_eq_zero)
    show ?thesis
      using lat r
      by (auto simp: validate_def settings_from_args_def default_settings_def Let_def parse_bind_def zero usable_ip_def
          split: sum.split option.split)
  qed
  ultimately show ?thesis by blast
qed

theorem arguments_make_valid_settings_witness:
  "validate (settings_from_args 7 \<lparr>la_bind = lit ''en0'', la_name = lit ''rx'', la_rx_channels = 2, la_sample_rate = 96000,
     la_bits = Depth24, la_latency_ms = 10, la_alt_port = None\<rparr>) = Inr ()"
proof -
  have "parse_u32 (lit ''96000'') = Some 96000"
    by (simp add: parse_u32_def parse_below_def lit_def is_digit_def dec_value_def)
  then have "parse_sample_rate (lit ''96000'') = Inr 96000" by (simp add: parse_sample_rate_def)
  moreover have "validate_name (lit ''rx'') = Inr ()" "parse_ipv4 (lit ''en0'') = None" by code_simp+
  ultimately show ?thesis
    using arguments_make_valid_settings[where raw = "lit ''96000''" and pid = 7 and
      a = "\<lparr>la_bind = lit ''en0'', la_name = lit ''rx'', la_rx_channels = 2,
        la_sample_rate = 96000, la_bits = Depth24, la_latency_ms = 10, la_alt_port = None\<rparr>"]
    by simp
qed

end
