(* ===== verification/Seqlock.thy ===== *)
theory Seqlock
  imports Overlay
begin

text \<open>
  The threads of \<open>src/clock/overlay.rs\<close>: \<open>publish\<close> writes the three cells of a snapshot
  between two increments of the sequence number, and the loop of \<open>now_ns\<close> reads them
  between two loads of it. A thread's state says which of its atomic operations is next;
  a step is one operation of one thread. Every load is an \<open>Acquire\<close> and every store a
  \<open>Release\<close>, none of which an earlier or later one may pass, so the steps of a thread happen
  in its order; the interleaving is sequentially consistent.
\<close>

section \<open>The threads and their steps\<close>

type_synonym snapshot = "u64 \<times> u64 \<times> rat"

text \<open>A publishing thread, by its next operation, and a reading one, with what it has loaded.\<close>

datatype writer =
    Idle
  | StoreSync snapshot
  | StoreShift snapshot
  | StoreFreq snapshot
  | Leave snapshot

datatype reader =
    Enter
  | LoadSync u64
  | LoadShift u64 u64
  | LoadFreq u64 u64 u64
  | Check u64 snapshot
  | Done snapshot

text \<open>
  The cells, the threads and, for the specification only, the snapshots published so far,
  the initial one first.
\<close>

record seqlock =
  cell_seq :: u64
  cell_sync :: u64
  cell_shift :: u64
  cell_freq :: rat
  writers :: "nat \<Rightarrow> writer"
  readers :: "nat \<Rightarrow> reader"
  published :: "snapshot list"

definition cells :: "seqlock \<Rightarrow> snapshot" where
  "cells s = (cell_sync s, cell_shift s, cell_freq s)"

definition seqlock_init :: "overlay_clock \<Rightarrow> seqlock" where
  "seqlock_init c =
     \<lparr>cell_seq = 0, cell_sync = last_sync c, cell_shift = shift c, cell_freq = freq_scale c,
      writers = (\<lambda>_. Idle), readers = (\<lambda>_. Enter), published = [(last_sync c, shift c, freq_scale c)]\<rparr>"

abbreviation set_writer :: "nat \<Rightarrow> writer \<Rightarrow> seqlock \<Rightarrow> seqlock" where
  "set_writer w p s \<equiv> s\<lparr>writers := (writers s)(w := p)\<rparr>"

abbreviation set_reader :: "nat \<Rightarrow> reader \<Rightarrow> seqlock \<Rightarrow> seqlock" where
  "set_reader r p s \<equiv> s\<lparr>readers := (readers s)(r := p)\<rparr>"

text \<open>What a step does for the rest of the program.\<close>

datatype action = Internal | Publish snapshot | Read nat snapshot

text \<open>The steps, with the threads \<open>W\<close> that may publish.\<close>

inductive seqlock_step :: "nat set \<Rightarrow> action \<Rightarrow> seqlock \<Rightarrow> seqlock \<Rightarrow> bool" for W where
  enter: "w \<in> W \<Longrightarrow> writers s w = Idle \<Longrightarrow>
    seqlock_step W Internal s (set_writer w (StoreSync v) (s\<lparr>cell_seq := cell_seq s + 1\<rparr>))"
| store_sync: "writers s w = StoreSync v \<Longrightarrow>
    seqlock_step W Internal s (set_writer w (StoreShift v) (s\<lparr>cell_sync := fst v\<rparr>))"
| store_shift: "writers s w = StoreShift v \<Longrightarrow>
    seqlock_step W Internal s (set_writer w (StoreFreq v) (s\<lparr>cell_shift := fst (snd v)\<rparr>))"
| store_freq: "writers s w = StoreFreq v \<Longrightarrow>
    seqlock_step W Internal s (set_writer w (Leave v) (s\<lparr>cell_freq := snd (snd v)\<rparr>))"
| leave: "writers s w = Leave v \<Longrightarrow>
    seqlock_step W (Publish v) s
      (set_writer w Idle (s\<lparr>cell_seq := cell_seq s + 1, published := published s @ [v]\<rparr>))"
| load_seq: "readers s r = Enter \<Longrightarrow>
    seqlock_step W Internal s
      (set_reader r (if cell_seq s AND 1 \<noteq> 0 then Enter else LoadSync (cell_seq s)) s)"
| load_sync: "readers s r = LoadSync s1 \<Longrightarrow>
    seqlock_step W Internal s (set_reader r (LoadShift s1 (cell_sync s)) s)"
| load_shift: "readers s r = LoadShift s1 x \<Longrightarrow>
    seqlock_step W Internal s (set_reader r (LoadFreq s1 x (cell_shift s)) s)"
| load_freq: "readers s r = LoadFreq s1 x y \<Longrightarrow>
    seqlock_step W Internal s (set_reader r (Check s1 (x, y, cell_freq s)) s)"
| check_same: "readers s r = Check s1 v \<Longrightarrow> cell_seq s = s1 \<Longrightarrow> cell_seq s AND 1 = 0 \<Longrightarrow>
    seqlock_step W (Read r v) s (set_reader r (Done v) s)"
| check_again: "readers s r = Check s1 v \<Longrightarrow> cell_seq s \<noteq> s1 \<or> cell_seq s AND 1 \<noteq> 0 \<Longrightarrow>
    seqlock_step W Internal s (set_reader r Enter s)"
| call_again: "readers s r = Done v \<Longrightarrow> seqlock_step W Internal s (set_reader r Enter s)"

inductive seqlock_runs :: "nat set \<Rightarrow> action list \<Rightarrow> seqlock \<Rightarrow> seqlock \<Rightarrow> bool" for W where
  start: "seqlock_runs W [] s s"
| more: "seqlock_runs W as s t \<Longrightarrow> seqlock_step W a t u \<Longrightarrow> seqlock_runs W (as @ [a]) s u"

inductive_cases read_step: "seqlock_step W (Read r v) s t"
inductive_cases publish_step: "seqlock_step W (Publish v) s t"

section \<open>The invariant with one publishing thread\<close>

text \<open>How often the sequence number has been incremented.\<close>

definition ticks :: "nat \<Rightarrow> seqlock \<Rightarrow> nat" where
  "ticks w s = 2 * (length (published s) - 1) + (if writers s w = Idle then 0 else 1)"

text \<open>A reader that has seen no increment since it entered holds what the cells hold.\<close>

definition seen :: "nat \<Rightarrow> u64 \<Rightarrow> bool \<Rightarrow> bool" where
  "seen K s1 same \<longleftrightarrow> (\<exists>k \<le> K. even k \<and> s1 = of_nat k \<and> (k = K \<longrightarrow> same))"

fun reader_ok :: "nat \<Rightarrow> snapshot \<Rightarrow> reader \<Rightarrow> bool" where
  "reader_ok K c (LoadSync s1) = seen K s1 True"
| "reader_ok K c (LoadShift s1 x) = seen K s1 (x = fst c)"
| "reader_ok K c (LoadFreq s1 x y) = seen K s1 (x = fst c \<and> y = fst (snd c))"
| "reader_ok K c (Check s1 v) = seen K s1 (v = c)"
| "reader_ok K c _ = True"

text \<open>What the cells hold between the stores of the publishing thread.\<close>

fun writer_ok :: "snapshot \<Rightarrow> snapshot \<Rightarrow> writer \<Rightarrow> bool" where
  "writer_ok old c Idle = (c = old)"
| "writer_ok old c (StoreSync v) = (c = old)"
| "writer_ok old c (StoreShift v) = (c = (fst v, snd old))"
| "writer_ok old c (StoreFreq v) = (c = (fst v, fst (snd v), snd (snd old)))"
| "writer_ok old c (Leave v) = (c = v)"

definition seqlock_inv :: "nat \<Rightarrow> seqlock \<Rightarrow> bool" where
  "seqlock_inv w s \<longleftrightarrow>
     published s \<noteq> [] \<and> (\<forall>w'. w' \<noteq> w \<longrightarrow> writers s w' = Idle) \<and>
     cell_seq s = of_nat (ticks w s) \<and> writer_ok (last (published s)) (cells s) (writers s w) \<and>
     (\<forall>r. reader_ok (ticks w s) (cells s) (readers s r))"

lemma seqlock_inv_init: "seqlock_inv w (seqlock_init c)"
  by (simp add: seqlock_inv_def seqlock_init_def ticks_def cells_def)

lemma seen_later: "seen K s1 a \<Longrightarrow> K < K' \<Longrightarrow> seen K' s1 b"
  unfolding seen_def by (metis less_imp_le_nat nat_neq_iff order_trans not_less)

lemma seen_odd: "seen K s1 a \<Longrightarrow> odd K \<Longrightarrow> seen K s1 b"
  unfolding seen_def by blast

lemma reader_ok_later: "reader_ok K c p \<Longrightarrow> K < K' \<Longrightarrow> reader_ok K' c' p"
  by (cases p) (simp_all add: seen_later)

lemma reader_ok_odd: "reader_ok K c p \<Longrightarrow> odd K \<Longrightarrow> reader_ok K c' p"
  by (cases p) (simp_all add: seen_odd)

lemma and_one_of_nat: "(of_nat k :: u64) AND 1 = 0 \<longleftrightarrow> even k"
  by (simp add: and_one_eq flip: even_iff_mod_2_eq_zero)

lemma even_ticks: "even (ticks w s) \<longleftrightarrow> writers s w = Idle"
  by (simp add: ticks_def)

text \<open>The steps of the publishing thread, and of a reader.\<close>

lemma seqlock_invD:
  assumes "seqlock_inv w s"
  shows "published s \<noteq> []" "cell_seq s = of_nat (ticks w s)"
    "writer_ok (last (published s)) (cells s) (writers s w)"
  using assms by (simp_all add: seqlock_inv_def)

lemma writer_step_inv:
  assumes inv: "seqlock_inv w s" and w: "w' = w"
    and t: "published t \<noteq> []" "writers t = (writers s)(w' := p)" "readers t = readers s"
      "cell_seq t = of_nat (ticks w t)" "writer_ok (last (published t)) (cells t) p"
    and K: "ticks w s < ticks w t \<or> ticks w s = ticks w t \<and> odd (ticks w t)"
  shows "seqlock_inv w t"
proof -
  have "reader_ok (ticks w t) (cells t) (readers t r)" for r
  proof -
    have "reader_ok (ticks w s) (cells s) (readers s r)" using inv by (simp add: seqlock_inv_def)
    with K show ?thesis using reader_ok_later reader_ok_odd unfolding t(3) by metis
  qed
  then show ?thesis
    using inv w t by (simp add: seqlock_inv_def)
qed

lemma reader_step_inv:
  assumes "seqlock_inv w s" "reader_ok (ticks w s) (cells s) p"
  shows "seqlock_inv w (set_reader r p s)"
proof -
  have "ticks w (set_reader r p s) = ticks w s" "cells (set_reader r p s) = cells s"
    by (simp_all add: ticks_def cells_def)
  with assms show ?thesis by (simp add: seqlock_inv_def)
qed

lemma one_writer: "seqlock_inv w s \<Longrightarrow> writers s w' \<noteq> Idle \<Longrightarrow> w' = w"
  by (auto simp: seqlock_inv_def)

text \<open>A store between the increments.\<close>

lemma store_step_inv:
  assumes "seqlock_inv w s" "writers s w' \<noteq> Idle" "p \<noteq> Idle"
    and t: "published t = published s" "writers t = (writers s)(w' := p)" "readers t = readers s"
      "cell_seq t = cell_seq s"
    and cells: "\<And>old. writer_ok old (cells s) (writers s w') \<Longrightarrow> writer_ok old (cells t) p"
  shows "seqlock_inv w t"
proof -
  have w: "w' = w" by (rule one_writer[OF assms(1,2)])
  have "ticks w t = ticks w s" "odd (ticks w t)"
    using assms(2,3) w by (simp_all add: ticks_def t)
  with seqlock_invD[OF assms(1)] cells w t show ?thesis
    by (intro writer_step_inv[OF assms(1) w, of t p]) simp_all
qed

lemma seqlock_step_inv:
  assumes "seqlock_step {w} a s t" "seqlock_inv w s"
  shows "seqlock_inv w t"
  using assms
proof (induction rule: seqlock_step.induct)
  case (enter w' s v)
  define t where "t = set_writer w' (StoreSync v) (s\<lparr>cell_seq := cell_seq s + 1\<rparr>)"
  from enter have w: "w' = w" by simp
  have k: "ticks w t = Suc (ticks w s)" using enter(2) w by (simp add: t_def ticks_def)
  from seqlock_invD[OF enter.prems] enter(2) w k show ?case
    unfolding t_def[symmetric]
    by (intro writer_step_inv[OF enter.prems w, of t "StoreSync v"]) (simp_all add: t_def cells_def)
next
  case (store_sync s w' v)
  show ?case
    by (rule store_step_inv[OF store_sync.prems, of w' "StoreShift v"]) (use store_sync in \<open>simp_all add: cells_def prod_eq_iff\<close>)
next
  case (store_shift s w' v)
  show ?case
    by (rule store_step_inv[OF store_shift.prems, of w' "StoreFreq v"]) (use store_shift in \<open>simp_all add: cells_def prod_eq_iff\<close>)
next
  case (store_freq s w' v)
  show ?case
    by (rule store_step_inv[OF store_freq.prems, of w' "Leave v"]) (use store_freq in \<open>simp_all add: cells_def prod_eq_iff\<close>)
next
  case (leave s w' v)
  define t where "t = set_writer w' Idle (s\<lparr>cell_seq := cell_seq s + 1, published := published s @ [v]\<rparr>)"
  have w: "w' = w" by (rule one_writer[OF leave.prems]) (simp add: leave.hyps)
  from seqlock_invD[OF leave.prems] have "length (published s) = Suc (length (published s) - 1)"
    by simp
  then have k: "ticks w t = Suc (ticks w s)" using leave(1) w by (simp add: t_def ticks_def)
  from seqlock_invD[OF leave.prems] leave(1) w k show ?case
    unfolding t_def[symmetric]
    by (intro writer_step_inv[OF leave.prems w, of t Idle]) (simp_all add: t_def cells_def)
next
  case (load_seq s r)
  then show ?case
    by (intro reader_step_inv) (auto simp: seqlock_inv_def seen_def and_one_of_nat)
next
  case (load_sync s r s1)
  then have "reader_ok (ticks w s) (cells s) (LoadSync s1)" by (metis seqlock_inv_def)
  with load_sync show ?case
    by (intro reader_step_inv) (simp_all add: cells_def)
next
  case (load_shift s r s1 x)
  then have "reader_ok (ticks w s) (cells s) (LoadShift s1 x)" by (metis seqlock_inv_def)
  with load_shift show ?case
    by (intro reader_step_inv) (simp_all add: cells_def)
next
  case (load_freq s r s1 x y)
  then have "reader_ok (ticks w s) (cells s) (LoadFreq s1 x y)" by (metis seqlock_inv_def)
  with load_freq show ?case
    by (intro reader_step_inv) (simp_all add: cells_def)
qed (auto intro: reader_step_inv)

section \<open>The lock refines an atomic register\<close>

text \<open>
  What the rest of the program believes the clock to be: one value, that a publication
  replaces and a read returns.
\<close>

fun register_step :: "action \<Rightarrow> snapshot \<Rightarrow> snapshot \<Rightarrow> bool" where
  "register_step Internal old new = (new = old)"
| "register_step (Publish v) old new = (new = v)"
| "register_step (Read r v) old new = (v = old \<and> new = old)"

fun register_run :: "action list \<Rightarrow> snapshot \<Rightarrow> snapshot \<Rightarrow> bool" where
  "register_run [] old new = (new = old)"
| "register_run (a # as) old new = (\<exists>mid. register_step a old mid \<and> register_run as mid new)"

lemma register_run_snoc:
  "register_run as old mid \<Longrightarrow> register_step a mid new \<Longrightarrow> register_run (as @ [a]) old new"
proof (induction as arbitrary: old)
  case (Cons b as)
  then obtain m where m: "register_step b old m" "register_run as m mid"
    unfolding register_run.simps by blast
  then have "register_run (as @ [a]) m new" using Cons.IH Cons.prems(2) by blast
  with m(1) show ?case unfolding append_Cons register_run.simps by blast
qed (simp del: split_paired_Ex)

definition current :: "seqlock \<Rightarrow> snapshot" where "current s = last (published s)"

text \<open>
  A read returns the value current at its last load: the sequence number has not moved since
  the first, so no store has happened in between. It would take \<open>2 ^ 63\<close> publications for
  the number to come back.
\<close>

lemma read_current:
  assumes "seqlock_inv w s" "readers s r = Check s1 v" "cell_seq s = s1" "cell_seq s AND 1 = 0"
    and "length (published s) \<le> 2 ^ 63"
  shows "v = current s"
proof -
  define K where "K = ticks w s"
  have "0 < length (published s)" using assms(1) by (simp add: seqlock_inv_def)
  then obtain n where "length (published s) = Suc n" by (cases "length (published s)") auto
  then have K: "K < 18446744073709551616"
    using assms(5) by (simp add: K_def ticks_def)
  from assms(1) have seq: "cell_seq s = of_nat K" by (simp add: seqlock_inv_def K_def)
  from assms(1,2) have "reader_ok K (cells s) (Check s1 v)" by (metis seqlock_inv_def K_def)
  then obtain k where k: "k \<le> K" "s1 = of_nat k" "k = K \<Longrightarrow> v = cells s" by (auto simp: seen_def)
  have "unat s1 = k" unfolding k(2) by (rule unat_of_nat_u64) (use K k(1) in linarith)
  moreover have "unat s1 = K" unfolding assms(3)[symmetric] seq by (rule unat_of_nat_u64) (rule K)
  ultimately have "k = K" by simp
  moreover have "writers s w = Idle"
    using assms(4) seq by (simp add: and_one_of_nat K_def even_ticks)
  ultimately show ?thesis
    using k(3) assms(1) by (simp add: seqlock_inv_def current_def)
qed

lemma seqlock_step_refines:
  assumes "seqlock_step {w} a s t" "seqlock_inv w s" "length (published s) \<le> 2 ^ 63"
  shows "register_step a (current s) (current t)"
  using assms
proof (induction rule: seqlock_step.induct)
  case (check_same s r s1 v)
  then have "v = current s" by (intro read_current)
  then show ?case by (simp add: current_def)
qed (simp_all add: current_def)

lemma published_grows: "seqlock_step W a s t \<Longrightarrow> length (published s) \<le> length (published t)"
  by (induction rule: seqlock_step.induct) simp_all

lemma seqlock_runs_inv: "seqlock_runs {w} as s t \<Longrightarrow> seqlock_inv w s \<Longrightarrow> seqlock_inv w t"
  by (induction rule: seqlock_runs.induct) (auto intro: seqlock_step_inv)

text \<open>
  C10: with one publishing thread and any number of reading ones, however their operations
  interleave, the clock behaves as one atomic value: each publication replaces it, and every
  call of \<open>now_ns\<close> that returns computes with the value current at one moment of the call,
  never with cells of different publications.
\<close>

theorem seqlock_refines_register:
  assumes "seqlock_runs {w} as (seqlock_init c) s" "length (published s) \<le> 2 ^ 63"
  shows "register_run as (last_sync c, shift c, freq_scale c) (current s)"
  using assms
proof (induction as "seqlock_init c" s rule: seqlock_runs.induct)
  case start
  then show ?case by (simp add: current_def seqlock_init_def)
next
  case (more as t a u)
  have le: "length (published t) \<le> 2 ^ 63"
    using published_grows[OF more.hyps(3)] more.prems by simp
  have "seqlock_inv w t"
    using seqlock_runs_inv[OF more.hyps(1)] seqlock_inv_init by simp
  with more.hyps le show ?case
    by (blast intro: register_run_snoc seqlock_step_refines)
qed

lemma runs_Cons: "seqlock_runs W as t u \<Longrightarrow> seqlock_step W a s t \<Longrightarrow> seqlock_runs W (a # as) s u"
proof (induction rule: seqlock_runs.induct)
  case (start t)
  then show ?case using seqlock_runs.more[OF seqlock_runs.start] by force
next
  case (more as t u b v)
  then have "seqlock_runs W ((a # as) @ [b]) s v" by (intro seqlock_runs.more)
  then show ?case by simp
qed

text \<open>A thread's operations in a row, the others standing still.\<close>

lemma publish_alone:
  assumes "w \<in> W" "writers s w = Idle"
  shows "seqlock_runs W [Internal, Internal, Internal, Internal, Publish v] s
    (s\<lparr>cell_seq := cell_seq s + 2, cell_sync := fst v, cell_shift := fst (snd v), cell_freq := snd (snd v),
       published := published s @ [v]\<rparr>)"
proof -
  define s1 where "s1 = set_writer w (StoreSync v) (s\<lparr>cell_seq := cell_seq s + 1\<rparr>)"
  define s2 where "s2 = set_writer w (StoreShift v) (s1\<lparr>cell_sync := fst v\<rparr>)"
  define s3 where "s3 = set_writer w (StoreFreq v) (s2\<lparr>cell_shift := fst (snd v)\<rparr>)"
  define s4 where "s4 = set_writer w (Leave v) (s3\<lparr>cell_freq := snd (snd v)\<rparr>)"
  define s5 where "s5 = set_writer w Idle (s4\<lparr>cell_seq := cell_seq s4 + 1, published := published s4 @ [v]\<rparr>)"
  have steps: "seqlock_step W Internal s s1" "seqlock_step W Internal s1 s2" "seqlock_step W Internal s2 s3"
    "seqlock_step W Internal s3 s4" "seqlock_step W (Publish v) s4 s5"
    using seqlock_step.enter[of w W s v] seqlock_step.store_sync[of s1 w v W]
      seqlock_step.store_shift[of s2 w v W] seqlock_step.store_freq[of s3 w v W]
      seqlock_step.leave[of s4 w v W] assms
    by (simp_all add: s1_def s2_def s3_def s4_def s5_def)
  have "(writers s)(w := Idle) = writers s" using assms(2) by auto
  then have "s5 = s\<lparr>cell_seq := cell_seq s + 2, cell_sync := fst v, cell_shift := fst (snd v),
      cell_freq := snd (snd v), published := published s @ [v]\<rparr>"
    by (simp add: s1_def s2_def s3_def s4_def s5_def)
  with steps show ?thesis by (metis runs_Cons seqlock_runs.start)
qed

lemma read_alone:
  assumes "readers s r = Enter" "cell_seq s AND 1 = 0"
  shows "seqlock_runs W [Internal, Internal, Internal, Internal, Read r (cells s)] s (set_reader r (Done (cells s)) s)"
proof -
  define s1 where "s1 = set_reader r (LoadSync (cell_seq s)) s"
  define s2 where "s2 = set_reader r (LoadShift (cell_seq s) (cell_sync s)) s1"
  define s3 where "s3 = set_reader r (LoadFreq (cell_seq s) (cell_sync s) (cell_shift s)) s2"
  define s4 where "s4 = set_reader r (Check (cell_seq s) (cells s)) s3"
  define s5 where "s5 = set_reader r (Done (cells s)) s4"
  have "seqlock_step W Internal s s1" "seqlock_step W Internal s1 s2" "seqlock_step W Internal s2 s3"
    "seqlock_step W Internal s3 s4" "seqlock_step W (Read r (cells s)) s4 s5"
    using seqlock_step.load_seq[of s r W] seqlock_step.load_sync[of s1 r "cell_seq s" W]
      seqlock_step.load_shift[of s2 r "cell_seq s" "cell_sync s" W]
      seqlock_step.load_freq[of s3 r "cell_seq s" "cell_sync s" "cell_shift s" W]
      seqlock_step.check_same[of s4 r "cell_seq s" "cells s" W] assms
    by (simp_all add: s1_def s2_def s3_def s4_def s5_def cells_def)
  moreover have "s5 = set_reader r (Done (cells s)) s"
    by (simp add: s1_def s2_def s3_def s4_def s5_def)
  ultimately show ?thesis by (metis runs_Cons seqlock_runs.start)
qed

lemma runs_append: "seqlock_runs W as s t \<Longrightarrow> seqlock_runs W bs t u \<Longrightarrow> seqlock_runs W (as @ bs) s u"
  by (rotate_tac, induction rule: seqlock_runs.induct)
     (auto intro: seqlock_runs.more simp flip: append_assoc)

text \<open>A snapshot published, then read.\<close>

theorem seqlock_refines_register_witness:
  "\<exists>as s. seqlock_runs {0} as (seqlock_init clock_new) s \<and> Read 1 (7, 8, 0) \<in> set as \<and>
     register_run as (0, 0, 0) (7, 8, 0)"
proof -
  define s where "s = seqlock_init clock_new"
  define t where "t = s\<lparr>cell_seq := cell_seq s + 2, cell_sync := 7, cell_shift := 8, cell_freq := 0,
    published := published s @ [(7, 8, 0)]\<rparr>"
  define u where "u = set_reader 1 (Done (cells t)) t"
  define as where "as = [Internal, Internal, Internal, Internal, Publish (7, 8, 0)] @
    [Internal, Internal, Internal, Internal, Read 1 (cells t)]"
  have "seqlock_runs {0} as s u"
    unfolding as_def u_def
    using publish_alone[of 0 "{0}" s "(7, 8, 0)"] read_alone[of t 1 "{0}"]
    by (intro runs_append[of _ _ s t]) (simp_all add: s_def t_def seqlock_init_def)
  moreover from this have "register_run as (0, 0, 0) (current u)"
    using seqlock_refines_register[of 0 as clock_new u]
    by (simp add: s_def clock_new_def u_def t_def seqlock_init_def)
  moreover have "current u = (7, 8, 0)" "Read 1 (7, 8, 0) \<in> set as"
    by (simp_all add: current_def u_def t_def as_def cells_def)
  ultimately show ?thesis by (auto simp: s_def)
qed

section \<open>Two publishing threads\<close>

text \<open>
  C27: the lock is not one for two publishing threads, and the program has two: the PTP
  listener and the media thread both call \<open>observe\<close>. Two increments make the number even
  while both are about to store, and a reader takes the half-written snapshot for a
  published one: it returns the new \<open>last_sync\<close> with the old shift and frequency.
\<close>

theorem two_publishers_tear:
  fixes v :: snapshot
  assumes "fst v \<noteq> last_sync c"
  shows "\<exists>as s. seqlock_runs {0, 1} as (seqlock_init c) s \<and>
    Read 2 (fst v, shift c, freq_scale c) \<in> set as \<and> (\<forall>x. Publish x \<notin> set as) \<and>
    \<not> register_run as (last_sync c, shift c, freq_scale c) (current s)"
proof -
  define s where "s = seqlock_init c"
  define s1 where "s1 = set_writer 0 (StoreSync v) (s\<lparr>cell_seq := cell_seq s + 1\<rparr>)"
  define s2 where "s2 = set_writer 1 (StoreSync v) (s1\<lparr>cell_seq := cell_seq s1 + 1\<rparr>)"
  define s3 where "s3 = set_writer 0 (StoreShift v) (s2\<lparr>cell_sync := fst v\<rparr>)"
  define u where "u = set_reader 2 (Done (cells s3)) s3"
  define as where "as = [Internal, Internal, Internal] @ [Internal, Internal, Internal, Internal, Read 2 (cells s3)]"
  have "seqlock_step {0, 1} Internal s s1" "seqlock_step {0, 1} Internal s1 s2" "seqlock_step {0, 1} Internal s2 s3"
    using seqlock_step.enter[of 0 "{0, 1}" s v] seqlock_step.enter[of 1 "{0, 1}" s1 v]
      seqlock_step.store_sync[of s2 0 v "{0, 1}"]
    by (simp_all add: s_def s1_def s2_def s3_def seqlock_init_def)
  then have pub: "seqlock_runs {0, 1} [Internal, Internal, Internal] s s3"
    by (metis runs_Cons seqlock_runs.start)
  have "seqlock_runs {0, 1} as s u"
    unfolding as_def u_def
    by (rule runs_append[OF pub read_alone]) (simp_all add: s_def s1_def s2_def s3_def seqlock_init_def)
  moreover have c: "cells s3 = (fst v, shift c, freq_scale c)"
    by (simp add: cells_def s_def s1_def s2_def s3_def seqlock_init_def)
  moreover have "\<not> register_run as (last_sync c, shift c, freq_scale c) x" for x
    using assms by (simp add: as_def c del: split_paired_Ex)
  moreover have "Read 2 (fst v, shift c, freq_scale c) \<in> set as" "\<forall>x. Publish x \<notin> set as"
    by (simp_all add: as_def c)
  ultimately show ?thesis unfolding s_def by blast
qed

theorem two_publishers_tear_witness:
  "\<exists>as s. seqlock_runs {0, 1} as (seqlock_init clock_new) s \<and> Read 2 (250000000, 0, 0) \<in> set as \<and>
     (\<forall>x. Publish x \<notin> set as)"
  using two_publishers_tear[of "(250000000, 4000, 0)" clock_new] by (auto simp: clock_new_def)

text \<open>
  What one publication leaves behind is what \<open>publish\<close> of \<open>Overlay\<close> says, and a read that
  returns computes what \<open>now_ns\<close> says.
\<close>

definition represents :: "seqlock \<Rightarrow> overlay_clock \<Rightarrow> bool" where
  "represents s c \<longleftrightarrow> cell_seq s = seq c \<and> cells s = (last_sync c, shift c, freq_scale c)"

lemma publish_represents:
  assumes "w \<in> W" "writers s w = Idle" "represents s c"
  shows "\<exists>t. seqlock_runs W [Internal, Internal, Internal, Internal, Publish (x, y, z)] s t \<and>
    represents t (publish x y z c)"
  by (rule exI, rule conjI, rule publish_alone[OF assms(1,2)])
     (use assms(3) in \<open>simp add: represents_def publish_def cells_def\<close>)

end
