(* ===== verification/Lifecycle.thy ===== *)
theory Lifecycle
  imports Establish "HOL-Library.Sublist"
begin

text \<open>
  A flow from its subscription to its end: what unsubscribing undoes, and how the media thread
  keeps the transmitter sending in between.
\<close>

section \<open>Subscribing\<close>

text \<open>The state a subscription request leaves: the channel names its transmitter and is live.\<close>

definition patched_state :: "subscribe_req \<Rightarrow> shared \<Rightarrow> shared" where
  "patched_state rec sh =
     (let j = unat (sr_local_id rec) - 1 in
      (set_sub j ((sh_subs sh ! j)\<lparr>sub_tx_channel := sr_tx_channel rec, sub_tx_host := sr_tx_host rec,
         sub_status := STATUS_UNRESOLVED\<rparr>) sh)\<lparr>sh_ring := set_patched j True (sh_ring sh)\<rparr>)"

lemma subscribe_patches:
  assumes "sr_local_id rec \<noteq> 0" "sr_tx_channel rec = Some ch" "sr_tx_host rec = Some host"
    and "unat (sr_local_id rec) - 1 < length (sh_subs sh)"
  shows "apply_all [rec] sh = (patched_state rec sh, [rec])"
  using assms by (simp add: apply_all_simps apply_one_def Let_def patched_state_def set_sub_def)

lemma patched_state_simps [simp]:
  "sh_settings (patched_state rec sh) = sh_settings sh" "sh_identity (patched_state rec sh) = sh_identity sh"
  "sh_flows_seq (patched_state rec sh) = sh_flows_seq sh" "sh_next_flow_id (patched_state rec sh) = sh_next_flow_id sh"
  "sh_media_open (patched_state rec sh) = sh_media_open sh" "sh_media_tx (patched_state rec sh) = sh_media_tx sh"
  "sh_stopped (patched_state rec sh) = sh_stopped sh" "sh_overlay (patched_state rec sh) = sh_overlay sh"
  "sh_override (patched_state rec sh) = sh_override sh" "sh_sent (patched_state rec sh) = sh_sent sh"
  "sh_rx_flows (patched_state rec sh) = sh_rx_flows sh" "length (sh_subs (patched_state rec sh)) = length (sh_subs sh)" "ring_len (sh_ring (patched_state rec sh)) = ring_len (sh_ring sh)"
  by (simp_all add: patched_state_def Let_def set_sub_def set_patched_def)

lemma patched_state_override [simp]: "resolve_override (patched_state rec sh) ch = resolve_override sh ch"
  by (simp add: resolve_override_def split: option.split)

section \<open>Unsubscribing\<close>

lemma remove_first_last:
  "\<forall>x \<in> set xs. \<not> P x \<Longrightarrow> P y \<Longrightarrow> remove_first P (xs @ [y]) = (Some y, xs)"
  by (induction xs) simp_all

text \<open>The state after a subscription and its end.\<close>

definition undone :: "u16 \<Rightarrow> resolved_tx \<Rightarrow> u16 \<Rightarrow> bytes \<Rightarrow> bytes option \<Rightarrow> shared \<Rightarrow> shared" where
  "undone k r port pkt handle sh =
     (let st = sh_settings sh; fid = sh_next_flow_id sh; j = unat k - 1; sq = sh_flows_seq sh in
      sh\<lparr>sh_subs := (sh_subs sh)[j := rx_sub_default], sh_ring := set_patched j False (sh_ring sh),
         sh_next_flow_id := fid + 1, sh_flows_seq := (if handle = None then sq + 1 else sq + 2),
         sh_media_tx := sh_media_tx sh @ [AddFlow fid port [Some j] 1 (bytes_of (st_bits st)) (st_sample_rate st), RemoveFlow fid],
         sh_sent := sh_sent sh @ [(rt_flows_addr r, pkt)] @
           (case handle of Some h \<Rightarrow> [(rt_flows_addr r, encode_stop (sq + 1) h)] | None \<Rightarrow> [])\<rparr>)"

lemma unsubscribe_established:
  assumes rec: "sr_local_id rec \<noteq> 0" and i: "unat (sr_local_id rec) - 1 < length (sh_subs sh)" and media: "sh_media_open sh"
    and fresh: "\<forall>f \<in> set (sh_rx_flows sh). fi_flow_id f \<noteq> sh_next_flow_id sh"
  shows "fst (unsubscribe_one (sr_local_id rec) (established rec r port pkt handle sh)) = undone (sr_local_id rec) r port pkt handle sh"
proof -
  define sh1 where "sh1 = established rec r port pkt handle sh"
  obtain f where f: "sh_rx_flows sh1 = sh_rx_flows sh @ [f]" "fi_flow_id f = sh_next_flow_id sh" "fi_handle f = handle"
    "fi_tx_addr f = rt_flows_addr r" by (simp add: sh1_def established_def Let_def)
  have rm: "remove_first (\<lambda>f. fi_flow_id f = sh_next_flow_id sh) (sh_rx_flows sh @ [f]) = (Some f, sh_rx_flows sh)"
    using fresh f(2) by (intro remove_first_last) auto
  have "fst (unsubscribe_one (sr_local_id rec) sh1) = stop_flow (sh_next_flow_id sh)
      ((set_sub (unat (sr_local_id rec) - 1) rx_sub_default sh1)\<lparr>sh_ring := set_patched (unat (sr_local_id rec) - 1) False (sh_ring sh1)\<rparr>)"
    using rec i by (simp add: apply_all_simps apply_one_def Let_def sh1_def established_def set_sub_def)
  then show ?thesis
    using f rm media i
    by (cases handle)
      (simp_all add: sh1_def stop_flow_def media_send_def set_sub_def undone_def established_def Let_def)
qed

lemma stop_reads_back:
  assumes "length h < 65526"
  shows "\<exists>hdr. rr_decode (encode_stop sq h) = Ret (Some (hdr, h)) \<and> h_seqnum hdr = sq \<and> h_opcode1 hdr = OP_STOP"
  using rr_decode_encode[of h START_CODE sq OP_STOP 0] assms by (simp add: encode_stop_def)

text \<open>
  C7: unsubscribing undoes a subscription. When a channel is subscribed, its task runs to its
  end and the channel is then unsubscribed, the device's state is the one before but for the two
  counters and what was sent: the channel has no transmitter, no status, no flow and no live
  reader, no flow is listed that was not before, the media thread is told to add the flow and to
  remove it, after which its flows are those it had, and the transmitter, which was asked for
  the flow, is asked to stop it with the handle it gave, in a packet that reads back. Nothing
  is stopped at a transmitter that gave no handle.
\<close>

theorem unsubscribe_undoes_subscription:
  assumes rec: "sr_local_id rec \<noteq> 0" "sr_tx_channel rec = Some ch" "sr_tx_host rec = Some host"
    and i: "unat (sr_local_id rec) - 1 < length (sh_subs sh)" and media: "sh_media_open sh"
    and idle: "sub_flow_id (sh_subs sh ! (unat (sr_local_id rec) - 1)) = None"
      "\<forall>f \<in> set (sh_rx_flows sh). fi_flow_id f \<noteq> sh_next_flow_id sh"
    and tx: "resolve_override sh ch = Some r \<or> resolve_override sh ch = None \<and>
      resolve_answers (st_sample_rate (sh_settings sh)) host ch (ou_chan ou) (ou_arc ou) = Inr r"
      "rt_sample_rate r = st_sample_rate (sh_settings sh)"
    and net: "ou_bind ou = Inr sock" "ou_local ou = Inr port" "ou_querier ou = None" "ou_reply ou = Some reply"
      "grants (sh_flows_seq sh) reply handle"
  shows "\<exists>sh1 sh2 pkt. apply_all [rec] sh = (sh1, [rec]) \<and>
    establish_run (replicate 9 ou) (sh1, spawn rec) = Ret (sh2, \<lparr>tk_rec = rec, tk_phase = Finished\<rparr>) \<and>
    fst (unsubscribe_one (sr_local_id rec) sh2) = undone (sr_local_id rec) r port pkt handle sh \<and>
    (\<forall>h. handle = Some h \<longrightarrow> (\<exists>hdr sq. rr_decode (encode_stop sq h) = Ret (Some (hdr, h)) \<and> h_seqnum hdr = sq \<and>
      h_opcode1 hdr = OP_STOP \<and> (rt_flows_addr r, encode_stop sq h) \<in> set (sh_sent (undone (sr_local_id rec) r port pkt handle sh)))) \<and>
    (\<forall>now addr flows. sh_media_tx sh = [] \<and> \<not> sh_stopped sh \<and> flows (sh_next_flow_id sh) = None \<longrightarrow>
      (\<exists>sh3 fl3 sh4. media_command_step now addr (undone (sr_local_id rec) r port pkt handle sh, flows) = Some (sh3, fl3) \<and>
        media_command_step now addr (sh3, fl3) = Some (sh4, flows) \<and> sh_media_tx sh4 = []))"
proof -
  define sh1 where "sh1 = patched_state rec sh"
  have app: "apply_all [rec] sh = (sh1, [rec])"
    unfolding sh1_def by (rule subscribe_patches[OF rec i])
  obtain pkt where run: "establish_run (replicate 9 ou) (sh1, spawn rec) =
      Ret (established rec r port pkt handle sh1, \<lparr>tk_rec = rec, tk_phase = Finished\<rparr>)"
    using spawned_run[of rec ch host sh1 r ou sock port reply handle] rec i media tx net by (auto simp: sh1_def)
  have "undone (sr_local_id rec) r port pkt handle sh1 = undone (sr_local_id rec) r port pkt handle sh"
    by (simp add: undone_def sh1_def patched_state_def Let_def set_sub_def set_patched_def)
  then have un: "fst (unsubscribe_one (sr_local_id rec) (established rec r port pkt handle sh1)) =
      undone (sr_local_id rec) r port pkt handle sh"
    using unsubscribe_established[of rec sh1 r port pkt handle] rec i media idle by (simp add: sh1_def)
  have six: "length h = 6" if "handle = Some h" for h
    using net(5) that by (auto simp: grants_def split: if_splits)
  then have stop: "\<exists>hdr sq. rr_decode (encode_stop sq h) = Ret (Some (hdr, h)) \<and> h_seqnum hdr = sq \<and>
      h_opcode1 hdr = OP_STOP \<and> (rt_flows_addr r, encode_stop sq h) \<in> set (sh_sent (undone (sr_local_id rec) r port pkt handle sh))"
    if "handle = Some h" for h
  proof -
    have "(rt_flows_addr r, encode_stop (sh_flows_seq sh + 1) h) \<in> set (sh_sent (undone (sr_local_id rec) r port pkt handle sh))"
      using that by (simp add: undone_def Let_def)
    then show ?thesis using stop_reads_back[of h "sh_flows_seq sh + 1"] six[OF that] by fastforce
  qed
  have "flows(sh_next_flow_id sh \<mapsto> f, sh_next_flow_id sh := None) = flows" if "flows (sh_next_flow_id sh) = None"
    for f and flows :: flow_table using that by auto
  then have "\<exists>sh3 fl3 sh4. media_command_step now addr (undone (sr_local_id rec) r port pkt handle sh, flows) = Some (sh3, fl3) \<and>
        media_command_step now addr (sh3, fl3) = Some (sh4, flows) \<and> sh_media_tx sh4 = []"
    if "sh_media_tx sh = []" "\<not> sh_stopped sh" "flows (sh_next_flow_id sh) = None" for now addr flows
    using that by (auto simp: media_command_step_def undone_def Let_def split: option.split)
  then show ?thesis using app run un stop by blast
qed

theorem unsubscribe_undoes_subscription_witness:
  "\<exists>sh sh1 sh2 pkt. apply_all [demo_rec] sh = (sh1, [demo_rec]) \<and>
     establish_run (replicate 9 demo_outside) (sh1, spawn demo_rec) = Ret (sh2, \<lparr>tk_rec = demo_rec, tk_phase = Finished\<rparr>) \<and>
     fst (unsubscribe_one 1 sh2) = undone 1 demo_tx 14336 pkt (Some [1, 2, 3, 4, 5, 6]) sh \<and>
     sh_rx_flows (fst (unsubscribe_one 1 sh2)) = []"
proof -
  define sh where "sh = set_subscribe_override (127, 0, 0, 1) 5000 demo_device"
  have "channel_number (lit ''1'') = 1"
    by (simp add: channel_number_def parse_u16_def parse_below_def lit_def is_digit_def dec_value_def)
  then have "resolve_override sh (lit ''1'') = Some demo_tx"
    by (simp add: resolve_override_def sh_def set_subscribe_override_def demo_tx_def demo_fields default_settings_def)
  then obtain sh1 sh2 pkt where w: "apply_all [demo_rec] sh = (sh1, [demo_rec])"
     "establish_run (replicate 9 demo_outside) (sh1, spawn demo_rec) = Ret (sh2, \<lparr>tk_rec = demo_rec, tk_phase = Finished\<rparr>)"
     "fst (unsubscribe_one 1 sh2) = undone 1 demo_tx 14336 pkt (Some [1, 2, 3, 4, 5, 6]) sh"
    using unsubscribe_undoes_subscription[of demo_rec "lit ''1''" "lit ''faketx''" sh demo_tx demo_outside 14336 14336 demo_reply
      "Some [1, 2, 3, 4, 5, 6]"] demo_grants
    by (auto simp: demo_rec_def sh_def set_subscribe_override_def demo_fields demo_tx_def default_settings_def demo_outside_def
      rx_sub_default_def)
  have "sh_rx_flows (undone 1 demo_tx 14336 pkt (Some [1, 2, 3, 4, 5, 6]) sh) = []"
    by (simp add: undone_def Let_def sh_def set_subscribe_override_def demo_fields)
  with w(3) have "sh_rx_flows (fst (unsubscribe_one 1 sh2)) = []" by simp
  with w show ?thesis by blast
qed

section \<open>Keeping the transmitter sending\<close>

text \<open>
  The turns of a flow, each at its time, with what the sockets hold then and the state the
  device is in: what the flow sends, with the times.
\<close>

fun keepalive_run ::
  "u16 \<Rightarrow> (nat \<times> (u16 \<Rightarrow> arrival list) \<times> shared) list \<Rightarrow> flow_table \<Rightarrow> (nat \<times> sock_addr \<times> bytes) list outcome" where
  "keepalive_run i [] flows = Ret []"
| "keepalive_run i ((now, socks, sh) # turns) flows =
     obind (flow_turn now socks (sh, flows) i) (\<lambda>(sh', flows').
     obind (keepalive_run i turns flows') (\<lambda>sent.
     Ret (map (Pair now) (drop (length (sh_sent sh)) (sh_sent sh')) @ sent)))"

lemma mark_flow_sent [simp]: "sh_sent (mark_flow_receiving k sh) = sh_sent sh"
  by (simp add: mark_flow_receiving_def)

lemma wake_sent [simp]: "sh_sent (wake sh) = sh_sent sh"
  by (simp add: wake_def)

text \<open>
  The source a flow has heard last, at each of its turns: the sender of the last packet its
  socket held then, or the one it had before.
\<close>

definition heard_last :: "sock_addr \<Rightarrow> arrival list \<Rightarrow> sock_addr" where
  "heard_last src ars = last (src # map ar_src ars)"

fun sources :: "u16 \<Rightarrow> sock_addr \<Rightarrow> (nat \<times> (u16 \<Rightarrow> arrival list) \<times> shared) list \<Rightarrow> (nat \<times> sock_addr) list" where
  "sources sock src [] = []"
| "sources sock src ((now, socks, sh) # turns) =
     (now, heard_last src (socks sock)) # sources sock (heard_last src (socks sock)) turns"

lemma heard_last_simps [simp]: "heard_last src [] = src" "heard_last src (ar # ars) = heard_last (ar_src ar) ars"
  by (simp_all add: heard_last_def)

lemma media_packet_keeps:
  assumes "media_packet (sh, f) ar = Ret (sh', f')"
  shows "sh_sent sh' = sh_sent sh" "mf_next_keepalive f' = mf_next_keepalive f" "mf_last_source f' = Some (ar_src ar)"
    "mf_sock f' = mf_sock f"
  using assms by (auto simp: media_packet_def Let_def obind_eq_Ret_iff split: if_splits option.splits prod.splits)

lemma media_packets_keep:
  "ofold media_packet (sh, f) ars = Ret (sh', f') \<Longrightarrow> mf_last_source f = Some src \<Longrightarrow>
    sh_sent sh' = sh_sent sh \<and> mf_next_keepalive f' = mf_next_keepalive f \<and> mf_sock f' = mf_sock f \<and>
    mf_last_source f' = Some (heard_last src ars)"
proof (induction ars arbitrary: sh f src)
  case (Cons ar ars)
  then obtain sh1 f1 where "media_packet (sh, f) ar = Ret (sh1, f1)" "ofold media_packet (sh1, f1) ars = Ret (sh', f')"
    by (auto simp: obind_eq_Ret_iff)
  with Cons.IH[of sh1 f1 "ar_src ar"] media_packet_keeps[of sh f ar sh1 f1] show ?case by simp
qed simp

lemma flow_turn_keepalive:
  assumes "flows i = Some f" "mf_last_source f = Some src" "flow_turn now socks (sh, flows) i = Ret (sh', flows')"
  defines "src' \<equiv> heard_last src (socks (mf_sock f))"
  shows "\<exists>f'. flows' = flows(i \<mapsto> f') \<and> mf_last_source f' = Some src' \<and> mf_sock f' = mf_sock f \<and>
    (if mf_next_keepalive f \<le> now
     then sh_sent sh' = sh_sent sh @ [(src', KEEPALIVE)] \<and> mf_next_keepalive f' = now + INTERVAL_NS
     else sh_sent sh' = sh_sent sh \<and> mf_next_keepalive f' = mf_next_keepalive f)"
proof -
  obtain sh1 f1 where one: "ofold media_packet (sh, f) (socks (mf_sock f)) = Ret (sh1, f1)"
    using assms(1,3) by (cases "ofold media_packet (sh, f) (socks (mf_sock f))") (auto simp: flow_turn_def)
  define f2 where "f2 = (if mf_next_keepalive f \<le> now then f1\<lparr>mf_next_keepalive := now + INTERVAL_NS\<rparr> else f1)"
  show ?thesis
    using assms(1,3) one media_packets_keep[OF one assms(2)]
    by (intro exI[of _ f2]) (auto simp: flow_turn_def media_keepalive_def f2_def src'_def)
qed

definition turns_ok :: "settings \<Rightarrow> (nat \<times> (u16 \<Rightarrow> arrival list) \<times> shared) list \<Rightarrow> bool" where
  "turns_ok s turns \<longleftrightarrow> list_all (\<lambda>(_, _, sh). shared_ok sh \<and> sh_settings sh = s) turns \<and> sorted (map fst turns)"

lemma keepalive_run_paced:
  assumes "flows i = Some f" "mf_last_source f = Some src" "turns_ok s turns" "flows_ok s flows"
  shows "\<exists>sent. keepalive_run i turns flows = Ret sent \<and>
    (\<forall>e \<in> set sent. mf_next_keepalive f \<le> fst e \<and> snd (snd e) = KEEPALIVE) \<and>
    subseq (map (\<lambda>(now, dest, _). (now, dest)) sent) (sources (mf_sock f) src turns) \<and>
    sorted_wrt (\<lambda>a b. fst a + INTERVAL_NS \<le> fst b) sent \<and>
    (\<forall>now \<in> fst ` set turns. mf_next_keepalive f \<le> now \<longrightarrow> (\<exists>e \<in> set sent. fst e \<le> now \<and> now < fst e + INTERVAL_NS))"
  using assms
proof (induction turns arbitrary: f flows src)
  case (Cons t turns)
  obtain now socks sh where t: "t = (now, socks, sh)" "fst t = now" by (cases t) auto
  have sh: "shared_ok sh" "sh_settings sh = s" "turns_ok s turns" "\<forall>n \<in> fst ` set turns. now \<le> n"
    using Cons.prems(3) by (auto simp: turns_ok_def t(1))
  obtain sh' flows' where turn: "flow_turn now socks (sh, flows) i = Ret (sh', flows')" "flows_ok s flows'"
    using flow_turn_ok[OF sh(1), of flows now socks i] Cons.prems(4) sh(2) by auto
  define src' where "src' = heard_last src (socks (mf_sock f))"
  obtain f' where f': "flows' i = Some f'" "mf_last_source f' = Some src'" "mf_sock f' = mf_sock f"
    "if mf_next_keepalive f \<le> now
     then sh_sent sh' = sh_sent sh @ [(src', KEEPALIVE)] \<and> mf_next_keepalive f' = now + INTERVAL_NS
     else sh_sent sh' = sh_sent sh \<and> mf_next_keepalive f' = mf_next_keepalive f"
    using flow_turn_keepalive[OF Cons.prems(1,2) turn(1)] by (auto simp: src'_def)
  obtain sent where run: "keepalive_run i turns flows' = Ret sent"
    "\<forall>e \<in> set sent. mf_next_keepalive f' \<le> fst e \<and> snd (snd e) = KEEPALIVE"
    "subseq (map (\<lambda>(now, dest, _). (now, dest)) sent) (sources (mf_sock f) src' turns)"
    "sorted_wrt (\<lambda>a b. fst a + INTERVAL_NS \<le> fst b) sent"
    "\<forall>n \<in> fst ` set turns. mf_next_keepalive f' \<le> n \<longrightarrow> (\<exists>e \<in> set sent. fst e \<le> n \<and> n < fst e + INTERVAL_NS)"
    using Cons.IH[OF f'(1,2) sh(3) turn(2)] unfolding f'(3) by blast
  have srcs: "sources (mf_sock f) src (t # turns) = (now, src') # sources (mf_sock f) src' turns"
    by (simp add: t(1) src'_def)
  show ?case
  proof (cases "mf_next_keepalive f \<le> now")
    case True
    then have f'': "sh_sent sh' = sh_sent sh @ [(src', KEEPALIVE)]" "mf_next_keepalive f' = now + INTERVAL_NS" using f'(4) by simp_all
    have all: "keepalive_run i (t # turns) flows = Ret ((now, src', KEEPALIVE) # sent)" using turn run(1) f'' by (simp add: t(1))
    have "\<exists>e \<in> set ((now, src', KEEPALIVE) # sent). fst e \<le> n \<and> n < fst e + INTERVAL_NS" if "n = now \<or> n \<in> fst ` set turns" for n
    proof (cases "now + INTERVAL_NS \<le> n")
      case True
      then have "n \<in> fst ` set turns" using that by (auto simp: INTERVAL_NS_def)
      then show ?thesis using run(5) True f''(2) by auto
    next
      case False
      then show ?thesis using that sh(4) by auto
    qed
    then show ?thesis
      using True run(2-4) f''(2) unfolding srcs all
      by (intro exI[of _ "(now, src', KEEPALIVE) # sent"]) (auto simp: t(2))
  next
    case False
    then have same: "sh_sent sh' = sh_sent sh" "mf_next_keepalive f' = mf_next_keepalive f" using f'(4) by simp_all
    then have "keepalive_run i (t # turns) flows = Ret sent" using turn run(1) by (simp add: t(1))
    then show ?thesis using run(2-5) same False unfolding srcs by (intro exI[of _ sent]) (auto simp: t(2))
  qed
qed simp

text \<open>
  C8: a flow that has heard its transmitter keeps it sending. Whatever its turns bring, none
  panics; it sends nothing but keepalives, each to the source it has heard last at the turn that
  sends it, the first not before it is due and each at least 250 ms after the one before; and
  after every turn at or after the due time the last one has been sent less than 250 ms before,
  so they come as often as the thread turns and the interval allow.
\<close>

theorem keepalives_paced:
  assumes "flows i = Some f" "mf_last_source f = Some src" "turns_ok s turns" "flows_ok s flows"
  shows "\<exists>sent. keepalive_run i turns flows = Ret sent \<and>
    (\<forall>e \<in> set sent. mf_next_keepalive f \<le> fst e \<and> snd (snd e) = KEEPALIVE) \<and>
    subseq (map (\<lambda>(now, dest, _). (now, dest)) sent) (sources (mf_sock f) src turns) \<and>
    sorted_wrt (\<lambda>a b. fst a + INTERVAL_NS \<le> fst b) sent \<and>
    (\<forall>now \<in> fst ` set turns. mf_next_keepalive f \<le> now \<longrightarrow> (\<exists>e \<in> set sent. fst e \<le> now \<and> now < fst e + INTERVAL_NS))"
  using assms by (rule keepalive_run_paced)

theorem keepalives_paced_witness:
  "\<exists>flows sent. keepalive_run 1 [(250000000, \<lambda>_. [], demo_device), (251000000, \<lambda>_. [], demo_device)] flows = Ret sent \<and>
     sent \<noteq> [] \<and> fst ` snd ` set sent = {((127, 0, 0, 1), 5000)}"
proof -
  define f where "f = \<lparr>mf_id = 1, mf_sock = 14336, mf_map = [Some 0], mf_nchan = 1, mf_bytes = 3, mf_rate = 48000,
    mf_last_source = Some ((127, 0, 0, 1), 5000), mf_next_keepalive = 250000000, mf_saw_packet = True\<rparr>"
  define turns where "turns = [(250000000 :: nat, (\<lambda>_. []) :: u16 \<Rightarrow> arrival list, demo_device), (251000000, \<lambda>_. [], demo_device)]"
  have "flows_ok (default_settings 7) [1 \<mapsto> f]"
    by (simp add: flows_ok_def flow_ok_def f_def default_settings_def)
  moreover have "turns_ok (default_settings 7) turns"
    using start_shared_ok(1)[OF demo_start] by (simp add: turns_ok_def demo_fields turns_def)
  ultimately obtain sent where w: "keepalive_run 1 turns [1 \<mapsto> f] = Ret sent"
    "subseq (map (\<lambda>(now, dest, _). (now, dest)) sent) (sources 14336 ((127, 0, 0, 1), 5000) turns)"
    "\<exists>e \<in> set sent. fst e \<le> 250000000"
    using keepalives_paced[of "[1 \<mapsto> f]" 1 f "((127, 0, 0, 1), 5000)" "default_settings 7" turns]
    by (auto simp: f_def turns_def)
  have "set (map (\<lambda>(now, dest, _). (now, dest)) sent) \<subseteq> set (sources 14336 ((127, 0, 0, 1), 5000) turns)"
    using list_emb_set[OF w(2)] by blast
  then have "fst ` snd ` set sent \<subseteq> {((127, 0, 0, 1), 5000)}" by (auto simp: turns_def)
  moreover have "sent \<noteq> []" using w(3) by auto
  ultimately have "sent \<noteq> [] \<and> fst ` snd ` set sent = {((127, 0, 0, 1), 5000)}" by (simp add: subset_singleton_iff)
  then show ?thesis using w(1) unfolding turns_def by blast
qed

end
