(* ===== verification/Session.thy ===== *)
theory Session
  imports Lifecycle
begin

text \<open>
  A whole session of one channel: the controller's request, the task it spawns, the turn in
  which the media thread takes the flow and its first packet, and what the application reads.
\<close>

section \<open>The steps of one task in the device\<close>


section \<open>The turn in which the flow begins\<close>

lemma now_ns_stale [simp]: "now_ns (mark_unlocked_if_stale l i c) = now_ns c"
  by (simp add: fun_eq_iff mark_unlocked_if_stale_def now_ns_def)

lemma note_port_simps [simp]:
  "ring_len (note_port p r) = ring_len r" "patched (note_port p r) = patched r" "in_window (note_port p r) = in_window r"
  by (simp_all add: note_port_def in_window_def fun_eq_iff)


section \<open>From the request to the sound\<close>

lemma established_simps [simp]:
  "sh_settings (established rec r port pkt h sh) = sh_settings sh" "sh_overlay (established rec r port pkt h sh) = sh_overlay sh"
  "sh_stopped (established rec r port pkt h sh) = sh_stopped sh" "sh_ring (established rec r port pkt h sh) = sh_ring sh"
  by (simp_all add: established_def Let_def)










end
