(* ===== verification/Wire.thy ===== *)
theory Wire
  imports Query
begin

text \<open>
  What the outside of a task is on the wire: the two queries, the sockets the operating system
  opens, and the exchange of \<open>send_flows_request\<close> (\<open>src/device/subscribe.rs\<close>).
\<close>

section \<open>The exchange with the transmitter\<close>

text \<open>Why a request is not sent, if it is not: \<open>sent\<close> is the result of \<open>send_to\<close>.\<close>

definition querier_error :: "os \<Rightarrow> ipv4 \<Rightarrow> io_kind option \<Rightarrow> dev_error option" where
  "querier_error os ip sent =
     (case rtry (rtry (bind_querier os ip) (std_to_tokio os)) (\<lambda>_. call sent) of Inl e \<Rightarrow> Some e | Inr _ \<Rightarrow> None)"

text \<open>The packet that answers it: none after 3 seconds, or when the socket fails.\<close>

definition reply_of :: "received option \<Rightarrow> bytes option" where
  "reply_of rc = (case rc of Some (Packet buf _) \<Rightarrow> Some buf | _ \<Rightarrow> None)"

text \<open>
  What happens on the wire while a task runs: for each query the result of sending it and what
  came, whether the media socket tells its address, the result of sending the request and what
  came before its timeout.
\<close>

record wire =
  wr_chan :: "io_kind option \<times> received"
  wr_arc :: "io_kind option \<times> received"
  wr_local :: "io_kind option"
  wr_sent :: "io_kind option"
  wr_reply :: "received option"

definition wire_outside :: "(io_kind \<Rightarrow> rstr) \<Rightarrow> os \<Rightarrow> ipv4 \<Rightarrow> rstr \<Rightarrow> rstr \<Rightarrow> wire \<Rightarrow> outside outcome" where
  "wire_outside io os ip host ch w =
     obind (mdns_query os ip (chan_instance ch host) QTYPE_ANY (fst (wr_chan w)) (snd (wr_chan w))) (\<lambda>(_, cm).
     obind (mdns_query os ip (service_instance host ARC_SERVICE) QTYPE_ANY (fst (wr_arc w)) (snd (wr_arc w))) (\<lambda>(_, am).
     let media = bind_in_range os ip MEDIA_PORT_START MEDIA_PORT_END
     in Ret \<lparr>ou_chan = answer_of io cm, ou_arc = answer_of io am, ou_bind = media,
          ou_local = (case wr_local w of Some k \<Rightarrow> Inl k | None \<Rightarrow> (case media of Inr p \<Rightarrow> Inr p | Inl _ \<Rightarrow> Inr 0)),
          ou_querier = querier_error os ip (wr_sent w), ou_reply = reply_of (wr_reply w)\<rparr>))"

lemma wire_outside_ok: "\<exists>ou. wire_outside io os ip host ch w = Ret ou"
proof -
  obtain o1 r1 where 1: "mdns_query os ip (chan_instance ch host) QTYPE_ANY (fst (wr_chan w)) (snd (wr_chan w)) = Ret (o1, r1)"
    using mdns_query_ok by blast
  obtain o2 r2 where 2: "mdns_query os ip (service_instance host ARC_SERVICE) QTYPE_ANY (fst (wr_arc w)) (snd (wr_arc w)) = Ret (o2, r2)"
    using mdns_query_ok by blast
  show ?thesis by (simp add: wire_outside_def 1 2 Let_def)
qed

section \<open>A transmitter that speaks the protocols\<close>

text \<open>The transmitter that the records of two answers describe, at the address \<open>a\<close>.\<close>

definition described_tx :: "u32 \<Rightarrow> rstr \<Rightarrow> rstr \<Rightarrow> dns_record list \<Rightarrow> bytes \<Rightarrow> resolved_tx" where
  "described_tx own_rate ch host rs a =
     (let fpp = last_value (record_txt txt_fpp) (16, 2) rs
      in \<lparr>rt_flows_addr = (from_octets a, last_value (record_port (chan_instance ch host)) 4455 rs),
          rt_sample_rate = last_value (record_txt txt_rate) own_rate rs,
          rt_tx_channel_id = last_value (record_txt txt_id) (channel_number ch) rs,
          rt_fpp_max = fst fpp, rt_fpp_min = snd fpp\<rparr>)"

lemma answers_describe:
  assumes "rs = m_answers cm @ m_additionals cm @ m_answers am @ m_additionals am" "last_value record_address None rs = Some a"
  shows "resolve_answers own_rate host ch (Inr (Some cm)) (Inr (Some am)) = Inr (described_tx own_rate ch host rs a)"
  unfolding resolve_answers_records assms(1)[symmetric]
  using assms(2) by (simp add: records_facts_def own_facts_def Let_def described_tx_def)

text \<open>
  C13: a transmitter that speaks the protocols is subscribed. When the operating system opens
  the sockets, both queries are answered with well-formed messages of at most 1500 bytes whose
  records give an address and the device's own rate, and the reply to the flow request grants it,
  a task runs to its end and leaves exactly the flow, at the first free media port, of the
  transmitter those records describe.
\<close>

theorem subscribed_over_wire:
  assumes rec: "sr_local_id rec \<noteq> 0" "sr_tx_channel rec = Some ch" "sr_tx_host rec = Some host"
      "unat (sr_local_id rec) - 1 < length (sh_subs sh)"
    and dev: "sh_media_open sh" "sh_override sh = None" "ip = id_ip (sh_identity sh)" "own_rate = st_sample_rate (sh_settings sh)"
    and os: "bind_querier os ip = Inr q" "os_option os (lit ''read_timeout'') = None" "std_to_tokio os q = Inr q'"
      "bind_in_range os ip MEDIA_PORT_START MEDIA_PORT_END = Inr port"
    and chan: "good_message cm" "mdns_encode cm = Ret cb" "length cb \<le> 1500"
    and arc: "good_message am" "mdns_encode am = Ret ab" "length ab \<le> 1500"
    and says: "rs = m_answers cm @ m_additionals cm @ m_answers am @ m_additionals am"
      "last_value record_address None rs = Some a" "last_value (record_txt txt_rate) own_rate rs = own_rate"
    and reply: "grants (sh_flows_seq sh) reply handle"
  shows "\<exists>ou pkt. wire_outside io os ip host ch
      \<lparr>wr_chan = (None, Packet cb src1), wr_arc = (None, Packet ab src2), wr_local = None, wr_sent = None,
       wr_reply = Some (Packet reply src3)\<rparr> = Ret ou \<and>
    flow_request sh (described_tx own_rate ch host rs a) port = Ret pkt \<and>
    establish_run (replicate 9 ou) (sh, spawn rec) =
      Ret (established rec (described_tx own_rate ch host rs a) port pkt handle sh, \<lparr>tk_rec = rec, tk_phase = Finished\<rparr>)"
proof -
  let ?r = "described_tx own_rate ch host rs a"
  define ou where "ou = \<lparr>ou_chan = Inr (Some cm), ou_arc = Inr (Some am), ou_bind = Inr port, ou_local = Inr port,
    ou_querier = None, ou_reply = Some reply\<rparr>"
  have "querier_error os ip None = None" using os(1,3) by (simp add: querier_error_def call_def)
  then have wire: "wire_outside io os ip host ch
      \<lparr>wr_chan = (None, Packet cb src1), wr_arc = (None, Packet ab src2), wr_local = None, wr_sent = None,
       wr_reply = Some (Packet reply src3)\<rparr> = Ret ou"
    using mdns_query_answered[OF os(1,2) chan, of "chan_instance ch host" QTYPE_ANY src1]
      mdns_query_answered[OF os(1,2) arc, of "service_instance host ARC_SERVICE" QTYPE_ANY src2] os(4)
    by (auto simp: wire_outside_def Let_def answer_of_def reply_of_def ou_def)
  have "rt_sample_rate ?r = own_rate" using says(3) by (simp add: described_tx_def Let_def)
  moreover have "resolve_override sh ch = None" using dev(2) by (simp add: resolve_override_def)
  ultimately show ?thesis
    using wire spawned_run[OF rec(1-4) dev(1), of ?r ou port port reply handle] answers_describe[OF says(1,2)] reply dev(4)
    by (auto simp: ou_def)
qed

theorem subscribed_over_wire_witness:
  "\<exists>ou pkt sh'. wire_outside (\<lambda>_. []) quiet_os (127, 0, 0, 1) (lit ''tx'') (lit ''L'')
      \<lparr>wr_chan = (None, Packet (message_bytes demo_chan) ((10, 0, 0, 7), 5353)),
       wr_arc = (None, Packet (message_bytes demo_none) ((10, 0, 0, 7), 5353)), wr_local = None, wr_sent = None,
       wr_reply = Some (Packet demo_reply ((10, 0, 0, 7), 14000))\<rparr> = Ret ou \<and>
    establish_run (replicate 9 ou) (demo_device, spawn \<lparr>sr_local_id = 1, sr_tx_channel = Some (lit ''L''), sr_tx_host = Some (lit ''tx'')\<rparr>) =
      Ret (sh', \<lparr>tk_rec = \<lparr>sr_local_id = 1, sr_tx_channel = Some (lit ''L''), sr_tx_host = Some (lit ''tx'')\<rparr>, tk_phase = Finished\<rparr>) \<and>
    sh_sent sh' = sh_sent demo_device @ [(((10, 0, 0, 7), 14000), pkt)]"
proof -
  define rec where "rec = \<lparr>sr_local_id = 1, sr_tx_channel = Some (lit ''L''), sr_tx_host = Some (lit ''tx'')\<rparr>"
  define rs where "rs = m_answers demo_chan @ m_additionals demo_chan @ m_answers demo_none @ m_additionals demo_none"
  have rs: "rs = m_answers demo_chan @ m_additionals demo_chan" by (simp add: rs_def demo_none_def)
  have recs: "sr_local_id rec \<noteq> 0" "sr_tx_channel rec = Some (lit ''L'')" "sr_tx_host rec = Some (lit ''tx'')"
    "unat (sr_local_id rec) - 1 < length (sh_subs demo_device)" by (simp_all add: rec_def demo_fields)
  have dev: "sh_media_open demo_device" "sh_override demo_device = None" "(127, 0, 0, 1) = id_ip (sh_identity demo_device)"
    "48000 = st_sample_rate (sh_settings demo_device)" by (simp_all add: demo_fields default_settings_def)
  have os: "bind_querier quiet_os (127, 0, 0, 1) = Inr 50000" "os_option quiet_os (lit ''read_timeout'') = None"
    "std_to_tokio quiet_os 50000 = Inr 50000" "bind_in_range quiet_os (127, 0, 0, 1) MEDIA_PORT_START MEDIA_PORT_END = Inr 14336"
    by (simp_all add: quiet_os_def bind_querier_def reject_eq usable_ip_def call_def set_multicast_if_v4_def std_to_tokio_def
      cfg_windows_def bind_in_range_def port_range_def upt_rec bind_unicast_def MEDIA_PORT_START_def MEDIA_PORT_END_def)
  have none: "good_message demo_none" by (simp add: good_message_def demo_none_def)
  have says: "last_value record_address None rs = Some [10, 0, 0, 7]" "last_value (record_txt txt_rate) 48000 rs = 48000"
    unfolding rs by (rule demo_values(1), rule demo_txt(1))
  have "grants (sh_flows_seq demo_device) demo_reply (Some [1, 2, 3, 4, 5, 6])" using demo_grants by (simp add: demo_fields)
  from subscribed_over_wire[OF recs dev os demo_chan_good mdns_encode_eq demo_answers_short(1) none mdns_encode_eq demo_answers_short(2)
      rs_def says this, of "\<lambda>_. []" "((10, 0, 0, 7), 5353)" "((10, 0, 0, 7), 5353)" "((10, 0, 0, 7), 14000)"]
  obtain ou pkt where w: "wire_outside (\<lambda>_. []) quiet_os (127, 0, 0, 1) (lit ''tx'') (lit ''L'')
      \<lparr>wr_chan = (None, Packet (message_bytes demo_chan) ((10, 0, 0, 7), 5353)),
       wr_arc = (None, Packet (message_bytes demo_none) ((10, 0, 0, 7), 5353)), wr_local = None, wr_sent = None,
       wr_reply = Some (Packet demo_reply ((10, 0, 0, 7), 14000))\<rparr> = Ret ou"
    "establish_run (replicate 9 ou) (demo_device, spawn rec) = Ret (established rec (described_tx 48000 (lit ''L'') (lit ''tx'') rs [10, 0, 0, 7])
       14336 pkt (Some [1, 2, 3, 4, 5, 6]) demo_device, \<lparr>tk_rec = rec, tk_phase = Finished\<rparr>)" by blast
  have "rt_flows_addr (described_tx 48000 (lit ''L'') (lit ''tx'') rs [10, 0, 0, 7]) = ((10, 0, 0, 7), 14000)"
    by (simp add: described_tx_def Let_def rs demo_values(2))
  then have "sh_sent (established rec (described_tx 48000 (lit ''L'') (lit ''tx'') rs [10, 0, 0, 7]) 14336 pkt
      (Some [1, 2, 3, 4, 5, 6]) demo_device) = sh_sent demo_device @ [(((10, 0, 0, 7), 14000), pkt)]"
    by (simp add: established_def Let_def)
  with w show ?thesis unfolding rec_def by blast
qed

end
