(* ===== verification/Spec2Isabelle.thy ===== *)
theory Spec2Isabelle
  imports Cmc Clock_Lock Console Discovery Launch Notices Receiver Seqlock Session Started Wire
begin

text \<open>
  A model of \<open>netaudio\<close>, a Dante-compatible receiver library, with the theorems that make
  its parts correct.

  \<^bold>\<open>The program.\<close> A device answers the control protocols (ARC, CMC, multicast info, mDNS),
  subscribes its receive channels to transmitters with flows-control requests, receives
  media packets into a ring of samples, and follows the transmitter's clock with an
  overlay clock fed by PTPv1 and by the times of the media packets. The application reads
  blocks of samples from the ring with \<open>try_read\<close>. The servers and the tasks that establish
  flows run on tokio, the announcer, the media loop and the PTP listener on threads of their
  own; they share the record \<open>shared\<close> (\<open>Shared\<close> of \<open>device/mod.rs\<close>).

  \<^bold>\<open>Shared ground.\<close>
  \<^item> \<open>Prelude\<close>: machine types, panics as values (\<open>outcome\<close>), checked indexing, big-endian bytes,
    loops that may panic, and the contracts of components that handle events (\<open>machine\<close>,
    \<open>fallible_machine\<close>).
  \<^item> \<open>Text\<close>: what the program uses of Rust's strings (splitting, trimming, numbers).
  \<^item> \<open>F64\<close>: the double arithmetic of the clock, rounding included.

  \<^bold>\<open>Protocols\<close> (\<open>src/protocol\<close>): layouts, round trips and panics.
  \<^item> \<open>Buf\<close> (\<open>buf.rs\<close>): byte reader and writer, C strings, UTF-8. \<open>Req_Resp\<close> (\<open>req_resp.rs\<close>): the
    header of ARC and flows-control packets.
  \<^item> \<open>Pcm\<close> (\<open>pcm.rs\<close>): samples to and from bytes. \<open>Media_Proto\<close> (\<open>media.rs\<close>, the conversions of
    \<open>device/mod.rs\<close>): media packets.
  \<^item> \<open>Ptp_V1\<close> (\<open>ptp_v1.rs\<close>), \<open>Cmc\<close> (\<open>cmc.rs\<close>), \<open>Flows_Control\<close> (\<open>flows_control.rs\<close>), \<open>Arc\<close> (\<open>arc.rs\<close>),
    \<open>Mdns\<close> (\<open>mdns.rs\<close>, the decisions of \<open>net/mdns.rs\<close>), \<open>Info_Mcast\<close> (\<open>info_mcast.rs\<close>).

  \<^bold>\<open>Clock and media.\<close>
  \<^item> \<open>Overlay\<close> (\<open>clock/overlay.rs\<close>): the overlay clock and its transitions, each as one step.
  \<^item> \<open>Seqlock\<close> (the same file): \<open>publish\<close> and the loop of \<open>now_ns\<close> as interleaved atomic
    operations. With one publishing thread they refine an atomic register; with the two a
    device has they do not.
  \<^item> \<open>Ptp_Thread\<close> (\<open>clock/ptp.rs\<close>): the listener that feeds the clock.
  \<^item> \<open>Packet_Buffer\<close>, \<open>Ring\<close> (\<open>media/ring.rs\<close>): the contract of a store of packets, and the
    ring of samples that implements it.
  \<^item> \<open>Media_Rx\<close> (\<open>media/rx.rs\<close>): a turn of the media thread.

  \<^item> \<open>Clock_Lock\<close>: the clock on a regular PTP master, from the first observation to the lock.

  \<^bold>\<open>Device.\<close>
  \<^item> \<open>Settings\<close> (\<open>device/settings.rs\<close>, \<open>device/error.rs\<close>) and \<open>Net\<close> (\<open>net/udp.rs\<close>, \<open>net/iface.rs\<close>,
    \<open>net/windows.rs\<close>): settings and their validation; sockets and interfaces over an operating
    system that is a parameter (record \<open>os\<close>).
  \<^item> \<open>Device\<close> (\<open>device/mod.rs\<close>): the shared state, the parts of a device's start that ask the
    operating system, and what the application calls. \<open>Started\<close>: the identity and the control
    ports that a start makes.
  \<^item> \<open>Subscribe\<close> (\<open>device/subscribe.rs\<close>): subscriptions; the task \<open>establish\<close> is a machine with one
    phase per point where it waits or takes a lock.
  \<^item> \<open>Servers\<close> (\<open>device/arc.rs\<close>, \<open>cmc.rs\<close>, \<open>info_mcast.rs\<close>, the announcer of \<open>net/mdns.rs\<close>): one
    definition per turn of a server's loop.
  \<^item> \<open>Device_Run\<close>: the device as one machine, \<open>device_step\<close>, whose events are the critical
    sections of its threads and tasks, with the invariant \<open>device_ok\<close> and the log \<open>dv_out\<close> of what
    its servers send.

  \<^bold>\<open>What the parts do together.\<close>
  \<^item> \<open>Establish\<close>: what a subscription does, from the task's first step to the samples the
    application hears, and what goes wrong when it changes on the way. \<open>Lifecycle\<close>: unsubscribing
    undoes it, and the keepalives in between. \<open>Session\<close>: all of it in one run of the device, from
    the packet of the request to the \<open>try_read\<close>.
  \<^item> \<open>Query\<close>, \<open>Wire\<close>: the one-shot query of \<open>net/mdns.rs\<close> and \<open>send_flows_request\<close>; what a task
    does with the packets of a transmitter. \<open>Discovery\<close>: one device finds another.
  \<^item> \<open>Console\<close>: the abstract specification of a device as its controllers see it, a map from
    channels to names and patches; every run refines it, and a page request reads it. \<open>Notices\<close>:
    a rename is announced to the group.
  \<^item> \<open>Whole_Device\<close>: what holds under every interleaving, and the stop.
    \<open>Teardown\<close>: \<open>shutdown\<close> and \<open>Drop\<close> with the threads they join (the machine \<open>host_step\<close>).
  \<^item> \<open>Launch\<close>: \<open>start_inner\<close> as what it does to the process: each thread it starts is a change of
    the host, and every return with an error drops what the function holds and leaves the host
    there. A start that succeeds leaves the host that \<open>Teardown\<close> runs, on a usable address; one
    that fails leaves threads, and the host is run to see what they do.
  \<^item> \<open>Receiver\<close> (\<open>examples/rx.rs\<close>): the program that ships with the library: its settings, its
    reading loop and its meter.

  \<^bold>\<open>Bounds.\<close> Integers keep their width. A task needs nine steps (\<open>rank\<close> counts them down from
  \<open>Resolving\<close>). A shutdown needs ten rounds of turns. The sequence number of the lock is
  distinguishable for \<open>2 ^ 63\<close> publications. Packets are cut to the buffers of the code (2048 bytes
  for media and control, 1500 for mDNS and flows-control replies). Loops of the code are
  structural recursions or have a measure; no definition uses fuel.

  \<^bold>\<open>Not modelled.\<close> The sockets and timers themselves (what arrives, and when, is an argument or
  the order of events), log messages, the parsing of the example's command line by clap and the
  logarithm of its levels, and the tests. A critical section under a mutex is one step; finer
  interleavings are modelled only for the clock's sequence lock. A media packet is one step of
  the media thread although it touches the clock, the ring and the subscriptions one after the
  other.
\<close>

end
